(* ===== verification/Prelude.thy ===== *)
theory Prelude
  imports Main "HOL-Library.Word"
begin

text \<open>
  Shared vocabulary of the development: the fixed-width integer types of the C sources,
  the byte-order macros of the (little-endian) host, and the generic facts about words,
  lists and options that several components use.  Facts that unfold C-level arithmetic
  are collected in \<open>word_arith\<close>; facts about list segments in \<open>seg_simps\<close>.
\<close>

unbundle bit_operations_syntax

type_synonym u8 = "8 word"
type_synonym u16 = "16 word"
type_synonym u32 = "32 word"
type_synonym u64 = "64 word"

named_theorems word_arith \<open>unat of word expressions\<close>
named_theorems seg_simps \<open>segments of byte lists\<close>

section \<open>Words\<close>

text \<open>Shifts stay shifts: no rewriting of \<open>push_bit\<close> into products.\<close>

declare push_bit_Suc [simp del] push_bit_of_1 [simp del]

lemma unat_of_nat_small [word_arith]:
  "n < 2 ^ LENGTH('a::len) \<Longrightarrow> unat (of_nat n :: 'a word) = n"
  by (simp add: unat_of_nat take_bit_nat_eq_self)

lemma unat_of_nat_u32 [simp]: "n < 4294967296 \<Longrightarrow> unat (of_nat n :: 32 word) = n"
  using unat_of_nat_small [of n, where 'a = 32] by simp

lemma unat_of_nat_u64 [simp]: "n < 18446744073709551616 \<Longrightarrow> unat (of_nat n :: 64 word) = n"
  using unat_of_nat_small [of n, where 'a = 64] by simp

lemma unat_add_small [word_arith]:
  "unat x + unat y < 2 ^ LENGTH('a::len) \<Longrightarrow> unat (x + y :: 'a word) = unat x + unat y"
  by (simp add: unat_word_ariths)

lemma unat_mult_small [word_arith]:
  "unat x * unat y < 2 ^ LENGTH('a::len) \<Longrightarrow> unat (x * y :: 'a word) = unat x * unat y"
  by (simp add: unat_word_ariths)

lemma unat_sub_small [word_arith]:
  "unat y \<le> unat x \<Longrightarrow> unat (x - y :: 'a::len word) = unat x - unat y"
  by (simp add: unat_sub word_le_nat_alt)

lemma unat_ucast_small [word_arith]:
  "unat (x :: 'a::len word) < 2 ^ LENGTH('b::len) \<Longrightarrow> unat (ucast x :: 'b word) = unat x"
  by (simp add: unsigned_ucast_eq take_bit_nat_eq_self)

lemma unat_ucast_up [simp]: "unat (ucast (x :: 32 word) :: 64 word) = unat x"
proof -
  have "unat x < 2 ^ 32" using unsigned_less [of x] by simp
  then show ?thesis by (simp add: unat_ucast_small)
qed

lemma unat_lt_u32: "unat (x :: 32 word) < 4294967296"
  using unsigned_less [of x] by simp

lemma unat_lt_u64: "unat (x :: 64 word) < 18446744073709551616"
  using unsigned_less [of x] by simp

lemma bit_unat: "bit (unat (w :: 'a::len word)) n = bit w n"
  by transfer (simp add: bit_take_bit_iff bit_simps)

lemma bit_of_nat_u32: "n < 4294967296 \<Longrightarrow> bit (of_nat n :: 32 word) k = bit n k"
  using bit_unat [of "of_nat n :: 32 word" k] by simp

lemma word_eqI_unat: "unat x = unat y \<Longrightarrow> x = (y :: 'a::len word)"
  by (rule word_unat_eq_iff [THEN iffD2])

lemma word_of_unat: "unat w = n \<Longrightarrow> w = of_nat n"
  by auto

text \<open>The bitwise OR of two numbers without a common bit is their sum.\<close>

lemma or_eq_add_nat: "a AND b = (0::nat) \<Longrightarrow> a OR b = a + b"
  using disjunctive_add_eq_or [of a b] by simp

lemma or_low_bits_nat:
  assumes "2 ^ h dvd a" "b < 2 ^ h" shows "a OR b = a + (b :: nat)"
proof -
  have "bit a n \<Longrightarrow> h \<le> n" for n
  proof (rule ccontr)
    assume "bit a n" "\<not> h \<le> n"
    with assms(1) show False
      by (metis bit_push_bit_iff_nat dvd_def mult.commute push_bit_nat_def)
  qed
  moreover have "bit b n \<Longrightarrow> n < h" for n
    using assms(2) by (metis bit_take_bit_iff take_bit_nat_eq_self)
  ultimately have "a AND b = 0"
    by (intro bit_eqI) (fastforce simp: bit_and_iff)
  then show ?thesis by (rule or_eq_add_nat)
qed

section \<open>Byte order\<close>

text \<open>
  The sources are compiled for a little-endian host: \<open>ntohs\<close>, \<open>htons\<close>, \<open>ntohl\<close> and
  \<open>htonl\<close> reverse the bytes of their argument.
\<close>

definition bswap16 :: "u16 \<Rightarrow> u16" where
  "bswap16 x = push_bit 8 x OR drop_bit 8 x"

definition bswap32 :: "u32 \<Rightarrow> u32" where
  "bswap32 x = push_bit 24 x OR push_bit 16 (take_bit 8 (drop_bit 8 x))
     OR push_bit 8 (take_bit 8 (drop_bit 16 x)) OR drop_bit 24 x"

abbreviation ntohs :: "u16 \<Rightarrow> u16" where "ntohs \<equiv> bswap16"
abbreviation htons :: "u16 \<Rightarrow> u16" where "htons \<equiv> bswap16"
abbreviation ntohl :: "u32 \<Rightarrow> u32" where "ntohl \<equiv> bswap32"
abbreviation htonl :: "u32 \<Rightarrow> u32" where "htonl \<equiv> bswap32"

lemma bswap16_invol [simp]: "bswap16 (bswap16 x) = x"
  by (rule bit_word_eqI) (auto simp: bswap16_def bit_simps)

lemma bit_bswap32:
  "n < 32 \<Longrightarrow> bit (bswap32 x) n =
     bit x (if n < 8 then n + 24 else if n < 16 then n + 8 else if n < 24 then n - 8 else n - 24)"
  by (auto simp: bswap32_def bit_or_iff bit_push_bit_iff bit_take_bit_iff bit_drop_bit_eq
    not_less add.commute dest: bit_imp_le_length)

lemma bswap32_invol [simp]: "bswap32 (bswap32 x) = x"
proof (rule bit_word_eqI)
  fix n assume "n < LENGTH(32)"
  then consider "n < 8" | "8 \<le> n \<and> n < 16" | "16 \<le> n \<and> n < 24" | "24 \<le> n \<and> n < 32" by force
  then show "bit (bswap32 (bswap32 x)) n = bit x n" 
    by cases (auto simp: bit_bswap32 less_imp_diff_less)
qed

lemma bswap32_inj [simp]: "bswap32 x = bswap32 y \<longleftrightarrow> x = y"
  by (metis bswap32_invol)

lemma bswap16_inj [simp]: "bswap16 x = bswap16 y \<longleftrightarrow> x = y"
  by (metis bswap16_invol)

lemma bswap32_0 [simp]: "bswap32 0 = 0"
  by (simp add: bswap32_def)

lemma bswap32_eq_0 [simp]: "bswap32 x = 0 \<longleftrightarrow> x = 0"
  by (metis bswap32_0 bswap32_invol)

text \<open>The bytes of a word in memory, least significant first, and the word they make.\<close>

primrec le_bytes :: "nat \<Rightarrow> 'a::len word \<Rightarrow> u8 list" where
  "le_bytes 0 w = []"
| "le_bytes (Suc n) w = ucast w # le_bytes n (drop_bit 8 w)"

fun le_word :: "u8 list \<Rightarrow> 'a::len word" where
  "le_word [] = 0"
| "le_word (b # bs) = ucast b OR push_bit 8 (le_word bs)"

lemma length_le_bytes [simp]: "length (le_bytes n w) = n"
  by (induction n arbitrary: w) auto

lemma bit_le_word:
  "bit (le_word bs :: 'a::len word) n \<longleftrightarrow> n < LENGTH('a) \<and> n < 8 * length bs \<and> bit (bs ! (n div 8)) (n mod 8)"
proof (induction bs arbitrary: n)
  case (Cons b bs)
  show ?case
  proof (cases "n < 8")
    case True
    then show ?thesis by (auto simp: bit_simps)
  next
    case False
    then have "n div 8 = Suc ((n - 8) div 8)" "n mod 8 = (n - 8) mod 8" by (simp_all add: le_div_geq le_mod_geq)
    then show ?thesis using False Cons [of "n - 8"] by (auto simp: bit_simps dest: bit_imp_le_length)
  qed
qed simp

lemma le_bytes_nth: "i < n \<Longrightarrow> le_bytes n w ! i = ucast (drop_bit (8 * i) w)"
  by (induction n arbitrary: w i) (auto simp: nth_Cons' drop_bit_drop_bit add.commute
    simp flip: mult_Suc_right split: nat.splits)

lemma le_word_le_bytes: "LENGTH('a) \<le> 8 * n \<Longrightarrow> le_word (le_bytes n (w :: 'a::len word)) = w"
  by (rule bit_word_eqI) (auto simp: bit_le_word le_bytes_nth bit_simps less_mult_imp_div_less mult.commute)

lemma le_bytes_le_word:
  "length bs = n \<Longrightarrow> 8 * n \<le> LENGTH('a) \<Longrightarrow> le_bytes n (le_word bs :: 'a::len word) = bs"
proof (rule nth_equalityI, simp)
  fix i assume a: "length bs = n" "8 * n \<le> LENGTH('a)" "i < length (le_bytes n (le_word bs :: 'a word))"
  have "j < 8 \<Longrightarrow> bit (ucast (drop_bit (8 * i) (le_word bs :: 'a word)) :: u8) j = bit (bs ! i) j" for j
    using a by (simp add: bit_simps bit_le_word)
  then show "le_bytes n (le_word bs :: 'a word) ! i = bs ! i"
    using a by (intro bit_word_eqI) (simp add: le_bytes_nth)
qed

section \<open>Lists\<close>

lemma sorted_wrt_append_bounds:
  "sorted_wrt (<) xs \<Longrightarrow> sorted_wrt (<) ys \<Longrightarrow> \<forall>x \<in> set xs. x < m \<Longrightarrow> \<forall>y \<in> set ys. m \<le> y
   \<Longrightarrow> sorted_wrt (<) (xs @ ys :: nat list)"
  by (auto simp: sorted_wrt_append intro: less_le_trans)

lemma strict_sorted_distinct: "sorted_wrt (<) (xs :: 'a::linorder list) \<Longrightarrow> distinct xs"
  by (simp add: strict_sorted_iff)

lemma bij_betw_nth_set: "distinct xs \<Longrightarrow> bij_betw (\<lambda>i. xs ! i) {..<length xs} (set xs)"
  by (rule bij_betw_nth) auto

text \<open>Indexing a concatenation of blocks of one length.\<close>

lemma length_concat_blocks:
  "(\<And>x. x \<in> set xs \<Longrightarrow> length (f x) = m) \<Longrightarrow> length (concat (map f xs)) = length xs * m"
  by (induction xs) auto

lemma nth_concat_blocks:
  assumes "\<And>x. x \<in> set xs \<Longrightarrow> length (f x) = m" "i < length xs * m"
  shows "concat (map f xs) ! i = f (xs ! (i div m)) ! (i mod m)"
  using assms
proof (induction xs arbitrary: i)
  case (Cons x xs)
  then have m: "m > 0" by (cases m) auto
  show ?case
  proof (cases "i < m")
    case True
    then show ?thesis using Cons.prems(1) by (simp add: nth_append)
  next
    case False
    then have "concat (map f (x # xs)) ! i = concat (map f xs) ! (i - m)"
      using Cons.prems(1) by (simp add: nth_append)
    also have "\<dots> = f (xs ! ((i - m) div m)) ! ((i - m) mod m)"
      using Cons.prems False by (intro Cons.IH) auto
    also have "\<dots> = f ((x # xs) ! (i div m)) ! (i mod m)"
      using False m by (simp add: le_div_geq le_mod_geq)
    finally show ?thesis .
  qed
qed simp

lemma sorted_wrt_concat_blocks:
  "sorted_wrt (<) xs \<Longrightarrow> sorted_wrt (<) (concat (map (\<lambda>i. [i * m..<i * m + m]) xs))"
proof (induction xs)
  case (Cons x xs)
  have "x * m + m \<le> y * m" if "y \<in> set xs" for y
    using mult_le_mono1 [of "Suc x" y m] Cons.prems that by (auto simp: Suc_le_eq)
  then have "a < a'" if "y \<in> set xs" "a < x * m + m" "y * m \<le> a'" for y a a'
    using that less_le_trans le_trans by meson
  with Cons show ?case by (auto simp: sorted_wrt_append)
qed simp

text \<open>The bit that splits an aligned block into its halves.\<close>

lemma aligned_bit:
  assumes "2 ^ Suc h dvd b" "b \<le> x" "x < b + 2 ^ Suc h"
  shows "bit (x :: nat) h \<longleftrightarrow> b + 2 ^ h \<le> x"
proof -
  obtain q where q: "b = 2 ^ Suc h * q" using assms(1) by (auto elim: dvdE)
  define y where "y = x - b"
  have y: "x = b + y" "y < 2 ^ Suc h" using assms(2,3) by (auto simp: y_def)
  have "x = y + (2 * q) * 2 ^ h" using q y by simp
  then have "x div 2 ^ h = 2 * q + y div 2 ^ h" by (simp only: div_mult_self1) simp
  then have "bit x h \<longleftrightarrow> odd (y div 2 ^ h)" by (simp add: bit_iff_odd)
  also have "\<dots> \<longleftrightarrow> 2 ^ h \<le> y"
  proof (cases "2 ^ h \<le> y")
    case True
    then have "y div 2 ^ h = 1" using y(2) by (intro div_nat_eqI) auto
    with True show ?thesis by simp
  qed simp
  also have "\<dots> \<longleftrightarrow> b + 2 ^ h \<le> x" by (simp add: y(1))
  finally show ?thesis .
qed

end
