(* ===== verification/Rijndael_Tables.thy ===== *)
theory Rijndael_Tables
  imports Rijndael
begin

text \<open>
  The bytes of a word, the column mixing of AES as linear maps of words, and the check that
  every table of \<open>Rijndael\<close> is the sbox-box, or its inverse, combined with the mixing.
\<close>

unbundle bit_operations_syntax

section \<open>Bytes and words\<close>

definition B3 :: "u32 \<Rightarrow> u8" where "B3 w = ucast (drop_bit 24 w)"
definition B2 :: "u32 \<Rightarrow> u8" where "B2 w = ucast (drop_bit 16 w)"
definition B1 :: "u32 \<Rightarrow> u8" where "B1 w = ucast (drop_bit 8 w)"
definition B0 :: "u32 \<Rightarrow> u8" where "B0 w = ucast w"

definition pack4 :: "u8 \<Rightarrow> u8 \<Rightarrow> u8 \<Rightarrow> u8 \<Rightarrow> u32" where
  "pack4 a b c d = push_bit 24 (ucast a) OR push_bit 16 (ucast b) OR push_bit 8 (ucast c) OR ucast d"

lemma bit_pack4:
  "n < 32 \<Longrightarrow> bit (pack4 a b c d) n =
     (if n < 8 then bit d n else if n < 16 then bit c (n - 8)
      else if n < 24 then bit b (n - 16) else bit a (n - 24))"
  by (auto simp: pack4_def bit_simps dest: bit_imp_le_length)

lemma B_pack4 [simp]:
  "B3 (pack4 a b c d) = a" "B2 (pack4 a b c d) = b" "B1 (pack4 a b c d) = c" "B0 (pack4 a b c d) = d"
  by (rule bit_word_eqI; simp add: B3_def B2_def B1_def B0_def bit_simps bit_pack4)+

lemma pack4_B [simp]: "pack4 (B3 w) (B2 w) (B1 w) (B0 w) = w"
  by (rule bit_word_eqI) (auto simp: bit_pack4 B3_def B2_def B1_def B0_def bit_simps)

lemma pack4_xor: "pack4 a b c d XOR pack4 a' b' c' d' = pack4 (a XOR a') (b XOR b') (c XOR c') (d XOR d')"
  by (rule bit_word_eqI) (simp add: bit_pack4 bit_xor_iff)

lemma B_xor [simp]:
  "B3 (x XOR y) = B3 x XOR B3 y" "B2 (x XOR y) = B2 x XOR B2 y"
  "B1 (x XOR y) = B1 x XOR B1 y" "B0 (x XOR y) = B0 x XOR B0 y"
  by (rule bit_word_eqI; simp add: B3_def B2_def B1_def B0_def bit_simps)+

lemma pack4_and:
  "pack4 a b c d AND 0xff000000 = pack4 a 0 0 0" "pack4 a b c d AND 0x00ff0000 = pack4 0 b 0 0"
  "pack4 a b c d AND 0x0000ff00 = pack4 0 0 c 0" "pack4 a b c d AND 0x000000ff = pack4 0 0 0 d"
proof -
  have m: "(0xff000000 :: u32) = pack4 0xff 0 0 0" "(0x00ff0000 :: u32) = pack4 0 0xff 0 0"
    "(0x0000ff00 :: u32) = pack4 0 0 0xff 0" "(0x000000ff :: u32) = pack4 0 0 0 0xff"
    by (simp_all add: pack4_def)
  have and_pack: "pack4 a b c d AND pack4 a' b' c' d' = pack4 (a AND a') (b AND b') (c AND c') (d AND d')"
    for a b c d a' b' c' d'
    by (rule bit_word_eqI) (simp add: bit_pack4 bit_and_iff)
  have m8: "(0xff :: u8) = mask 8" by (simp add: mask_eq_exp_minus_1)
  have ff: "x AND 0xff = x" for x :: u8
    unfolding m8 by (rule bit_word_eqI) (simp add: bit_and_iff bit_mask_iff del: mask_numeral)
  show "pack4 a b c d AND 0xff000000 = pack4 a 0 0 0" "pack4 a b c d AND 0x00ff0000 = pack4 0 b 0 0"
    "pack4 a b c d AND 0x0000ff00 = pack4 0 0 c 0" "pack4 a b c d AND 0x000000ff = pack4 0 0 0 d"
    by (simp_all only: m and_pack ff and_zero_eq)
qed

lemma byte_unat:
  "byte3 w = unat (B3 w)" "byte2 w = unat (B2 w)" "byte1 w = unat (B1 w)" "byte0 w = unat (B0 w)"
proof -
  have low: "unat (x AND 0xff) = unat (ucast x :: u8)" for x :: u32
  proof -
    have m8: "(0xff :: u32) = mask 8" by (simp add: mask_eq_exp_minus_1)
    show ?thesis unfolding m8
      by (simp only: take_bit_eq_mask [symmetric] unsigned_ucast_eq unsigned_take_bit_eq) simp
  qed
  have "unat (drop_bit 24 w) < 256"
    using unat_lt_u32 [of w] by (simp add: drop_bit_eq_div unat_div less_mult_imp_div_less)
  then have "unat (drop_bit 24 w) = unat (ucast (drop_bit 24 w) :: u8)"
    using unat_ucast_small [of "drop_bit 24 w", where 'b = 8] by simp
  then show "byte3 w = unat (B3 w)" "byte2 w = unat (B2 w)" "byte1 w = unat (B1 w)" "byte0 w = unat (B0 w)"
    by (simp_all add: byte3_def byte2_def byte1_def byte0_def B3_def B2_def B1_def B0_def low)
qed

lemma GETU32_pack4: "GETU32 b i = pack4 (b ! i) (b ! (i + 1)) (b ! (i + 2)) (b ! (i + 3))"
  by (rule bit_word_eqI) (auto simp: GETU32_def bit_pack4 bit_simps dest: bit_imp_le_length)

lemma PUTU32_B: "PUTU32 w = [B3 w, B2 w, B1 w, B0 w]"
  by (simp add: PUTU32_def B3_def B2_def B1_def B0_def)

section \<open>Column mixing\<close>

definition xt :: "u8 \<Rightarrow> u8" where
  "xt x = (if x < 0x80 then 2 * x else 2 * x XOR 0x1b)"

lemma xt_bit: "xt x = push_bit 1 x XOR (if bit x 7 then 0x1b else 0)"
proof -
  have "x < 0x80 \<longleftrightarrow> \<not> bit x 7"
  proof -
    have "x < 0x80 \<longleftrightarrow> unat x < 2 ^ 7" by (simp add: word_less_nat_alt)
    also have "\<dots> \<longleftrightarrow> \<not> bit (unat x) 7"
    proof -
      have "unat x div 128 = (if unat x < 128 then 0 else 1)"
        using unsigned_less [of x] by (auto intro: div_nat_eqI)
      then show ?thesis by (simp add: bit_iff_odd)
    qed
    finally show ?thesis by (simp add: bit_unat)
  qed
  then show ?thesis by (simp add: xt_def push_bit_eq_mult mult.commute)
qed

lemma xt_xor [simp]: "xt (x XOR y) = xt x XOR xt y"
  by (rule bit_word_eqI) (auto simp: xt_bit bit_simps)

definition mix0 :: "u8 \<Rightarrow> u32" where
  "mix0 s = pack4 (xt s) s s (xt s XOR s)"

definition inv_mix0 :: "u8 \<Rightarrow> u32" where
  "inv_mix0 x = pack4 (xt (xt (xt x)) XOR xt (xt x) XOR xt x) (xt (xt (xt x)) XOR x)
     (xt (xt (xt x)) XOR xt (xt x) XOR x) (xt (xt (xt x)) XOR xt x XOR x)"

definition rot8 :: "u32 \<Rightarrow> u32" where
  "rot8 w = push_bit 24 w OR drop_bit 8 w"

lemma rot8_pack4 [simp]: "rot8 (pack4 a b c d) = pack4 d a b c"
  by (rule bit_word_eqI) (auto simp: rot8_def bit_simps bit_pack4 dest: bit_imp_le_length)

definition mix :: "u32 \<Rightarrow> u32" where
  "mix w = mix0 (B3 w) XOR rot8 (mix0 (B2 w)) XOR rot8 (rot8 (mix0 (B1 w)))
     XOR rot8 (rot8 (rot8 (mix0 (B0 w))))"

definition unmix :: "u32 \<Rightarrow> u32" where
  "unmix w = inv_mix0 (B3 w) XOR rot8 (inv_mix0 (B2 w)) XOR rot8 (rot8 (inv_mix0 (B1 w)))
     XOR rot8 (rot8 (rot8 (inv_mix0 (B0 w))))"

lemma xor_cancel: "(x :: 'a::len word) XOR (x XOR y) = y"
  by (simp flip: xor.assoc)

lemmas xor_ac = xor.assoc xor.commute xor.left_commute xor_cancel

lemma unmix_xor: "unmix (x XOR y) = unmix x XOR unmix y"
  by (simp add: unmix_def inv_mix0_def pack4_xor xor_ac)

lemma unmix_mix: "unmix (mix w) = w"
proof -
  have "unmix (mix (pack4 a b c d)) = pack4 a b c d" for a b c d
    by (simp add: unmix_def mix_def mix0_def inv_mix0_def pack4_xor xor_ac)
  from this [of "B3 w" "B2 w" "B1 w" "B0 w"] show ?thesis by simp
qed

section \<open>The tables\<close>

definition sbox :: "u8 \<Rightarrow> u8" where "sbox x = ucast (Te4 ! unat x)"
definition inv_sbox :: "u8 \<Rightarrow> u8" where "inv_sbox x = ucast (Td4 ! unat x)"

text \<open>
  Each table is checked against its definition on all 256 entries.  The products with the
  constants \<open>0x01010101\<close> and the like place copies of one byte; they are the form in which
  the check is fast.
\<close>

lemma pack4_mult:
  "pack4 x x x x = ucast x * 0x01010101"
  "mix0 x = ucast (xt x) * 0x01000001 XOR ucast x * 0x00010101"
  "inv_mix0 x = ucast (xt (xt (xt x))) * 0x01010101 XOR ucast (xt (xt x)) * 0x01000100
     XOR ucast (xt x) * 0x01000001 XOR ucast x * 0x00010101"
proof -
  have p: "pack4 x 0 0 0 = ucast x * 0x01000000" "pack4 0 x 0 0 = ucast x * 0x00010000"
    "pack4 0 0 x 0 = ucast x * 0x00000100" "pack4 0 0 0 x = ucast x" for x
    by (simp_all add: pack4_def push_bit_eq_mult)
  have add: "pack4 a b c d = pack4 a 0 0 0 + pack4 0 b 0 0 + pack4 0 0 c 0 + pack4 0 0 0 d" for a b c d
  proof -
    have "pack4 a 0 0 0 AND pack4 0 b 0 0 = 0" "(pack4 a 0 0 0 OR pack4 0 b 0 0) AND pack4 0 0 c 0 = 0"
      "(pack4 a 0 0 0 OR pack4 0 b 0 0 OR pack4 0 0 c 0) AND pack4 0 0 0 d = 0"
      by (rule bit_word_eqI; simp add: bit_pack4 bit_simps)+
    then have "pack4 a 0 0 0 + pack4 0 b 0 0 + pack4 0 0 c 0 + pack4 0 0 0 d =
        pack4 a 0 0 0 OR pack4 0 b 0 0 OR pack4 0 0 c 0 OR pack4 0 0 0 d"
      by (simp add: disjunctive_add_eq_or or.assoc)
    also have "\<dots> = pack4 a b c d" by (simp add: pack4_def or.assoc)
    finally show ?thesis by simp
  qed
  have c: "pack4 x x x x = ucast x * 0x01010101" "pack4 x 0 0 x = ucast x * 0x01000001"
    "pack4 0 x x x = ucast x * 0x00010101" "pack4 x 0 x 0 = ucast x * 0x01000100" for x
    by (subst add; simp add: p)+
  show "pack4 x x x x = ucast x * 0x01010101" by (rule c)
  show "mix0 x = ucast (xt x) * 0x01000001 XOR ucast x * 0x00010101"
    by (simp only: c [symmetric] pack4_xor mix0_def xor.right_neutral xor.left_neutral)
  show "inv_mix0 x = ucast (xt (xt (xt x))) * 0x01010101 XOR ucast (xt (xt x)) * 0x01000100
     XOR ucast (xt x) * 0x01000001 XOR ucast x * 0x00010101"
    by (simp only: c [symmetric] pack4_xor inv_mix0_def xor.right_neutral xor.left_neutral xor.assoc)
qed

definition inv3 :: "u32 \<Rightarrow> u32 \<Rightarrow> u32 \<Rightarrow> u8 \<Rightarrow> u32" where
  "inv3 a b c z = ucast (xt z) * 0x01010101 XOR c * 0x01000100 XOR b * 0x01000001 XOR a * 0x00010101"

definition inv2 :: "u32 \<Rightarrow> u32 \<Rightarrow> u8 \<Rightarrow> u32" where
  "inv2 a b y = inv3 a b (ucast (xt y)) (xt y)"

definition inv1 :: "u8 \<Rightarrow> u32" where
  "inv1 x = inv2 (ucast x) (ucast (xt x)) (xt x)"

lemma Te4_table: "map (\<lambda>w. ucast (ucast w :: u8) * 0x01010101) Te4 = Te4"
  by (simp add: Te4_def)

lemma Td4_table: "map (\<lambda>w. ucast (ucast w :: u8) * 0x01010101) Td4 = Td4"
  by (simp add: Td4_def)

lemma Te0_table:
  "map (\<lambda>w. ucast (xt (ucast w)) * 0x01000001 XOR ucast (ucast w :: u8) * 0x00010101) Te4 = Te0"
  by (simp add: Te4_def Te0_def xt_def)

lemma Td0_table_low: "map (\<lambda>w. inv1 (ucast w)) (take 128 Td4) = take 128 Td0"
  by (simp add: Td4_def Td0_def inv1_def inv2_def inv3_def xt_def)

lemma Td0_table_high: "map (\<lambda>w. inv1 (ucast w)) (drop 128 Td4) = drop 128 Td0"
  by (simp add: Td4_def Td0_def inv1_def inv2_def inv3_def xt_def)

lemma Td0_table: "map (\<lambda>w. inv1 (ucast w)) Td4 = Td0"
  using Td0_table_low Td0_table_high by (metis append_take_drop_id map_append)

lemma Te1_table: "map rot8 Te0 = Te1" by (simp add: Te0_def Te1_def rot8_def)
lemma Te2_table: "map rot8 Te1 = Te2" by (simp add: Te1_def Te2_def rot8_def)
lemma Te3_table: "map rot8 Te2 = Te3" by (simp add: Te2_def Te3_def rot8_def)
lemma Td1_table: "map rot8 Td0 = Td1" by (simp add: Td0_def Td1_def rot8_def)
lemma Td2_table: "map rot8 Td1 = Td2" by (simp add: Td1_def Td2_def rot8_def)
lemma Td3_table: "map rot8 Td2 = Td3" by (simp add: Td2_def Td3_def rot8_def)

lemma Td4_inverse: "map (\<lambda>w. ucast (Td4 ! unat (ucast w :: u8))) Te4 = map (of_nat :: nat \<Rightarrow> u8) [0..<256]"
  by code_simp

end
