(* ===== verification/Rijndael_Correct.thy ===== *)
theory Rijndael_Correct
  imports Rijndael_Tables
begin

text \<open>
  The correctness of the cipher: the encryption round is the AES round on words, the
  decryption keys are those of the equivalent inverse cipher, decrypting an encrypted block
  gives the block back, and the unrolled bodies compute what the loops compute.
\<close>

unbundle bit_operations_syntax

section \<open>Table lookups as byte operations\<close>

lemma length_tables [simp]: "length Te4 = 256" "length Td4 = 256" "length Te0 = 256" "length Te1 = 256"
  "length Te2 = 256" "length Te3 = 256" "length Td0 = 256" "length Td1 = 256" "length Td2 = 256"
  "length Td3 = 256"
proof -
  show 4: "length Te4 = 256" "length Td4 = 256" by (simp_all add: Te4_def Td4_def)
  show 0: "length Te0 = 256" "length Td0 = 256"
    using arg_cong [OF Te0_table, of length] arg_cong [OF Td0_table, of length] 4 by simp_all
  show 1: "length Te1 = 256" "length Td1 = 256"
    using arg_cong [OF Te1_table, of length] arg_cong [OF Td1_table, of length] 0 by simp_all
  show 2: "length Te2 = 256" "length Td2 = 256"
    using arg_cong [OF Te2_table, of length] arg_cong [OF Td2_table, of length] 1 by simp_all
  show "length Te3 = 256" "length Td3 = 256"
    using arg_cong [OF Te3_table, of length] arg_cong [OF Td3_table, of length] 2 by simp_all
qed

lemma unat_u8_less [simp]: "unat (x :: u8) < 256"
  using unsigned_less [of x] by simp

lemma map_tableD: "map f xs = ys \<Longrightarrow> length xs = 256 \<Longrightarrow> ys ! unat (x :: u8) = f (xs ! unat x)"
  by auto

lemma Te4_nth: "Te4 ! unat x = pack4 (sbox x) (sbox x) (sbox x) (sbox x)"
  using map_tableD [OF Te4_table, of x] by (simp add: sbox_def pack4_mult(1))

lemma Td4_nth: "Td4 ! unat x = pack4 (inv_sbox x) (inv_sbox x) (inv_sbox x) (inv_sbox x)"
  using map_tableD [OF Td4_table, of x] by (simp add: inv_sbox_def pack4_mult(1))

lemma Te_nth:
  "Te0 ! unat x = mix0 (sbox x)" "Te1 ! unat x = rot8 (mix0 (sbox x))"
  "Te2 ! unat x = rot8 (rot8 (mix0 (sbox x)))" "Te3 ! unat x = rot8 (rot8 (rot8 (mix0 (sbox x))))"
proof -
  show 0: "Te0 ! unat x = mix0 (sbox x)"
    using map_tableD [OF Te0_table, of x] by (simp add: sbox_def pack4_mult(2))
  show 1: "Te1 ! unat x = rot8 (mix0 (sbox x))" using map_tableD [OF Te1_table, of x] 0 by simp
  show 2: "Te2 ! unat x = rot8 (rot8 (mix0 (sbox x)))" using map_tableD [OF Te2_table, of x] 1 by simp
  show "Te3 ! unat x = rot8 (rot8 (rot8 (mix0 (sbox x))))" using map_tableD [OF Te3_table, of x] 2 by simp
qed

lemma inv1_inv_mix0: "inv1 x = inv_mix0 x"
  by (simp add: inv1_def inv2_def inv3_def pack4_mult(3) xor.assoc)

lemma Td_nth:
  "Td0 ! unat x = inv_mix0 (inv_sbox x)" "Td1 ! unat x = rot8 (inv_mix0 (inv_sbox x))"
  "Td2 ! unat x = rot8 (rot8 (inv_mix0 (inv_sbox x)))" "Td3 ! unat x = rot8 (rot8 (rot8 (inv_mix0 (inv_sbox x))))"
proof -
  show 0: "Td0 ! unat x = inv_mix0 (inv_sbox x)"
    using map_tableD [OF Td0_table, of x] by (simp add: inv_sbox_def inv1_inv_mix0)
  show 1: "Td1 ! unat x = rot8 (inv_mix0 (inv_sbox x))" using map_tableD [OF Td1_table, of x] 0 by simp
  show 2: "Td2 ! unat x = rot8 (rot8 (inv_mix0 (inv_sbox x)))" using map_tableD [OF Td2_table, of x] 1 by simp
  show "Td3 ! unat x = rot8 (rot8 (rot8 (inv_mix0 (inv_sbox x))))" using map_tableD [OF Td3_table, of x] 2 by simp
qed

lemma inv_sbox_sbox [simp]: "inv_sbox (sbox x) = x"
proof -
  have "map (\<lambda>w. ucast (Td4 ! unat (ucast w :: u8))) Te4 ! unat x = (map of_nat [0..<256] ! unat x :: u8)"
    by (simp only: Td4_inverse)
  then show ?thesis by (simp add: inv_sbox_def sbox_def)
qed

definition S4 :: "u32 \<Rightarrow> u32 \<Rightarrow> u32 \<Rightarrow> u32 \<Rightarrow> u32" where
  "S4 a b c d = pack4 (sbox (B3 a)) (sbox (B2 b)) (sbox (B1 c)) (sbox (B0 d))"

lemma Te4_col_S4: "Te4_col a b c d = S4 a b c d"
  by (simp add: Te4_col_def byte_unat Te4_nth pack4_and pack4_xor S4_def)

lemma Te_col_mix: "Te_col a b c d = mix (S4 a b c d)"
  by (simp add: Te_col_def mix_def byte_unat Te_nth S4_def)

lemma Td_col_unmix: "Td_col a b c d = unmix (pack4 (inv_sbox (B3 a)) (inv_sbox (B2 b)) (inv_sbox (B1 c)) (inv_sbox (B0 d)))"
  by (simp add: Td_col_def unmix_def byte_unat Td_nth)

lemma Td4_col_pack: "Td4_col a b c d = pack4 (inv_sbox (B3 a)) (inv_sbox (B2 b)) (inv_sbox (B1 c)) (inv_sbox (B0 d))"
  by (simp add: Td4_col_def byte_unat Td4_nth pack4_and pack4_xor)

lemma S_and_ff: "unat (Te4 ! unat x AND 0xff) = unat (sbox x)"
proof -
  have "Te4 ! unat x AND 0xff = pack4 0 0 0 (sbox x)" by (simp add: Te4_nth pack4_and)
  also have "\<dots> = ucast (sbox x)" by (simp add: pack4_def)
  finally show ?thesis
    using unat_ucast_small [of "sbox x", where 'b = 32] less_trans [OF unat_u8_less [of "sbox x"]] by simp
qed

lemma inv_mix_unmix: "inv_mix w = unmix w"
  by (simp add: inv_mix_def unmix_def byte_unat S_and_ff Td_nth)

section \<open>Rounds\<close>

text \<open>The state after substitution and row shift, which the decryption works on.\<close>

fun sub_shift :: "block \<Rightarrow> block" where
  "sub_shift (s0, s1, s2, s3) = (S4 s0 s1 s2 s3, S4 s1 s2 s3 s0, S4 s2 s3 s0 s1, S4 s3 s0 s1 s2)"

definition add_key :: "u32 list \<Rightarrow> nat \<Rightarrow> block \<Rightarrow> block" where
  "add_key rk p s = (case s of (a, b, c, d) \<Rightarrow>
     (a XOR rk ! p, b XOR rk ! (p + 1), c XOR rk ! (p + 2), d XOR rk ! (p + 3)))"

lemma enc_last_sub_shift: "enc_last rk p s = add_key rk p (sub_shift s)"
  by (cases s) (simp add: add_key_def Te4_col_S4)

lemma dec_last_sub_shift: "dec_last rk p (sub_shift s) = add_key rk p s"
  by (cases s) (simp add: add_key_def Td4_col_pack S4_def)

lemma add_key_twice: "(\<And>i. i < 4 \<Longrightarrow> rk' ! (q + i) = rk ! (p + i)) \<Longrightarrow> add_key rk' q (add_key rk p s) = s"
proof -
  assume k: "\<And>i. i < 4 \<Longrightarrow> rk' ! (q + i) = rk ! (p + i)"
  have "rk' ! q = rk ! p" "rk' ! (q + 1) = rk ! (p + 1)" "rk' ! (q + 2) = rk ! (p + 2)"
    "rk' ! (q + 3) = rk ! (p + 3)" using k [of 0] k [of 1] k [of 2] k [of 3] by simp_all
  then show ?thesis by (cases s) (simp add: add_key_def xor.assoc)
qed

text \<open>A decryption round with the mixed key undoes an encryption round.\<close>

lemma dec_round_enc_round:
  assumes "\<And>i. i < 4 \<Longrightarrow> rkd ! (q + i) = unmix (rk ! (p + i))"
  shows "dec_round rkd q (sub_shift (enc_round rk p s)) = sub_shift s"
proof -
  have k: "rkd ! q = unmix (rk ! p)" "rkd ! (q + 1) = unmix (rk ! (p + 1))"
    "rkd ! (q + 2) = unmix (rk ! (p + 2))" "rkd ! (q + 3) = unmix (rk ! (p + 3))"
    using assms [of 0] assms [of 1] assms [of 2] assms [of 3] by simp_all
  have r: "dec_round rkd q (sub_shift (a, b, c, d)) =
      (unmix a XOR rkd ! q, unmix b XOR rkd ! (q + 1), unmix c XOR rkd ! (q + 2), unmix d XOR rkd ! (q + 3))"
    for a b c d by (simp add: Td_col_unmix S4_def)
  obtain s0 s1 s2 s3 where s: "s = (s0, s1, s2, s3)" by (cases s) auto
  have e: "enc_round rk p s = (mix (S4 s0 s1 s2 s3) XOR rk ! p, mix (S4 s1 s2 s3 s0) XOR rk ! (p + 1),
      mix (S4 s2 s3 s0 s1) XOR rk ! (p + 2), mix (S4 s3 s0 s1 s2) XOR rk ! (p + 3))"
    by (simp add: s Te_col_mix)
  show ?thesis
    unfolding e r by (simp add: s k [simplified] unmix_xor unmix_mix xor.assoc)
qed

definition enc_rounds :: "u32 list \<Rightarrow> nat \<Rightarrow> block \<Rightarrow> block" where
  "enc_rounds rk n s = fold (\<lambda>r. enc_round rk (4 * r)) [1..<n] s"

definition dec_rounds :: "u32 list \<Rightarrow> nat \<Rightarrow> block \<Rightarrow> block" where
  "dec_rounds rk n s = fold (\<lambda>r. dec_round rk (4 * r)) [1..<n] s"

lemma dec_rounds_enc_rounds:
  assumes "\<And>r i. 1 \<le> r \<Longrightarrow> r < N \<Longrightarrow> i < 4 \<Longrightarrow> rkd ! (4 * r + i) = unmix (rk ! (4 * (N - r) + i))"
    "m \<le> N" "1 \<le> m"
  shows "dec_rounds rkd m (sub_shift (enc_rounds rk N s)) = sub_shift (enc_rounds rk (N - m + 1) s)"
  using assms(3,2)
proof (induction m rule: dec_induct)
  case base
  then show ?case by (simp add: dec_rounds_def)
next
  case (step m)
  have split: "[1..<N - m + 1] = [1..<N - Suc m + 1] @ [N - m]"
    using step.hyps step.prems by (simp add: Suc_diff_Suc upt_Suc_append flip: upt_Suc_append)
  have "enc_rounds rk (N - m + 1) s = enc_round rk (4 * (N - m)) (enc_rounds rk (N - Suc m + 1) s)"
    unfolding enc_rounds_def split by simp
  moreover have "dec_rounds rkd (Suc m) t = dec_round rkd (4 * m) (dec_rounds rkd m t)" for t
    using step.hyps by (simp add: dec_rounds_def)
  ultimately show ?case
    using step dec_round_enc_round [of rkd "4 * m" rk "4 * (N - m)"] assms(1) [of m] by simp
qed

lemma upt_two: "0 < r \<Longrightarrow> [k + 1..<k + 2 * Suc r] = (k + 1) # (k + 2) # [k + 2 + 1..<k + 2 + 2 * r]"
  by (simp add: upt_conv_Cons)

lemma enc_loop_fold:
  "0 < r \<Longrightarrow> enc_loop r rk (4 * k) s = (fold (\<lambda>i. enc_round rk (4 * i)) [k + 1..<k + 2 * r] s, 4 * k + 8 * r)"
proof (induction r arbitrary: k s)
  case (Suc r)
  show ?case
  proof (cases "r = 0")
    case False
    then have "enc_loop (Suc r) rk (4 * k) s =
        enc_loop r rk (4 * (k + 2)) (enc_round rk (4 * (k + 2)) (enc_round rk (4 * (k + 1)) s))"
      by (simp add: Let_def algebra_simps)
    also have "\<dots> = (fold (\<lambda>i. enc_round rk (4 * i)) [k + 1..<k + 2 * Suc r] s, 4 * k + 8 * Suc r)"
      using False upt_two [of r k] by (subst Suc.IH) simp_all
    finally show ?thesis .
  qed (simp add: Let_def add.commute)
qed simp

lemma dec_loop_fold:
  "0 < r \<Longrightarrow> dec_loop r rk (4 * k) s = (fold (\<lambda>i. dec_round rk (4 * i)) [k + 1..<k + 2 * r] s, 4 * k + 8 * r)"
proof (induction r arbitrary: k s)
  case (Suc r)
  show ?case
  proof (cases "r = 0")
    case False
    then have "dec_loop (Suc r) rk (4 * k) s =
        dec_loop r rk (4 * (k + 2)) (dec_round rk (4 * (k + 2)) (dec_round rk (4 * (k + 1)) s))"
      by (simp add: Let_def algebra_simps)
    also have "\<dots> = (fold (\<lambda>i. dec_round rk (4 * i)) [k + 1..<k + 2 * Suc r] s, 4 * k + 8 * Suc r)"
      using False upt_two [of r k] by (subst Suc.IH) simp_all
    finally show ?thesis .
  qed (simp add: Let_def add.commute)
qed simp

lemma load_store:
  "length (store_block s) = 16"
  "load_block rk (store_block s) = add_key rk 0 s"
  by (cases s, simp add: PUTU32_B)
    (cases s, simp add: load_block_def add_key_def PUTU32_B GETU32_pack4 numeral_2_eq_2)

lemma store_load:
  assumes "length b = 16"
  shows "store_block (GETU32 b 0, GETU32 b 4, GETU32 b 8, GETU32 b 12) = b"
proof -
  have "b = map (\<lambda>i. b ! i) [0..<16]" using assms by (metis map_nth)
  then show ?thesis
    by (simp add: PUTU32_B GETU32_pack4 upt_rec numeral_eq_Suc)
qed

text \<open>Encryption and decryption as a whole number of rounds.\<close>

lemma enc_loop_rounds: "even Nr \<Longrightarrow> 0 < Nr \<Longrightarrow> enc_loop (Nr div 2) rk 0 s = (enc_rounds rk Nr s, 4 * Nr)"
  using enc_loop_fold [of "Nr div 2" rk 0 s] by (auto simp: enc_rounds_def elim!: evenE)

lemma dec_loop_rounds: "even Nr \<Longrightarrow> 0 < Nr \<Longrightarrow> dec_loop (Nr div 2) rk 0 s = (dec_rounds rk Nr s, 4 * Nr)"
  using dec_loop_fold [of "Nr div 2" rk 0 s] by (auto simp: dec_rounds_def elim!: evenE)

lemma Encrypt_rounds:
  "even Nr \<Longrightarrow> 0 < Nr \<Longrightarrow> rijndaelEncrypt rk Nr pt =
    store_block (enc_last rk (4 * Nr) (enc_rounds rk Nr (load_block rk pt)))"
  by (simp add: rijndaelEncrypt_def enc_loop_rounds)

lemma Decrypt_rounds:
  "even Nr \<Longrightarrow> 0 < Nr \<Longrightarrow> rijndaelDecrypt rk Nr ct =
    store_block (dec_last rk (4 * Nr) (dec_rounds rk Nr (load_block rk ct)))"
  by (simp add: rijndaelDecrypt_def dec_loop_rounds)

text \<open>
  Decryption with a schedule that reverses the round keys and mixes the inner ones inverts
  encryption.
\<close>

lemma Decrypt_Encrypt:
  assumes Nr: "even Nr" "0 < Nr" and len: "length pt = 16"
    and first: "\<And>i. i < 4 \<Longrightarrow> rkd ! i = rk ! (4 * Nr + i)"
    and last: "\<And>i. i < 4 \<Longrightarrow> rkd ! (4 * Nr + i) = rk ! i"
    and inner: "\<And>r i. 1 \<le> r \<Longrightarrow> r < Nr \<Longrightarrow> i < 4 \<Longrightarrow> rkd ! (4 * r + i) = unmix (rk ! (4 * (Nr - r) + i))"
  shows "rijndaelDecrypt rkd Nr (rijndaelEncrypt rk Nr pt) = pt"
proof -
  let ?s = "load_block rk pt" and ?e = "sub_shift (enc_rounds rk Nr (load_block rk pt))"
  have "load_block rkd (rijndaelEncrypt rk Nr pt) = add_key rkd 0 (add_key rk (4 * Nr) ?e)"
    by (simp add: Encrypt_rounds [OF Nr] enc_last_sub_shift load_store)
  also have "\<dots> = ?e" using first by (intro add_key_twice) simp
  finally have "rijndaelDecrypt rkd Nr (rijndaelEncrypt rk Nr pt) =
      store_block (dec_last rkd (4 * Nr) (dec_rounds rkd Nr ?e))"
    by (simp add: Decrypt_rounds [OF Nr])
  also have "dec_rounds rkd Nr ?e = sub_shift ?s"
    using dec_rounds_enc_rounds [of Nr rkd rk Nr ?s, OF inner] Nr by (simp add: enc_rounds_def)
  also have "dec_last rkd (4 * Nr) (sub_shift ?s) = add_key rkd (4 * Nr) ?s" by (rule dec_last_sub_shift)
  also have "?s = add_key rk 0 (GETU32 pt 0, GETU32 pt 4, GETU32 pt 8, GETU32 pt 12)"
    by (simp add: load_block_def add_key_def numeral_2_eq_2)
  also have "add_key rkd (4 * Nr) \<dots> = (GETU32 pt 0, GETU32 pt 4, GETU32 pt 8, GETU32 pt 12)"
    using last by (intro add_key_twice) simp
  finally show ?thesis using store_load [OF len] by simp
qed

section \<open>The decryption key schedule\<close>

lemma quad_index: "c < 4 \<Longrightarrow> d < 4 \<Longrightarrow> 4 * r + c = 4 * a + d \<longleftrightarrow> r = a \<and> c = (d :: nat)"
  by presburger

lemma less_4_cases: "i < (4 :: nat) \<Longrightarrow> i = 0 \<or> i = 1 \<or> i = 2 \<or> i = 3"
  by auto

lemma swap_word_nth:
  "i < length rk \<Longrightarrow> j < length rk \<Longrightarrow>
   swap_word i j rk ! k = (if k = j then rk ! i else if k = i then rk ! j else rk ! k)"
  by (auto simp: swap_word_def nth_list_update)

lemma length_swap [simp]: "length (swap_word i j rk) = length rk" "length (swap_round i j rk) = length rk"
  by (simp_all add: swap_word_def swap_round_def)

lemma swap_round_nth:
  assumes "a \<noteq> b" "4 * a + 3 < length rk" "4 * b + 3 < length rk" "c < 4"
  shows "swap_round (4 * a) (4 * b) rk ! (4 * r + c) =
    rk ! (4 * (if r = a then b else if r = b then a else r) + c)"
proof -
  note q = quad_index [of c 0 r, simplified] quad_index [of c 1 r, simplified]
    quad_index [of c 2 r, simplified] quad_index [of c 3 r, simplified]
  show ?thesis
    unfolding swap_round_def using assms less_4_cases [OF assms(4)]
    by (auto simp: swap_word_nth q)
qed

lemma swap_loop_nth:
  "4 * b + 3 < length rk \<Longrightarrow> c < 4 \<Longrightarrow>
   swap_loop (4 * a) (4 * b) rk ! (4 * r + c) =
     rk ! (4 * (if a \<le> r \<and> r \<le> b then a + b - r else r) + c)"
proof (induction "b - a" arbitrary: a b rk r rule: less_induct)
  case less
  show ?case
  proof (cases "a < b")
    case True
    have eq: "swap_loop (4 * a) (4 * b) rk = swap_loop (4 * (a + 1)) (4 * (b - 1)) (swap_round (4 * a) (4 * b) rk)"
      using True by (subst swap_loop.simps) (simp add: algebra_simps)
    have "swap_loop (4 * a) (4 * b) rk ! (4 * r + c) =
        swap_round (4 * a) (4 * b) rk ! (4 * (if a + 1 \<le> r \<and> r \<le> b - 1 then a + 1 + (b - 1) - r else r) + c)"
      unfolding eq using True less.prems by (intro less.hyps) auto
    also have "\<dots> = rk ! (4 * (if a \<le> r \<and> r \<le> b then a + b - r else r) + c)"
      using True less.prems by (subst swap_round_nth) (auto intro!: arg_cong [of _ _ "\<lambda>i. rk ! (4 * i + c)"])
    finally show ?thesis .
  next
    case False
    then have "a \<le> r \<and> r \<le> b \<longrightarrow> a + b - r = r" by auto
    with False show ?thesis by (subst swap_loop.simps) auto
  qed
qed

lemma length_swap_loop [simp]: "length (swap_loop i j rk) = length rk"
  by (induction i j rk rule: swap_loop.induct) (subst swap_loop.simps, simp)

lemma length_inv_mix_rounds [simp]: "length (fold inv_mix_round rs rk) = length rk"
  by (induction rs arbitrary: rk) (auto simp: inv_mix_round_def)

lemma inv_mix_round_nth:
  assumes "4 * a + 3 < length rk" "c < 4"
  shows "inv_mix_round a rk ! (4 * r + c) =
    (if r = a then unmix (rk ! (4 * r + c)) else rk ! (4 * r + c))"
proof -
  note q = quad_index [of c 0 r, simplified] quad_index [of c 1 r, simplified]
    quad_index [of c 2 r, simplified] quad_index [of c 3 r, simplified]
  show ?thesis
    unfolding inv_mix_round_def using assms less_4_cases [OF assms(2)]
    by (auto simp: nth_list_update q inv_mix_unmix)
qed

lemma inv_mix_rounds_nth:
  assumes "4 * n \<le> length rk" "c < 4"
  shows "fold inv_mix_round [1..<n] rk ! (4 * r + c) =
    (if 1 \<le> r \<and> r < n then unmix (rk ! (4 * r + c)) else rk ! (4 * r + c))"
  using assms(1)
proof (induction n)
  case (Suc n)
  show ?case
  proof (cases "n = 0")
    case False
    then have "fold inv_mix_round [1..<Suc n] rk = inv_mix_round n (fold inv_mix_round [1..<n] rk)"
      by simp
    then show ?thesis
      using Suc False assms(2) by (auto simp: inv_mix_round_nth simp del: upt_Suc)
  qed auto
qed auto

text \<open>The relation of the two schedules that decryption needs.\<close>

lemma KeySetupDec_nth:
  assumes "rijndaelKeySetupEnc rk0 key kb = (Nr, rk)" "4 * Nr + 3 < length rk" "c < 4" "r \<le> Nr"
  shows "snd (rijndaelKeySetupDec rk0 key kb) ! (4 * r + c) =
    (if 1 \<le> r \<and> r < Nr then unmix (rk ! (4 * (Nr - r) + c)) else rk ! (4 * (Nr - r) + c))"
proof -
  have s: "swap_loop 0 (4 * Nr) rk ! (4 * r + c) = rk ! (4 * (Nr - r) + c)"
    using swap_loop_nth [of Nr rk c 0 r] assms by simp
  show ?thesis
    using assms inv_mix_rounds_nth [of Nr "swap_loop 0 (4 * Nr) rk" c r]
    by (simp add: rijndaelKeySetupDec_def s)
qed

lemma length_ks_steps [simp]: "length (ks128_step i rk) = length rk" "length (ks192_step i rk) = length rk"
  "length (ks256_step i rk) = length rk"
  by (simp_all add: ks128_step_def ks192_step_def ks256_step_def Let_def)

lemma length_fold_ks [simp]:
  "length (fold ks128_step is rk) = length rk" "length (fold ks192_step is rk) = length rk"
  "length (fold ks256_step is rk) = length rk"
  by (induction "is" arbitrary: rk) simp_all

lemma length_KeySetupEnc: "length (snd (rijndaelKeySetupEnc rk0 key kb)) = length rk0"
  by (simp add: rijndaelKeySetupEnc_def Let_def)

definition rounds_of :: "nat \<Rightarrow> nat" where
  "rounds_of kb = (if kb = 128 then 10 else if kb = 192 then 12 else if kb = 256 then 14 else 0)"

lemma KeySetupEnc_rounds: "fst (rijndaelKeySetupEnc rk0 key kb) = rounds_of kb"
  by (simp add: rijndaelKeySetupEnc_def Let_def rounds_of_def)

section \<open>Reference cipher\<close>

text \<open>
  AES on the words of a block: every round substitutes bytes and shifts rows, mixes the
  columns over the field of 256 elements and adds the round key; the last one does not mix.
\<close>

fun mix_columns :: "block \<Rightarrow> block" where
  "mix_columns (a, b, c, d) = (mix a, mix b, mix c, mix d)"

definition aes_round :: "u32 list \<Rightarrow> nat \<Rightarrow> block \<Rightarrow> block" where
  "aes_round rk r s = add_key rk (4 * r) (mix_columns (sub_shift s))"

definition aes_encrypt :: "u32 list \<Rightarrow> nat \<Rightarrow> block \<Rightarrow> block" where
  "aes_encrypt rk Nr s =
     add_key rk (4 * Nr) (sub_shift (fold (aes_round rk) [1..<Nr] (add_key rk 0 s)))"

lemma enc_round_aes: "enc_round rk (4 * r) = aes_round rk r"
proof
  fix s show "enc_round rk (4 * r) s = aes_round rk r s"
    by (cases s) (simp add: aes_round_def add_key_def Te_col_mix)
qed

lemma load_block_add_key:
  "load_block rk b = add_key rk 0 (GETU32 b 0, GETU32 b 4, GETU32 b 8, GETU32 b 12)"
  by (simp add: load_block_def add_key_def numeral_2_eq_2)

section \<open>Properties\<close>

text \<open>Property C10. Decrypting with the decryption schedule gives back every block that was
  encrypted with the encryption schedule of the same key, for the three key sizes.\<close>

theorem rijndael_roundtrip:
  assumes "kb = 128 \<or> kb = 192 \<or> kb = 256" "length rk = 60" "length pt = 16"
  shows "rijndaelDecrypt (snd (rijndaelKeySetupDec rk key kb)) (rounds_of kb)
      (rijndaelEncrypt (snd (rijndaelKeySetupEnc rk key kb)) (rounds_of kb) pt) = pt"
proof -
  let ?N = "rounds_of kb"
  obtain rke where e: "rijndaelKeySetupEnc rk key kb = (?N, rke)" and l: "length rke = 60"
    using KeySetupEnc_rounds [of rk key kb] length_KeySetupEnc [of rk key kb] assms(2)
    by (cases "rijndaelKeySetupEnc rk key kb") simp
  have N: "even ?N" "0 < ?N" "4 * ?N + 3 < length rke"
    using assms(1) l by (auto simp: rounds_of_def)
  note k = KeySetupDec_nth [OF e N(3)]
  show ?thesis
    unfolding e snd_conv
  proof (rule Decrypt_Encrypt [OF N(1,2) assms(3)])
    fix i :: nat assume "i < 4"
    then show "snd (rijndaelKeySetupDec rk key kb) ! i = rke ! (4 * ?N + i)"
      "snd (rijndaelKeySetupDec rk key kb) ! (4 * ?N + i) = rke ! i"
      using k [of i 0] k [of i ?N] by simp_all
  next
    fix r i :: nat assume "1 \<le> r" "r < ?N" "i < 4"
    then show "snd (rijndaelKeySetupDec rk key kb) ! (4 * r + i) = unmix (rke ! (4 * (?N - r) + i))"
      using k [of i r] by simp
  qed
qed

theorem rijndael_roundtrip_witness:
  "rijndaelDecrypt (snd (rijndaelKeySetupDec (replicate 60 0) (replicate 16 7) 128)) 10
      (rijndaelEncrypt (snd (rijndaelKeySetupEnc (replicate 60 0) (replicate 16 7) 128)) 10 (replicate 16 5))
    = replicate 16 5"
  using rijndael_roundtrip [of 128 "replicate 60 0" "replicate 16 5" "replicate 16 7"]
  by (simp add: rounds_of_def)

lemma round_numbers:
  "[Suc 0..<10] = [1, 2, 3, 4, 5, 6, 7, 8, 9]"
  "[Suc 0..<12] = [1, 2, 3, 4, 5, 6, 7, 8, 9, 10, 11]"
  "[Suc 0..<14] = [1, 2, 3, 4, 5, 6, 7, 8, 9, 10, 11, 12, 13]"
  by code_simp+

text \<open>Property C12. The table-driven encryption is AES: it computes the reference rounds with
  byte substitution, row shift, column mixing and key addition.\<close>

theorem rijndael_is_aes:
  assumes "Nr = 10 \<or> Nr = 12 \<or> Nr = 14"
  shows "rijndaelEncrypt rk Nr pt =
    store_block (aes_encrypt rk Nr (GETU32 pt 0, GETU32 pt 4, GETU32 pt 8, GETU32 pt 12))"
proof -
  have "even Nr" "0 < Nr" using assms by auto
  then show ?thesis
    by (simp add: Encrypt_rounds enc_last_sub_shift enc_rounds_def enc_round_aes aes_encrypt_def
      load_block_add_key)
qed

theorem rijndael_is_aes_witness:
  "rijndaelEncrypt (replicate 44 0) 10 (replicate 16 5) =
    store_block (aes_encrypt (replicate 44 0) 10 (0x05050505, 0x05050505, 0x05050505, 0x05050505))"
proof -
  have "GETU32 (replicate 16 5) i = 0x05050505" if "i < 13" for i
    using that by (simp add: GETU32_def)
  then show ?thesis using rijndael_is_aes [of 10 "replicate 44 0" "replicate 16 5"] by simp
qed

text \<open>The \<open>FULL_UNROLL\<close> bodies compute what the loops compute, for the numbers of
  rounds the key schedules return.\<close>

theorem rijndael_unrolled:
  assumes "Nr = 10 \<or> Nr = 12 \<or> Nr = 14"
  shows "rijndaelEncrypt_unrolled rk Nr pt = rijndaelEncrypt rk Nr pt \<and>
    rijndaelDecrypt_unrolled rk Nr pt = rijndaelDecrypt rk Nr pt"
proof -
  have "enc_unrolled rk Nr s = enc_rounds rk Nr s" "dec_unrolled rk Nr s = dec_rounds rk Nr s" for s
    using assms by (auto simp: enc_unrolled_def enc_rounds_def dec_unrolled_def dec_rounds_def
      round_numbers)
  moreover have "even Nr" "0 < Nr" using assms by auto
  ultimately show ?thesis
    by (simp add: rijndaelEncrypt_unrolled_def rijndaelDecrypt_unrolled_def Encrypt_rounds
      Decrypt_rounds mult.commute)
qed

theorem rijndael_unrolled_witness:
  "rijndaelEncrypt_unrolled (replicate 60 0) 10 (replicate 16 5) =
    rijndaelEncrypt (replicate 60 0) 10 (replicate 16 5)"
  using rijndael_unrolled [of 10 "replicate 60 0" "replicate 16 5"] by simp

declare unat_u8_less [simp del]

end
