(* ===== verification/Aesrand.thy ===== *)
theory Aesrand
  imports Rijndael_Correct
begin

text \<open>
  The random number generator of \<open>src/xm_aesrand.c\<close>, AES in output feedback mode, and the
  validation bytes of \<open>src/xm_validate.c\<close>, the encryption of a flow's two addresses.

  Memory from the pool and on the stack is not zeroed: the arrays the key schedule is written
  into, and key bytes that could not be read, are arguments.
\<close>

unbundle bit_operations_syntax

section \<open>Generator\<close>

definition AES_ROUNDS :: nat where "AES_ROUNDS = 10"
definition AES_BLOCK_WORDS :: nat where "AES_BLOCK_WORDS = 4"
definition AES_KEY_BYTES :: nat where "AES_KEY_BYTES = 16"
definition AES_KEY_BITS :: nat where "AES_KEY_BITS = AES_KEY_BYTES * 8"
definition OUTPUT_BYTES :: nat where "OUTPUT_BYTES = 16"

text \<open>The input words are kept as their bytes in memory.\<close>

record xm_aesrand =
  input :: "u8 list"
  sched :: "u32 list"
  aes_output :: "u8 list"

definition aesrand_init :: "u32 list \<Rightarrow> u8 list \<Rightarrow> xm_aesrand option" where
  "aesrand_init mem key =
     (let (r, rk) = rijndaelKeySetupEnc mem key AES_KEY_BITS
      in if r \<noteq> AES_ROUNDS then None
         else Some \<lparr>input = replicate (AES_BLOCK_WORDS * 4) 0, sched = rk,
                    aes_output = replicate OUTPUT_BYTES 0\<rparr>)"

definition xm_aesrand_create_from_seed :: "u32 list \<Rightarrow> u64 \<Rightarrow> xm_aesrand option" where
  "xm_aesrand_create_from_seed mem seed =
     (let key = fold (\<lambda>i key. key[i := ucast (drop_bit (8 * i) seed AND 0xFF)])
                  [0..<8] (replicate AES_KEY_BYTES 0)
      in aesrand_init mem key)"

text \<open>The random bytes are the argument; \<open>None\<close> is a failed read.\<close>

definition xm_aesrand_create_from_random :: "u32 list \<Rightarrow> u8 list option \<Rightarrow> xm_aesrand option" where
  "xm_aesrand_create_from_random mem random =
     (case random of None \<Rightarrow> None | Some key \<Rightarrow> aesrand_init mem key)"

definition xm_aesrand_getword :: "xm_aesrand \<Rightarrow> u64 \<times> xm_aesrand" where
  "xm_aesrand_getword aes =
     (let inp = take (AES_BLOCK_WORDS * 4) (aes_output aes);
          out = rijndaelEncrypt (sched aes) AES_ROUNDS inp
      in (le_word (take 8 out), aes\<lparr>input := inp, aes_output := out\<rparr>))"

section \<open>Validation bytes\<close>

text \<open>The static variables of \<open>xm_validate.c\<close>.\<close>

record validate_state =
  aes_input :: "u32 list"
  aes_sched :: "u32 list"

definition VALIDATE_BYTES :: nat where "VALIDATE_BYTES = 16"

text \<open>\<open>key\<close> is what the key buffer holds after the attempt to fill it with random bytes; a
  failure is only logged.\<close>

definition xm_validate_init :: "u8 list \<Rightarrow> validate_state \<Rightarrow> validate_state" where
  "xm_validate_init key st =
     st\<lparr>aes_input := fold (\<lambda>i a. a[i := 0]) [0..<AES_BLOCK_WORDS] (aes_input st),
        aes_sched := snd (rijndaelKeySetupEnc (aes_sched st) key (AES_KEY_BYTES * 8))\<rparr>"

definition xm_validate_gen :: "u32 \<Rightarrow> u32 \<Rightarrow> validate_state \<Rightarrow> u8 list \<times> validate_state" where
  "xm_validate_gen src dst st =
     (let inp = (aes_input st)[0 := src, 1 := dst]
      in (rijndaelEncrypt (aes_sched st) AES_ROUNDS (concat (map (le_bytes 4) inp)),
          st\<lparr>aes_input := inp\<rparr>))"

section \<open>The key schedule depends on the key only\<close>

definition agree :: "nat \<Rightarrow> u32 list \<Rightarrow> u32 list \<Rightarrow> bool" where
  "agree n xs ys \<longleftrightarrow> length xs = length ys \<and> n \<le> length xs \<and> (\<forall>i < n. xs ! i = ys ! i)"

definition put :: "nat \<Rightarrow> (u32 list \<Rightarrow> u32) \<Rightarrow> u32 list \<Rightarrow> u32 list" where
  "put n f xs = xs[n := f xs]"

lemma agree_put:
  assumes "agree n xs ys" "n < length xs" "f xs = f ys"
  shows "agree (Suc n) (put n f xs) (put n f ys)"
  using assms by (auto simp: agree_def put_def nth_list_update)

lemma agree_nth: "agree n xs ys \<Longrightarrow> i < n \<Longrightarrow> xs ! i = ys ! i"
  by (simp add: agree_def)

lemma length_put [simp]: "length (put n f xs) = length xs"
  by (simp add: put_def)

lemma ks128_step_put:
  "ks128_step i =
     put (4 * i + 7) (\<lambda>rk. rk ! (4 * i + 3) XOR rk ! (4 * i + 6)) \<circ>
     put (4 * i + 6) (\<lambda>rk. rk ! (4 * i + 2) XOR rk ! (4 * i + 5)) \<circ>
     put (4 * i + 5) (\<lambda>rk. rk ! (4 * i + 1) XOR rk ! (4 * i + 4)) \<circ>
     put (4 * i + 4) (\<lambda>rk. rk ! (4 * i) XOR sub_rot (rk ! (4 * i + 3)) XOR rcon ! i)"
  by (rule ext) (simp add: ks128_step_def put_def Let_def)

lemma agree_ks128_step:
  assumes a: "agree (4 * i + 4) xs ys" and l: "4 * i + 8 \<le> length xs"
  shows "agree (4 * i + 8) (ks128_step i xs) (ks128_step i ys)"
proof -
  have 4: "agree (4 * i + 5) (put (4 * i + 4) f xs) (put (4 * i + 4) f ys)" if "f xs = f ys" for f
    using agree_put [OF a, of f] that l by (simp add: add.commute)
  have 5: "agree (4 * i + 6) (put (4 * i + 5) f us) (put (4 * i + 5) f vs)"
    if "agree (4 * i + 5) us vs" "4 * i + 8 \<le> length us" "f us = f vs" for f us vs
    using agree_put [OF that(1), of f] that by (simp add: add.commute)
  have 6: "agree (4 * i + 7) (put (4 * i + 6) f us) (put (4 * i + 6) f vs)"
    if "agree (4 * i + 6) us vs" "4 * i + 8 \<le> length us" "f us = f vs" for f us vs
    using agree_put [OF that(1), of f] that by (simp add: add.commute)
  have 7: "agree (4 * i + 8) (put (4 * i + 7) f us) (put (4 * i + 7) f vs)"
    if "agree (4 * i + 7) us vs" "4 * i + 8 \<le> length us" "f us = f vs" for f us vs
    using agree_put [OF that(1), of f] that by (simp add: add.commute)
  show ?thesis
    unfolding ks128_step_put comp_def
    by (intro 7 6 5 4 arg_cong2 [where f = "(XOR)"] arg_cong [where f = sub_rot] refl)
       (use l in \<open>auto intro!: agree_nth [OF a] agree_nth [OF 4] agree_nth [OF 5] agree_nth [OF 6] 4 5 6
         arg_cong2 [where f = "(XOR)"] arg_cong [where f = sub_rot]\<close>)
qed

lemma agree_ks128_fold:
  "agree 4 xs ys \<Longrightarrow> 4 * n + 4 \<le> length xs \<Longrightarrow>
   agree (4 * n + 4) (fold ks128_step [0..<n] xs) (fold ks128_step [0..<n] ys)"
proof (induction n)
  case (Suc n)
  then have "agree (4 * n + 4) (fold ks128_step [0..<n] xs) (fold ks128_step [0..<n] ys)" by simp
  from agree_ks128_step [OF this] Suc.prems show ?case by (simp add: algebra_simps)
qed simp

lemma KeySetupEnc_128_indep:
  assumes "length mem = 44" "length mem' = 44"
  shows "rijndaelKeySetupEnc mem key 128 = rijndaelKeySetupEnc mem' key 128"
proof -
  let ?k = "\<lambda>m. m[0 := GETU32 key 0, 1 := GETU32 key 4, 2 := GETU32 key 8, 3 := GETU32 key 12]"
  have "agree 4 (?k mem) (?k mem')"
    using assms by (auto simp: agree_def nth_list_update less_Suc_eq numeral_eq_Suc)
  from agree_ks128_fold [OF this, of 10] assms
  have a: "agree 44 (fold ks128_step [0..<10] (?k mem)) (fold ks128_step [0..<10] (?k mem'))" by simp
  then have "fold ks128_step [0..<10] (?k mem) = fold ks128_step [0..<10] (?k mem')"
    by (intro nth_equalityI) (auto simp: agree_def assms)
  then show ?thesis by (simp add: rijndaelKeySetupEnc_def Let_def)
qed

section \<open>Encryption is injective\<close>

lemma Encrypt_128_inj:
  assumes "length pt = 16" "length pt' = 16" "length mem = 44"
    "rijndaelEncrypt (snd (rijndaelKeySetupEnc mem key 128)) 10 pt =
     rijndaelEncrypt (snd (rijndaelKeySetupEnc mem key 128)) 10 pt'"
  shows "pt = pt'"
proof -
  obtain rke where e: "rijndaelKeySetupEnc mem key 128 = (10, rke)" and l: "length rke = 44"
    using KeySetupEnc_rounds [of mem key 128] length_KeySetupEnc [of mem key 128] assms(3)
    by (cases "rijndaelKeySetupEnc mem key 128") (simp add: rounds_of_def)
  note k = KeySetupDec_nth [OF e, unfolded l, simplified]
  have "rijndaelDecrypt (snd (rijndaelKeySetupDec mem key 128)) 10 (rijndaelEncrypt rke 10 b) = b"
    if "length b = 16" for b
  proof (rule Decrypt_Encrypt)
    fix i :: nat assume "i < 4"
    then show "snd (rijndaelKeySetupDec mem key 128) ! i = rke ! (4 * 10 + i)"
      "snd (rijndaelKeySetupDec mem key 128) ! (4 * 10 + i) = rke ! i"
      using k [of i 0] k [of i 10] by simp_all
  next
    fix r i :: nat assume "1 \<le> r" "r < 10" "i < 4"
    then show "snd (rijndaelKeySetupDec mem key 128) ! (4 * r + i) = unmix (rke ! (4 * (10 - r) + i))"
      using k [of i r] by simp
  qed (use that in simp_all)
  moreover have "rijndaelEncrypt rke 10 pt = rijndaelEncrypt rke 10 pt'" using assms(4) by (simp add: e)
  ultimately show ?thesis using assms(1,2) by metis
qed

lemma length_Encrypt: "length (rijndaelEncrypt rk Nr pt) = 16"
  by (simp add: rijndaelEncrypt_def load_store split: prod.split)

lemma le_bytes_inj: "le_bytes 4 (x :: u32) = le_bytes 4 y \<Longrightarrow> x = y"
  by (metis le_word_le_bytes [where 'a = 32 and n = 4, simplified])

section \<open>Properties\<close>

text \<open>Property C11. Two different pairs of addresses never get the same validation bytes, and
  the bytes of a pair do not depend on the pairs asked for before.\<close>

theorem validate_gen_injective:
  assumes "length (aes_input st0) = 4" "length (aes_sched st0) = 44"
  shows "(fst (xm_validate_gen src dst (xm_validate_init key st0)) =
      fst (xm_validate_gen src' dst' (xm_validate_init key st0)) \<longleftrightarrow> src = src' \<and> dst = dst') \<and>
    fst (xm_validate_gen src dst (snd (xm_validate_gen src' dst' (xm_validate_init key st0)))) =
      fst (xm_validate_gen src dst (xm_validate_init key st0))"
proof -
  obtain a b c d where st: "aes_input st0 = [a, b, c, d]"
    using assms(1) by (auto simp: numeral_eq_Suc length_Suc_conv)
  have z: "aes_input (xm_validate_init key st0) = [0, 0, 0, 0]"
    by (simp add: xm_validate_init_def AES_BLOCK_WORDS_def st upt_rec [of _ 4])
  have g: "fst (xm_validate_gen s t (xm_validate_init key st0)) =
      rijndaelEncrypt (snd (rijndaelKeySetupEnc (aes_sched st0) key 128)) 10
        (le_bytes 4 s @ le_bytes 4 t @ le_bytes 4 (0 :: u32) @ le_bytes 4 (0 :: u32))" for s t
    by (simp add: xm_validate_gen_def z) (simp add: xm_validate_init_def AES_KEY_BYTES_def AES_ROUNDS_def)
  have "src = src' \<and> dst = dst'"
    if "fst (xm_validate_gen src dst (xm_validate_init key st0)) =
      fst (xm_validate_gen src' dst' (xm_validate_init key st0))"
    using Encrypt_128_inj [OF _ _ assms(2) that [unfolded g]] by (auto dest: le_bytes_inj)
  then show ?thesis by (auto simp: xm_validate_gen_def Let_def z)
qed

theorem validate_gen_injective_witness:
  "fst (xm_validate_gen 1 2 (xm_validate_init (replicate 16 7) \<lparr>aes_input = replicate 4 0, aes_sched = replicate 44 0\<rparr>))
   \<noteq> fst (xm_validate_gen 1 3 (xm_validate_init (replicate 16 7) \<lparr>aes_input = replicate 4 0, aes_sched = replicate 44 0\<rparr>))"
  using validate_gen_injective [of "\<lparr>aes_input = replicate 4 0, aes_sched = replicate 44 0\<rparr>" 1 2 "replicate 16 7" 1 3]
  by simp

text \<open>A generator is determined by its seed, whatever was in the memory it is
  built in: it exists, and after \<open>n\<close> words its output is the \<open>n\<close>-fold encryption of the zero
  block under the seed's key, of which every word is the first half.\<close>

theorem aesrand_stream:
  assumes "length mem = 44"
  shows "\<exists>aes. xm_aesrand_create_from_seed mem seed = Some aes \<and>
    (\<forall>mem'. length mem' = 44 \<longrightarrow> xm_aesrand_create_from_seed mem' seed = Some aes) \<and>
    aes_output (((snd \<circ> xm_aesrand_getword) ^^ n) aes) = (rijndaelEncrypt (sched aes) 10 ^^ n) (replicate 16 0) \<and>
    fst (xm_aesrand_getword (((snd \<circ> xm_aesrand_getword) ^^ n) aes)) =
      le_word (take 8 ((rijndaelEncrypt (sched aes) 10 ^^ Suc n) (replicate 16 0)))"
proof -
  define key where "key = fold (\<lambda>i key. key[i := ucast (drop_bit (8 * i) seed AND 0xFF) :: u8])
    [0..<8] (replicate AES_KEY_BYTES 0)"
  define aes where "aes = \<lparr>input = replicate 16 0, sched = snd (rijndaelKeySetupEnc mem key 128),
    aes_output = replicate 16 0\<rparr>"
  have create: "xm_aesrand_create_from_seed mem' seed = Some aes" if "length mem' = 44" for mem'
    using KeySetupEnc_rounds [of mem' key 128] KeySetupEnc_128_indep [OF that assms, of key]
    by (simp add: xm_aesrand_create_from_seed_def aesrand_init_def Let_def case_prod_beta rounds_of_def
      AES_KEY_BITS_def AES_ROUNDS_def AES_BLOCK_WORDS_def OUTPUT_BYTES_def aes_def AES_KEY_BYTES_def
      flip: key_def [unfolded AES_KEY_BYTES_def])
  have len: "length ((rijndaelEncrypt rk 10 ^^ n) (replicate 16 0)) = 16" for rk n
    by (cases n) (simp_all add: length_Encrypt)
  have step: "sched (((snd \<circ> xm_aesrand_getword) ^^ n) aes) = sched aes \<and>
      aes_output (((snd \<circ> xm_aesrand_getword) ^^ n) aes) = (rijndaelEncrypt (sched aes) 10 ^^ n) (replicate 16 0)" for n
    by (induction n) (simp_all add: aes_def xm_aesrand_getword_def Let_def AES_BLOCK_WORDS_def
      AES_ROUNDS_def len)
  then show ?thesis
    using create assms step [of n] by (intro exI [of _ aes])
      (simp add: xm_aesrand_getword_def Let_def AES_BLOCK_WORDS_def AES_ROUNDS_def len)
qed

theorem aesrand_stream_witness:
  "\<exists>aes. xm_aesrand_create_from_seed (replicate 44 0) 42 = Some aes \<and>
    aes_output (snd (xm_aesrand_getword aes)) = rijndaelEncrypt (sched aes) 10 (replicate 16 0)"
  using aesrand_stream [of "replicate 44 0" 42 1] by auto

end
