(* ===== verification/Orders.thy ===== *)
theory Orders
  imports Prelude
begin

text \<open>
  The number theory behind the cyclic groups, over natural numbers: an element whose powers
  to \<open>n div q\<close> differ from 1 for all prime factors \<open>q\<close> of \<open>n\<close> has order \<open>n\<close>, its powers to
  exponents coprime to \<open>n\<close> have the same order, and an element of order \<open>p - 1\<close> generates
  all of \<open>1, \<dots>, p - 1\<close>.  The checks are carried out for the primes of the sources.
\<close>

section \<open>Orders of elements\<close>

definition irred :: "nat \<Rightarrow> bool" where
  "irred q \<longleftrightarrow> 1 < q \<and> (\<forall>d. d dvd q \<longrightarrow> d = 1 \<or> d = q)"

lemma irred_code:
  assumes "1 < q" "q < k * k" "\<forall>d \<in> set [2..<k]. \<not> d dvd q"
  shows "irred q"
proof -
  have "d = 1 \<or> d = q" if "d dvd q" for d
  proof (rule ccontr)
    assume nt: "\<not> ?thesis"
    obtain e where e: "q = d * e" using \<open>d dvd q\<close> by (auto elim: dvdE)
    have "d \<noteq> 0" "e \<noteq> 0" using e assms(1) by (metis mult_0 mult_0_right not_less_zero)+
    moreover have "d \<noteq> 1" "e \<noteq> 1" using nt e by auto
    ultimately have "2 \<le> d" "2 \<le> e" by auto
    moreover have "d < k \<or> e < k"
      using assms(2) e mult_le_mono [of k d k e] by (meson not_le)
    ultimately show False
      using assms(3) e by (metis atLeastLessThan_iff dvd_triv_left dvd_triv_right set_upt)
  qed
  then show ?thesis using assms(1) by (simp add: irred_def)
qed

lemma irred_coprime: "irred q \<Longrightarrow> \<not> q dvd e \<Longrightarrow> coprime e q"
  unfolding irred_def by (metis coprimeI dvd_1_iff_1 One_nat_def)

lemma irred_factor:
  "e dvd prod_list qs \<Longrightarrow> \<forall>q \<in> set qs. irred q \<Longrightarrow> e \<noteq> 1 \<Longrightarrow> \<exists>q \<in> set qs. q dvd (e :: nat)"
proof (induction qs)
  case (Cons q qs)
  show ?case
  proof (cases "q dvd e")
    case False
    then have "coprime e q" using Cons.prems(2) by (intro irred_coprime) auto
    then have "e dvd prod_list qs" using Cons.prems(1) by (simp add: coprime_dvd_mult_right_iff)
    then show ?thesis using Cons by auto
  qed simp
qed simp

definition has_order :: "nat \<Rightarrow> nat \<Rightarrow> nat \<Rightarrow> bool" where
  "has_order a p n \<longleftrightarrow> (\<forall>k. a ^ k mod p = 1 mod p \<longleftrightarrow> n dvd k)"

lemma mod_pow_eq: "(a mod p) ^ k mod p = a ^ k mod (p :: nat)"
  by (rule power_mod)

lemma pow_one_mult: "a ^ n mod p = 1 mod p \<Longrightarrow> a ^ (n * k) mod p = 1 mod (p :: nat)"
proof -
  assume a: "a ^ n mod p = 1 mod p"
  have "a ^ (n * k) mod p = (a ^ n mod p) ^ k mod p" by (simp add: power_mult power_mod)
  also have "\<dots> = 1 mod p" by (simp only: a power_mod power_one)
  finally show ?thesis .
qed

lemma pow_one_gcd:
  assumes "a ^ m mod p = 1 mod p" "a ^ n mod p = 1 mod (p :: nat)"
  shows "a ^ gcd m n mod p = 1 mod p"
  using assms
proof (induction m n rule: gcd_nat_induct)
  case (step m n)
  have "a ^ m mod p = (a ^ (n * (m div n)) mod p) * (a ^ (m mod n)) mod p"
    by (metis div_mult_mod_eq mod_mult_left_eq mult.commute power_add)
  also have "\<dots> = a ^ (m mod n) mod p"
    by (metis pow_one_mult [OF step.prems(2)] mod_mult_left_eq mult_1)
  finally have "a ^ (m mod n) mod p = 1 mod p" using step.prems(1) by simp
  then have "a ^ gcd n (m mod n) mod p = 1 mod p" by (rule step.IH [OF step.prems(2)])
  then show ?case by (subst gcd_red_nat)
qed simp

lemma has_orderI:
  assumes "a ^ prod_list qs mod p = 1 mod p" "\<forall>q \<in> set qs. irred q"
    "\<forall>q \<in> set qs. a ^ (prod_list qs div q) mod p \<noteq> 1 mod p"
  shows "has_order a p (prod_list qs)"
  unfolding has_order_def
proof (intro allI iffI)
  fix k assume k: "a ^ k mod p = 1 mod p"
  let ?n = "prod_list qs" and ?d = "gcd k (prod_list qs)"
  have pos: "?n \<noteq> 0" using assms(2) by (auto simp: prod_list_zero_iff irred_def)
  have d: "a ^ ?d mod p = 1 mod p" by (rule pow_one_gcd [OF k assms(1)])
  obtain e where e: "?n = ?d * e" using gcd_dvd2 by (metis dvdE)
  show "?n dvd k"
  proof (cases "e = 1")
    case False
    then obtain q where q: "q \<in> set qs" "q dvd e"
      using irred_factor [of e qs] e assms(2) by (metis dvd_triv_right)
    then obtain f where "e = q * f" by (auto elim: dvdE)
    moreover have "q \<noteq> 0" using q(1) assms(2) by (auto simp: irred_def)
    ultimately have "?n div q = ?d * f" using e by (metis mult.left_commute nonzero_mult_div_cancel_left)
    then have "a ^ (?n div q) mod p = 1 mod p" using pow_one_mult [OF d] by simp
    then show ?thesis using assms(3) q(1) by blast
  qed (use e in \<open>metis gcd_dvd1 mult.right_neutral\<close>)
next
  fix k assume "prod_list qs dvd k"
  then show "a ^ k mod p = 1 mod p" using pow_one_mult [OF assms(1)] by (auto elim!: dvdE)
qed

lemma has_order_power:
  assumes "has_order a p n" "coprime c n"
  shows "has_order (a ^ c mod p) p n"
proof -
  have "(a ^ c mod p) ^ k mod p = a ^ (c * k) mod p" for k by (simp add: power_mod power_mult)
  moreover have "n dvd c * k \<longleftrightarrow> n dvd k" for k
    using assms(2) by (simp add: coprime_dvd_mult_right_iff coprime_commute)
  ultimately show ?thesis using assms(1) by (simp add: has_order_def)
qed

text \<open>An element of order \<open>p - 1\<close> generates: its powers are all of \<open>1, \<dots>, p - 1\<close>.\<close>

lemma generates:
  assumes "has_order a p (p - 1)" "2 < p"
  shows "bij_betw (\<lambda>k. a ^ k mod p) {..<p - 1} {1..<p}"
proof -
  have one: "a ^ (p - 1) mod p = 1" using assms by (simp add: has_order_def)
  have nz: "a ^ k mod p \<noteq> 0" for k
  proof
    assume "a ^ k mod p = 0"
    then have "a ^ (k + (p - 1) * k - k) * a ^ k mod p = 0" by (simp add: mod_mult_right_eq [symmetric])
    then have "a ^ ((p - 1) * k) * a ^ k mod p = 0" by simp
    moreover have "a ^ ((p - 1) * k) mod p = 1"
      using pow_one_mult [of a "p - 1" p k] one assms(2) by simp
    moreover have "a ^ ((p - 1) * k) mod p = 0" if "0 < k"
    proof -
      have "(p - 1) * k = k + (p - 2) * k" using assms(2) by (simp add: algebra_simps flip: mult_Suc)
      then show ?thesis using \<open>a ^ k mod p = 0\<close>
        by (metis mod_mult_left_eq mod_0 mult_zero_left power_add)
    qed
    ultimately show False using \<open>a ^ k mod p = 0\<close> assms(2) by (cases "k = 0") auto
  qed
  have inj: "inj_on (\<lambda>k. a ^ k mod p) {..<p - 1}"
  proof (rule linorder_inj_onI)
    fix i j assume ij: "i < j" "i \<in> {..<p - 1}" "j \<in> {..<p - 1}"
    show "a ^ i mod p \<noteq> a ^ j mod p"
    proof
      assume eq: "a ^ i mod p = a ^ j mod p"
      have "a ^ (p - 1 - i) * a ^ i mod p = a ^ (p - 1 - i) * a ^ j mod p"
        using eq by (metis mod_mult_right_eq)
      then have "a ^ (p - 1) mod p = a ^ (p - 1 + (j - i)) mod p"
        using ij by (simp add: flip: power_add)
      moreover have "a ^ (p - 1 + (j - i)) mod p = a ^ (j - i) mod p"
        using one by (metis mod_mult_left_eq mult_1 power_add)
      ultimately have "a ^ (j - i) mod p = 1 mod p" using one assms(2) by simp
      then have "(p - 1) dvd (j - i)" using assms(1) by (simp add: has_order_def)
      then show False using ij dvd_imp_le [of "p - 1" "j - i"] by auto
    qed
  qed auto
  have "(\<lambda>k. a ^ k mod p) ` {..<p - 1} \<subseteq> {1..<p}"
    using nz assms(2) by (auto simp: Suc_le_eq)
  moreover have "card ((\<lambda>k. a ^ k mod p) ` {..<p - 1}) = card {1..<p}"
    using inj by (simp add: card_image)
  ultimately have "(\<lambda>k. a ^ k mod p) ` {..<p - 1} = {1..<p}"
    by (intro card_subset_eq) auto
  with inj show ?thesis by (simp add: bij_betw_def)
qed

section \<open>Executable checks\<close>

fun modpow :: "nat \<Rightarrow> nat \<Rightarrow> nat \<Rightarrow> nat" where
  "modpow b e m =
     (if e = 0 then 1 mod m
      else if odd e then b * modpow (b * b mod m) (e div 2) m mod m
      else modpow (b * b mod m) (e div 2) m)"

declare modpow.simps [simp del]

lemma modpow_power: "modpow b e m = b ^ e mod m"
proof (induction b e m rule: modpow.induct)
  case (1 b e m)
  have sq: "(b * b mod m) ^ (e div 2) mod m = b ^ (2 * (e div 2)) mod m"
    by (simp add: power_mod power_mult power2_eq_square)
  show ?case
  proof (cases "odd e")
    case True
    then have "e = Suc (2 * (e div 2))" by presburger
    then have "b ^ e mod m = b * b ^ (2 * (e div 2)) mod m" by (metis power_Suc)
    then show ?thesis using 1 True sq by (subst modpow.simps) (auto simp: mod_mult_right_eq)
  next
    case False
    then show ?thesis using 1 sq by (subst modpow.simps) auto
  qed
qed

function no_divisor :: "nat \<Rightarrow> nat \<Rightarrow> nat \<Rightarrow> bool" where
  "no_divisor q d k = (if k \<le> d then True else q mod d \<noteq> 0 \<and> no_divisor q (d + 1) k)"
  by pat_completeness auto
termination by (relation "measure (\<lambda>(q, d, k). k - d)") auto

declare no_divisor.simps [simp del]

lemma no_divisor_iff: "no_divisor q d k \<longleftrightarrow> (\<forall>e \<in> set [d..<k]. \<not> e dvd q)"
proof (induction q d k rule: no_divisor.induct)
  case (1 q d k)
  have "set [d..<k] = insert d (set [d + 1..<k])" if "\<not> k \<le> d" using that by auto
  with 1 show ?case by (subst no_divisor.simps) (auto simp: dvd_eq_mod_eq_0)
qed

lemma irred_no_divisor: "1 < q \<Longrightarrow> q < k * k \<Longrightarrow> no_divisor q 2 k \<Longrightarrow> irred q"
  by (rule irred_code) (auto simp: no_divisor_iff)

lemma irred_factors:
  "irred 2" "irred 3" "irred 5" "irred 19" "irred 23" "irred 103" "irred 131" "irred 3541"
  "irred 87211" "irred 364289"
proof -
  show "irred 2" "irred 3" by (rule irred_no_divisor [of _ 2]; simp add: no_divisor.simps)+
  show "irred 5" "irred 19" "irred 23" by (rule irred_no_divisor [of _ 5]; simp add: no_divisor.simps)+
  show "irred 103" "irred 131" by (rule irred_no_divisor [of _ 12]; simp add: no_divisor.simps)+
  show "irred 3541" by (rule irred_no_divisor [of _ 60]; simp add: no_divisor.simps)
  show "irred 87211" by (rule irred_no_divisor [of _ 296]; simp add: no_divisor.simps)
  show "irred 364289" by (rule irred_no_divisor [of _ 604]; simp add: no_divisor.simps)
qed

lemma has_order_check:
  assumes "prod_list qs = n" "\<forall>q \<in> set qs. irred q" "modpow a n p = 1 mod p"
    "\<forall>q \<in> set qs. modpow a (n div q) p \<noteq> 1 mod p"
  shows "has_order a p n"
  using has_orderI [of a qs p] assms by (simp add: modpow_power)

lemma root_order:
  "has_order 3 257 256" "has_order 3 65537 65536" "has_order 2 16777259 16777258"
  "has_order 2 268435459 268435458" "has_order 3 4294967311 4294967310"
proof -
  show "has_order 3 257 256"
    by (rule has_order_check [of "replicate 8 2"]) (simp_all add: irred_factors modpow.simps)
  show "has_order 3 65537 65536"
    by (rule has_order_check [of "replicate 16 2"]) (simp_all add: irred_factors modpow.simps)
  show "has_order 2 16777259 16777258"
    by (rule has_order_check [of "[2, 23, 103, 3541]"]) (simp_all add: irred_factors modpow.simps)
  show "has_order 2 268435459 268435458"
    by (rule has_order_check [of "[2, 3, 3, 3, 3, 19, 87211]"]) (simp_all add: irred_factors modpow.simps)
  show "has_order 3 4294967311 4294967310"
    by (rule has_order_check [of "[2, 3, 3, 5, 131, 364289]"]) (simp_all add: irred_factors modpow.simps)
qed

end
