(* ===== verification/Cyclic.thy ===== *)
theory Cyclic
  imports Aesrand Orders
begin

text \<open>
  The choice of a random cyclic group and generator in \<open>src/xm_cyclic.c\<close>, which fixes the
  order in which the targets are scanned.

  The arithmetic of the GMP library is outside the sources: \<open>powm b e m\<close> stands for
  \<open>mpz_powm\<close> and is an argument; the properties assume its documented result, the power
  modulo \<open>m\<close>.
\<close>

unbundle bit_operations_syntax

section \<open>Groups\<close>

record xm_cyclic_group =
  prime :: u64
  known_primroot :: u64
  prime_factors :: "u64 list"
  num_prime_factors :: nat

definition groups :: "xm_cyclic_group list" where
  "groups =
    [\<lparr>prime = 257, known_primroot = 3, prime_factors = [2], num_prime_factors = 1\<rparr>,
     \<lparr>prime = 65537, known_primroot = 3, prime_factors = [2], num_prime_factors = 1\<rparr>,
     \<lparr>prime = 16777259, known_primroot = 2, prime_factors = [2, 23, 103, 3541],
       num_prime_factors = 4\<rparr>,
     \<lparr>prime = 268435459, known_primroot = 2, prime_factors = [2, 3, 19, 87211],
       num_prime_factors = 4\<rparr>,
     \<lparr>prime = 4294967311, known_primroot = 3, prime_factors = [2, 3, 5, 131, 364289],
       num_prime_factors = 5\<rparr>]"

record xm_cycle =
  cgroup :: xm_cyclic_group
  generator :: u64
  order :: u64
  offset :: u32

section \<open>Operations\<close>

text \<open>
  \<open>check_coprime\<close>: \<open>Some True\<close> is \<open>COPRIME\<close>, \<open>Some False\<close> is \<open>NOT_COPRIME\<close>, \<open>None\<close> is the
  division by zero that the first comparison runs into when \<open>check\<close> is 0.
\<close>

fun check_factors :: "u64 \<Rightarrow> u64 list \<Rightarrow> bool option" where
  "check_factors check [] = Some True"
| "check_factors check (f # fs) =
     (if f > check \<and> check = 0 then None
      else if f > check \<and> f mod check = 0 then Some False
      else if f < check \<and> check mod f = 0 then Some False
      else if f = check then Some False
      else check_factors check fs)"

definition check_coprime :: "u64 \<Rightarrow> xm_cyclic_group \<Rightarrow> bool option" where
  "check_coprime check g = check_factors check (take (num_prime_factors g) (prime_factors g))"

definition xm_isomorphism :: "(nat \<Rightarrow> nat \<Rightarrow> nat \<Rightarrow> nat) \<Rightarrow> u64 \<Rightarrow> xm_cyclic_group \<Rightarrow> u64" where
  "xm_isomorphism powm additive_elt g =
     of_nat (powm (unat (known_primroot g)) (unat additive_elt) (unat (prime g)))"

text \<open>
  The search for a coprime candidate: the outer option is \<open>None\<close> when the loop does not end,
  \<open>Some None\<close> is the crash on candidate 0.
\<close>

partial_function (option) primroot_loop :: "xm_cyclic_group \<Rightarrow> u32 \<Rightarrow> u32 option option" where
  "primroot_loop g candidate =
     (if check_coprime (ucast candidate) g = None then Some None
      else if check_coprime (ucast candidate) g = Some True then Some (Some candidate)
      else primroot_loop g (if (ucast (candidate + 1) :: u64) \<ge> prime g then 1 else candidate + 1))"

definition first_candidate :: "xm_cyclic_group \<Rightarrow> u64 \<Rightarrow> u32" where
  "first_candidate g w =
     (let candidate = ucast ((w AND 0xFFFFFFFF) mod prime g)
      in if candidate = 0 then candidate + 1 else candidate)"

text \<open>The result is a \<open>uint32_t\<close>: the power is truncated to 32 bits.\<close>

definition find_primroot ::
  "(nat \<Rightarrow> nat \<Rightarrow> nat \<Rightarrow> nat) \<Rightarrow> xm_cyclic_group \<Rightarrow> xm_aesrand \<Rightarrow> u32 option option \<times> xm_aesrand" where
  "find_primroot powm g aes =
     (let (w, aes) = xm_aesrand_getword aes
      in (map_option (map_option (\<lambda>c. ucast (xm_isomorphism powm (ucast c) g)))
            (primroot_loop g (first_candidate g w)), aes))"

text \<open>
  The loop bound is the size of the array in bytes: when no prime is large enough the loop
  reads past the last group, which is \<open>None\<close>.
\<close>

fun find_group :: "u64 \<Rightarrow> xm_cyclic_group list \<Rightarrow> xm_cyclic_group option" where
  "find_group min_size [] = None"
| "find_group min_size (g # gs) = (if prime g > min_size then Some g else find_group min_size gs)"

definition xm_get_cyclic_group :: "u64 \<Rightarrow> xm_cyclic_group option" where
  "xm_get_cyclic_group min_size = find_group min_size groups"

definition xm_make_cycle ::
  "(nat \<Rightarrow> nat \<Rightarrow> nat \<Rightarrow> nat) \<Rightarrow> xm_cyclic_group \<Rightarrow> xm_aesrand \<Rightarrow> xm_cycle option option \<times> xm_aesrand" where
  "xm_make_cycle powm g aes =
     (case find_primroot powm g aes of
        (Some (Some root), aes) \<Rightarrow>
          let (w, aes) = xm_aesrand_getword aes;
              off = (ucast (w AND 0xFFFFFFFF) :: u32)
          in (Some (Some \<lparr>cgroup = g, generator = ucast root, order = prime g - 1,
                offset = ucast ((ucast off :: u64) mod prime g)\<rparr>), aes)
      | (Some None, aes) \<Rightarrow> (Some None, aes)
      | (None, aes) \<Rightarrow> (None, aes))"

section \<open>The groups of the table\<close>

text \<open>What the rest uses of a group of the table.\<close>

definition good_group :: "xm_cyclic_group \<Rightarrow> bool" where
  "good_group g \<longleftrightarrow> 2 < unat (prime g) \<and>
     has_order (unat (known_primroot g)) (unat (prime g)) (unat (prime g) - 1) \<and>
     take (num_prime_factors g) (prime_factors g) \<noteq> [] \<and>
     (\<exists>qs. prod_list qs = unat (prime g) - 1 \<and> (\<forall>q \<in> set qs. irred q) \<and>
        set qs = unat ` set (take (num_prime_factors g) (prime_factors g)))"

lemma groups_good: "g \<in> set groups \<Longrightarrow> good_group g"
proof -
  have 2: "(\<exists>qs. prod_list qs = n \<and> (\<forall>q \<in> set qs. irred q) \<and> set qs = S) \<longleftrightarrow>
      (\<exists>qs. prod_list qs = n \<and> set qs = S) \<and> (\<forall>q \<in> S. irred q)" for n S by auto
  assume "g \<in> set groups"
  moreover have "\<exists>qs. prod_list qs = (256 :: nat) \<and> set qs = {2}"
    by (rule exI [of _ "replicate 8 2"]) simp
  moreover have "\<exists>qs. prod_list qs = (65536 :: nat) \<and> set qs = {2}"
    by (rule exI [of _ "replicate 16 2"]) simp
  moreover have "\<exists>qs. prod_list qs = (16777258 :: nat) \<and> set qs = {2, 23, 103, 3541}"
    by (rule exI [of _ "[2, 23, 103, 3541]"]) simp
  moreover have "\<exists>qs. prod_list qs = (268435458 :: nat) \<and> set qs = {2, 3, 19, 87211}"
    by (rule exI [of _ "[2, 3, 3, 3, 3, 19, 87211]"]) simp
  moreover have "\<exists>qs. prod_list qs = (4294967310 :: nat) \<and> set qs = {2, 3, 5, 131, 364289}"
    by (rule exI [of _ "[2, 3, 3, 5, 131, 364289]"]) simp
  ultimately show ?thesis
    unfolding good_group_def 2 by (auto simp: groups_def root_order irred_factors)
qed

lemma check_factors_True:
  "check_factors c fs = Some True \<Longrightarrow> f \<in> set fs \<Longrightarrow> c \<noteq> 0 \<and> \<not> unat f dvd unat c"
proof (induction fs)
  case (Cons g fs)
  have "\<not> unat g dvd unat c \<and> c \<noteq> 0"
  proof -
    have "g \<noteq> c" "\<not> (g > c \<and> c = 0)" "g < c \<Longrightarrow> c mod g \<noteq> 0"
      using Cons.prems(1) by (auto split: if_splits)
    moreover from this have "c \<noteq> 0" by (metis word_neq_0_conv)
    moreover have "c mod g \<noteq> 0 \<Longrightarrow> \<not> unat g dvd unat c"
      by (metis dvd_eq_mod_eq_0 unat_mod unat_eq_zero)
    moreover have "c < g \<Longrightarrow> \<not> unat g dvd unat c"
      using \<open>c \<noteq> 0\<close> by (auto simp: word_less_nat_alt unat_gt_0 dest!: dvd_imp_le)
    ultimately show ?thesis by (metis linorder_neqE)
  qed
  then show ?case using Cons by (auto split: if_splits)
qed simp

lemma check_coprime_sound:
  assumes "good_group g" "check_coprime c g = Some True"
  shows "coprime (unat c) (unat (prime g) - 1)"
proof (rule ccontr)
  obtain qs where qs: "prod_list qs = unat (prime g) - 1" "\<forall>q \<in> set qs. irred q"
    "set qs = unat ` set (take (num_prime_factors g) (prime_factors g))"
    using assms(1) by (auto simp: good_group_def)
  assume "\<not> ?thesis"
  then have "gcd (unat c) (prod_list qs) \<noteq> 1" by (simp add: qs(1) coprime_iff_gcd_eq_1)
  then obtain q where "q \<in> set qs" "q dvd gcd (unat c) (prod_list qs)"
    using irred_factor [of "gcd (unat c) (prod_list qs)" qs] qs(2) by auto
  then show False
    using check_factors_True assms(2) qs(3) by (auto simp: check_coprime_def)
qed

lemma isomorphism_generates:
  assumes "good_group g" "powm (unat (known_primroot g)) (unat c) (unat (prime g)) =
      unat (known_primroot g) ^ unat c mod unat (prime g)" "check_coprime c g = Some True"
  shows "unat (xm_isomorphism powm c g) = unat (known_primroot g) ^ unat c mod unat (prime g)"
    and "has_order (unat (xm_isomorphism powm c g)) (unat (prime g)) (unat (prime g) - 1)"
    and "bij_betw (\<lambda>k. unat (xm_isomorphism powm c g) ^ k mod unat (prime g))
      {..<unat (prime g) - 1} {1..<unat (prime g)}"
proof -
  let ?p = "unat (prime g)" and ?a = "unat (known_primroot g)"
  have "2 < ?p" "has_order ?a ?p (?p - 1)" using assms(1) by (simp_all add: good_group_def)
  have "?a ^ unat c mod ?p < ?p" using \<open>2 < ?p\<close> by simp
  also have "\<dots> < 2 ^ 64" using unsigned_less [of "prime g"] by simp
  finally show eq: "unat (xm_isomorphism powm c g) = ?a ^ unat c mod ?p"
    by (simp add: xm_isomorphism_def assms(2) take_bit_nat_eq_self unat_of_nat)
  show ord: "has_order (unat (xm_isomorphism powm c g)) ?p (?p - 1)"
    unfolding eq by (rule has_order_power [OF \<open>has_order ?a ?p (?p - 1)\<close> check_coprime_sound [OF assms(1,3)]])
  show "bij_betw (\<lambda>k. unat (xm_isomorphism powm c g) ^ k mod ?p) {..<?p - 1} {1..<?p}"
    by (rule generates [OF ord \<open>2 < ?p\<close>])
qed

lemma primroot_loop_result:
  "primroot_loop g c = Some r \<Longrightarrow> \<forall>c'. r = Some c' \<longrightarrow> check_coprime (ucast c') g = Some True"
  by (rule primroot_loop.raw_induct [where P = "\<lambda>g c r. \<forall>c'. r = Some c' \<longrightarrow> check_coprime (ucast c') g = Some True"])
    (auto split: if_splits)

lemma primroot_loop_check:
  "primroot_loop g c = Some (Some c') \<Longrightarrow> check_coprime (ucast c') g = Some True"
  using primroot_loop_result by blast

lemma check_factors_defined: "c \<noteq> 0 \<Longrightarrow> check_factors c fs \<noteq> None"
  by (induction fs) auto

lemma check_coprime_defined: "(c :: u32) \<noteq> 0 \<Longrightarrow> check_coprime (ucast c) g \<noteq> None"
  unfolding check_coprime_def by (rule check_factors_defined) (metis unat_ucast_up unsigned_0 unat_eq_zero)

text \<open>The search reaches an accepted candidate above the current one without a wrap-around.\<close>

lemma primroot_reaches:
  assumes "check_coprime (ucast t) g = Some True" "(ucast t :: u64) < prime g"
    "c \<le> t" "c \<noteq> 0"
  shows "\<exists>c'. primroot_loop g c = Some (Some c')"
  using assms(3,4)
proof (induction "unat t - unat c" arbitrary: c)
  case 0
  then have "c = t" by (simp add: word_le_nat_alt word_unat_eq_iff)
  then show ?case using assms(1) by (subst primroot_loop.simps) simp
next
  case (Suc n)
  have "c \<noteq> t" using Suc.hyps(2) by auto
  then have lt: "c < t" using Suc.prems(1) by simp
  then have c1: "unat (c + 1) = unat c + 1" using unat_lt_u32 [of t]
      unat_add_small [of c 1] by (simp add: word_less_nat_alt)
  have le: "c + 1 \<le> t" "c + 1 \<noteq> 0" using lt c1 by (simp_all add: word_le_nat_alt word_less_nat_alt) auto
  have "\<not> prime g \<le> ucast (c + 1)"
    using le(1) assms(2) by (simp add: word_le_nat_alt word_less_nat_alt not_le)
  moreover have "\<exists>c'. primroot_loop g (c + 1) = Some (Some c')"
    using Suc.hyps(2) c1 le by (intro Suc.hyps(1)) auto
  ultimately show ?case
    using check_coprime_defined [OF Suc.prems(2), of g] by (subst primroot_loop.simps) auto
qed

text \<open>In a group with a 32-bit prime the search starts over at 1 after \<open>p - 1\<close>.\<close>

lemma primroot_returns:
  fixes t c :: u32
  assumes "check_coprime (ucast t) g = Some True" "check_coprime (ucast (t + 1)) g = Some False"
    "unat t + 2 = unat (prime g)" "unat t + 2 < 2 ^ 32" "1 \<le> t" "c \<noteq> 0" "ucast c < prime g"
  shows "\<exists>c'. primroot_loop g c = Some (Some c')"
proof (cases "c \<le> t")
  case True
  then show ?thesis using assms by (intro primroot_reaches [of t]) (simp_all add: word_less_nat_alt)
next
  case False
  have t1: "unat (t + 1) = unat t + 1" using assms(4) unat_add_small [of t 1] by simp
  have "unat c = unat (t + 1)"
    using False assms(3,7) t1 by (simp add: word_le_nat_alt word_less_nat_alt)
  then have c: "c = t + 1" by (rule word_eqI_unat)
  have "unat (t + 2) = unat t + 2" using assms(4) unat_add_small [of t 2] by simp
  then have "prime g \<le> ucast (t + 1 + 1)" using assms(3) by (simp add: word_le_nat_alt add.commute)
  moreover have "\<exists>c'. primroot_loop g 1 = Some (Some c')"
    using assms by (intro primroot_reaches [of t]) (simp_all add: word_less_nat_alt)
  ultimately show ?thesis using assms(2) by (subst primroot_loop.simps) (simp add: c)
qed

lemma primroot_crash:
  assumes "g = groups ! 4" "c = 0xFFFFFFFE \<or> c = 0xFFFFFFFF"
  shows "primroot_loop g c = Some None"
proof -
  have z: "primroot_loop g 0 = Some None"
    by (subst primroot_loop.simps) (simp add: assms(1) groups_def check_coprime_def)
  have wrap: "(4294967296 :: u32) = 0" by simp
  have f: "primroot_loop g 0xFFFFFFFF = Some None"
    using z by (subst primroot_loop.simps) (simp add: assms(1) groups_def check_coprime_def wrap)
  have e: "primroot_loop g 0xFFFFFFFE = Some None"
    using f by (subst primroot_loop.simps) (simp add: assms(1) groups_def check_coprime_def)
  show ?thesis using assms(2) e f by auto
qed

lemma groups_cases: "g \<in> set groups \<Longrightarrow>
  g = groups ! 0 \<or> g = groups ! 1 \<or> g = groups ! 2 \<or> g = groups ! 3 \<or> g = groups ! 4"
  by (auto simp: groups_def)

lemma primroot_32:
  assumes "g = groups ! 0 \<or> g = groups ! 1 \<or> g = groups ! 2 \<or> g = groups ! 3"
    "c \<noteq> 0" "ucast c < prime g"
  shows "\<exists>c'. primroot_loop g c = Some (Some c')"
proof -
  define t :: u32 where "t = ucast (prime g) - 2"
  show ?thesis
    by (rule primroot_returns [of t g c])
      (use assms in \<open>auto simp: t_def groups_def check_coprime_def\<close>)
qed

lemma first_candidate_range:
  assumes "2 < unat (prime g)"
  shows "first_candidate g w \<noteq> 0" "ucast (first_candidate g w) < prime g"
proof -
  let ?x = "(w AND 0xFFFFFFFF) mod prime g"
  have "w AND 0xFFFFFFFF = take_bit 32 w"
    by (rule bit_word_eqI) (simp add: bit_simps take_bit_eq_mask mask_eq_exp_minus_1)
  then have "unat (w AND 0xFFFFFFFF) = take_bit 32 (unat w)" by (simp add: unsigned_take_bit_eq)
  then have "unat (w AND 0xFFFFFFFF) < 2 ^ 32" by (simp only: take_bit_nat_less_exp)
  then have s: "unat ?x < 2 ^ 32"
    by (simp add: unat_mod le_less_trans [OF mod_less_eq_dividend])
  have p: "unat ?x < unat (prime g)" using assms by (simp add: unat_mod)
  have u: "unat (ucast ?x :: u32) = unat ?x" using s by (intro unat_ucast_small) simp
  show "first_candidate g w \<noteq> 0" by (simp add: first_candidate_def Let_def)
  show "ucast (first_candidate g w) < prime g"
    using u p assms by (simp add: first_candidate_def Let_def word_less_nat_alt)
qed

lemma make_cycle_returns:
  assumes "g = groups ! 0 \<or> g = groups ! 1 \<or> g = groups ! 2 \<or> g = groups ! 3"
  shows "\<exists>cy aes'. xm_make_cycle powm g aes = (Some (Some cy), aes')"
proof -
  have "2 < unat (prime g)" using assms by (auto simp: groups_def)
  from primroot_32 [OF assms first_candidate_range [OF this]]
  have "\<exists>c'. primroot_loop g (first_candidate g w) = Some (Some c')" for w .
  then have "\<exists>r aes'. find_primroot powm g aes = (Some (Some r), aes')"
    by (force simp: find_primroot_def case_prod_beta Let_def)
  then show ?thesis by (auto simp: xm_make_cycle_def Let_def split: prod.splits)
qed

lemma make_cycle_parts:
  assumes "g \<in> set groups" "\<And>b e m. powm b e m = b ^ e mod m"
    "xm_make_cycle powm g aes = (Some (Some cy), aes')"
  shows "cgroup cy = g" "unat (order cy) = unat (prime g) - 1" "unat (offset cy) < unat (prime g)"
    "\<exists>root < unat (prime g). unat (generator cy) = root mod 2 ^ 32 \<and>
      has_order root (unat (prime g)) (unat (prime g) - 1)"
proof -
  obtain w aes1 where w: "xm_aesrand_getword aes = (w, aes1)" by fastforce
  obtain c where c: "primroot_loop g (first_candidate g w) = Some (Some c)"
    and gen: "generator cy = ucast (ucast (xm_isomorphism powm (ucast c) g) :: u32)"
    and rest: "cgroup cy = g" "order cy = prime g - 1"
      "offset cy = ucast (ucast (ucast (fst (xm_aesrand_getword aes1) AND 0xFFFFFFFF) :: u32) mod prime g)"
    using assms(3) w
    by (auto simp: xm_make_cycle_def find_primroot_def case_prod_beta Let_def
      split: option.splits prod.splits)
  let ?r = "unat (xm_isomorphism powm (ucast c) g)"
  note iso = isomorphism_generates [of g powm "ucast c", OF groups_good [OF assms(1)] assms(2) primroot_loop_check [OF c]]
  have p2: "2 < unat (prime g)" using groups_good [OF assms(1)] by (simp add: good_group_def)
  have "?r < unat (prime g)" using iso(1) p2 by simp
  moreover have "unat (generator cy) = ?r mod 2 ^ 32"
    by (simp add: gen unsigned_ucast_eq take_bit_eq_mod unat_mod)
  ultimately show "\<exists>root < unat (prime g). unat (generator cy) = root mod 2 ^ 32 \<and>
      has_order root (unat (prime g)) (unat (prime g) - 1)" using iso(2) by blast
  have "unat (offset cy) \<le> unat ((ucast (ucast (fst (xm_aesrand_getword aes1) AND 0xFFFFFFFF) :: u32) :: u64) mod prime g)"
    by (simp only: rest(3) unsigned_ucast_eq take_bit_nat_less_eq_self)
  also have "\<dots> < unat (prime g)" using p2 by (simp add: unat_mod)
  finally show "unat (offset cy) < unat (prime g)" .
  show "unat (order cy) = unat (prime g) - 1"
    using p2 by (simp add: rest(2) unat_sub word_le_nat_alt)
  show "cgroup cy = g" by (rule rest(1))
qed

section \<open>Properties\<close>

text \<open>Property C15. Every group of the table has a generator at hand, and raising it to an
  exponent that passes \<open>check_coprime\<close> gives another one: its powers run through every
  element from 1 to \<open>p - 1\<close> exactly once.\<close>

theorem isomorphism_generator:
  assumes "g \<in> set groups" "\<And>b e m. powm b e m = b ^ e mod m" "check_coprime c g = Some True"
  shows "bij_betw (\<lambda>k. unat (xm_isomorphism powm c g) ^ k mod unat (prime g))
      {..<unat (prime g) - 1} {1..<unat (prime g)} \<and> coprime (unat c) (unat (prime g) - 1)"
  using isomorphism_generates(3) [of g powm c, OF groups_good [OF assms(1)] assms(2) assms(3)]
    check_coprime_sound [OF groups_good [OF assms(1)] assms(3)] by simp

theorem isomorphism_generator_witness:
  "bij_betw (\<lambda>k. unat (xm_isomorphism modpow 5 (groups ! 0)) ^ k mod 257) {..<256} {1..<257}"
proof -
  have "check_coprime 5 (groups ! 0) = Some True" by (simp add: groups_def check_coprime_def)
  then show ?thesis
    using isomorphism_generator [of "groups ! 0" modpow 5] modpow_power by (simp add: groups_def)
qed

text \<open>Property C36. The search for a generator returns one, from every start below the prime
  except the two largest 32-bit values in the largest group, where the candidate wraps to 0
  and the coprimality check divides by zero.\<close>

theorem primroot_search:
  assumes "g \<in> set groups" "c \<noteq> 0" "ucast c < prime g"
  shows "(if prime g = 4294967311 \<and> c \<ge> 0xFFFFFFFE then primroot_loop g c = Some None
     else \<exists>c'. primroot_loop g c = Some (Some c') \<and> check_coprime (ucast c') g = Some True)"
proof (cases "g = groups ! 4")
  case True
  then have p: "prime g = 4294967311" by (simp add: groups_def)
  have t: "check_coprime (ucast (0xFFFFFFFD :: u32)) g = Some True"
    by (simp add: True groups_def check_coprime_def)
  show ?thesis
  proof (cases "c \<ge> 0xFFFFFFFE")
    case True
    then have "unat c = 0xFFFFFFFE \<or> unat c = 0xFFFFFFFF"
      using unat_lt_u32 [of c] by (auto simp: word_le_nat_alt)
    then have "c = 0xFFFFFFFE \<or> c = 0xFFFFFFFF" by (auto simp: word_unat_eq_iff)
    then show ?thesis using True p primroot_crash [OF \<open>g = groups ! 4\<close>] by simp
  next
    case False
    then have "c \<le> 0xFFFFFFFD" by (simp add: word_le_nat_alt not_le)
    then have "\<exists>c'. primroot_loop g c = Some (Some c')"
      using primroot_reaches [OF t] assms(2) p by simp
    then show ?thesis using False p by (auto dest: primroot_loop_check)
  qed
next
  case False
  then have g: "g = groups ! 0 \<or> g = groups ! 1 \<or> g = groups ! 2 \<or> g = groups ! 3"
    using groups_cases [OF assms(1)] by blast
  then have "prime g \<noteq> 4294967311" by (auto simp: groups_def)
  then show ?thesis using primroot_32 [OF g assms(2,3)] by (auto dest: primroot_loop_check)
qed

theorem primroot_search_witness:
  "primroot_loop (groups ! 4) 0xFFFFFFFF = Some None \<and>
    (\<exists>c'. primroot_loop (groups ! 0) 256 = Some (Some c'))"
  using primroot_search [of "groups ! 4" "0xFFFFFFFF"] primroot_search [of "groups ! 0" 256]
  by (auto simp: groups_def)

text \<open>The group chosen for a number of targets is the smallest of the table with
  more elements; for more than \<open>2 ^ 32 + 14\<close> targets the loop reads past the table.\<close>

theorem get_cyclic_group_smallest:
  "case xm_get_cyclic_group n of
     None \<Rightarrow> 4294967311 \<le> n
   | Some g \<Rightarrow> g \<in> set groups \<and> n < prime g \<and> (\<forall>g' \<in> set groups. prime g' < prime g \<longrightarrow> prime g' \<le> n)"
  by (auto simp: xm_get_cyclic_group_def groups_def not_less)

theorem get_cyclic_group_smallest_witness:
  "xm_get_cyclic_group 1000 = Some (groups ! 1)"
  using get_cyclic_group_smallest [of 1000] by (auto simp: xm_get_cyclic_group_def groups_def)

text \<open>A finished cycle has the order and an offset of its group, and its generator
  is the truncation to 32 bits of a generator; when the generator fits 32 bits, as in
  every group but the largest, the cycle visits all of \<open>1, \<dots>, p - 1\<close>.\<close>

theorem make_cycle_generator:
  assumes "g \<in> set groups" "\<And>b e m. powm b e m = b ^ e mod m"
    "xm_make_cycle powm g aes = (Some (Some cy), aes')"
  shows "cgroup cy = g \<and> unat (order cy) = unat (prime g) - 1 \<and> unat (offset cy) < unat (prime g) \<and>
    (\<exists>root < unat (prime g). unat (generator cy) = root mod 2 ^ 32 \<and>
      bij_betw (\<lambda>k. root ^ k mod unat (prime g)) {..<unat (prime g) - 1} {1..<unat (prime g)})"
proof -
  have "2 < unat (prime g)" using groups_good [OF assms(1)] by (simp add: good_group_def)
  then show ?thesis
    using make_cycle_parts [OF assms] generates by blast
qed

theorem make_cycle_generator_witness:
  "\<exists>cy aes'. xm_make_cycle modpow (groups ! 0)
      \<lparr>input = replicate 16 0, sched = replicate 44 0, aes_output = replicate 16 0\<rparr> = (Some (Some cy), aes')
    \<and> unat (order cy) = 256 \<and> unat (offset cy) < 257"
proof -
  obtain cy aes' where c: "xm_make_cycle modpow (groups ! 0)
      \<lparr>input = replicate 16 0, sched = replicate 44 0, aes_output = replicate 16 0\<rparr> = (Some (Some cy), aes')"
    using make_cycle_returns by blast
  show ?thesis using make_cycle_generator [OF _ modpow_power c] c by (auto simp: groups_def)
qed

end
