(* ===== verification/Iptree.thy ===== *)
theory Iptree
  imports Prelude
begin

text \<open>
  The prefix tree of \<open>lib/common/xm_iptree.c\<close>: a binary trie over IPv4 address bits whose
  leaves hold a value (allowed or disallowed), with a count per node and a radix array of
  large prefixes used to enumerate the addresses that have one value.

  A node of the C tree is a leaf exactly when its \<open>l\<close> pointer is \<open>NULL\<close>; nodes are never
  shared, so the mutable tree is a datatype and every in-place update returns the new tree.
\<close>

unbundle bit_operations_syntax

section \<open>Data\<close>

datatype xm_node =
    NLeaf (nvalue: u32) (ncount: u64)
  | NInner xm_node xm_node (nvalue: u32) (ncount: u64)

record xm_iptree =
  root :: xm_node
  radix :: "u32 list"
  radix_len :: u64
  painted :: bool
  paint_value :: u32

definition RADIX_LENGTH :: nat where
  "RADIX_LENGTH = 20"

fun IS_LEAF :: "xm_node \<Rightarrow> bool" where
  "IS_LEAF (NLeaf v c) = True"
| "IS_LEAF (NInner l r v c) = False"

section \<open>Operations\<close>

text \<open>\<open>xmalloc\<close> zeroes the memory it returns, so a fresh leaf has count 0.\<close>

definition create_leaf :: "u32 \<Rightarrow> xm_node" where
  "create_leaf value = NLeaf value 0"

text \<open>
  \<open>_convert_to_leaf\<close> returns at once for a node that is not a leaf; for a leaf it destroys
  two empty subtrees and stores \<open>NULL\<close> twice.
\<close>

fun convert_to_leaf :: "xm_node \<Rightarrow> xm_node" where
  "convert_to_leaf (NInner l r v c) = NInner l r v c"
| "convert_to_leaf (NLeaf v c) = NLeaf v c"

fun set_nvalue :: "xm_node \<Rightarrow> u32 \<Rightarrow> xm_node" where
  "set_nvalue (NLeaf v c) v' = NLeaf v' c"
| "set_nvalue (NInner l r v c) v' = NInner l r v' c"

text \<open>
  The tail of \<open>_set_recurse\<close>: two leaf children with one value are meant to be merged.
\<close>

definition merge_children :: "xm_node \<Rightarrow> xm_node \<Rightarrow> u32 \<Rightarrow> u64 \<Rightarrow> xm_node" where
  "merge_children l r v c =
     (if IS_LEAF r \<and> IS_LEAF l \<and> nvalue r = nvalue l
      then convert_to_leaf (NInner l r (nvalue l) c) else NInner l r v c)"

function set_recurse :: "xm_node \<Rightarrow> u32 \<Rightarrow> int \<Rightarrow> u32 \<Rightarrow> xm_node" where
  "set_recurse node prefix len value =
     (if len < 0 \<or> len > 256 then node
      else if len = 0 then
        set_nvalue (if \<not> IS_LEAF node then convert_to_leaf node else node) value
      else case node of
        NLeaf v c \<Rightarrow>
          if v = value then node
          else if prefix AND 0x80000000 \<noteq> 0
          then merge_children (create_leaf v)
                 (set_recurse (create_leaf v) (push_bit 1 prefix) (len - 1) value) v c
          else merge_children (set_recurse (create_leaf v) (push_bit 1 prefix) (len - 1) value)
                 (create_leaf v) v c
      | NInner l r v c \<Rightarrow>
          if prefix AND 0x80000000 \<noteq> 0
          then merge_children l (set_recurse r (push_bit 1 prefix) (len - 1) value) v c
          else merge_children (set_recurse l (push_bit 1 prefix) (len - 1) value) r v c)"
  by pat_completeness auto
termination
  by (relation "measure (\<lambda>(node, prefix, len, value). nat len)") auto

declare set_recurse.simps [simp del]

definition xm_iptree_add :: "xm_iptree \<Rightarrow> u32 \<Rightarrow> int \<Rightarrow> u32 \<Rightarrow> xm_iptree" where
  "xm_iptree_add t prefix len value =
     t\<lparr>root := set_recurse (root t) prefix len value, painted := False\<rparr>"

text \<open>The loop of \<open>_lookup_ip\<close>: the mask is shifted right once per level.\<close>

fun lookup_ip :: "xm_node \<Rightarrow> u32 \<Rightarrow> u32 \<Rightarrow> u32" where
  "lookup_ip (NLeaf v c) address msk = v"
| "lookup_ip (NInner l r v c) address msk =
     (if address AND msk \<noteq> 0 then lookup_ip r address (drop_bit 1 msk)
      else lookup_ip l address (drop_bit 1 msk))"

definition xm_iptree_lookup_ip :: "xm_iptree \<Rightarrow> u32 \<Rightarrow> u32" where
  "xm_iptree_lookup_ip t address = lookup_ip (root t) address 0x80000000"

text \<open>
  The loop of \<open>_lookup_index\<close>, returning \<open>ip | n\<close> at a leaf, truncated to the 32 bits of
  the C function's \<open>int\<close> result.
\<close>

fun lookup_index :: "xm_node \<Rightarrow> u64 \<Rightarrow> u32 \<Rightarrow> u32 \<Rightarrow> u32" where
  "lookup_index (NLeaf v c) n ip msk = ucast (ucast ip OR n)"
| "lookup_index (NInner l r v c) n ip msk =
     (if n < ncount l then lookup_index l n ip (drop_bit 1 msk)
      else lookup_index r (n - ncount l) (ip OR msk) (drop_bit 1 msk))"

text \<open>\<open>_count_ips_recurse\<close> returns the count and the (possibly painted) node.\<close>

fun count_ips_recurse :: "xm_node \<Rightarrow> u32 \<Rightarrow> u64 \<Rightarrow> bool \<Rightarrow> bool \<Rightarrow> u64 \<times> xm_node" where
  "count_ips_recurse (NLeaf v c) value sz paint exclude_radix =
     (let n = (if v = value
               then (if exclude_radix \<and> sz \<ge> push_bit (32 - RADIX_LENGTH) 1 then 0 else sz)
               else 0)
      in (n, NLeaf v (if paint then n else c)))"
| "count_ips_recurse (NInner l r v c) value sz paint exclude_radix =
     (let (nl, l') = count_ips_recurse l value (drop_bit 1 sz) paint exclude_radix;
          (nr, r') = count_ips_recurse r value (drop_bit 1 sz) paint exclude_radix;
          n = nl + nr
      in (n, NInner l' r' v (if paint then n else c)))"

fun lookup_node :: "xm_node \<Rightarrow> u32 \<Rightarrow> u32 \<Rightarrow> nat \<Rightarrow> xm_node" where
  "lookup_node node prefix msk 0 = node"
| "lookup_node (NLeaf v c) prefix msk (Suc len) = NLeaf v c"
| "lookup_node (NInner l r v c) prefix msk (Suc len) =
     (if prefix AND msk \<noteq> 0 then lookup_node r prefix (drop_bit 1 msk) len
      else lookup_node l prefix (drop_bit 1 msk) len)"

text \<open>One iteration of the loop of \<open>xm_iptree_paint_value\<close> that fills the radix array.\<close>

definition radix_step :: "xm_node \<Rightarrow> u32 \<Rightarrow> nat \<Rightarrow> u32 list \<times> u64 \<Rightarrow> u32 list \<times> u64" where
  "radix_step rt value i s =
     (let prefix = push_bit (32 - RADIX_LENGTH) (of_nat i);
          node = lookup_node rt prefix 0x80000000 RADIX_LENGTH
      in if IS_LEAF node \<and> nvalue node = value
         then ((fst s)[unat (snd s) := prefix], snd s + 1) else s)"

definition xm_iptree_paint_value :: "xm_iptree \<Rightarrow> u32 \<Rightarrow> xm_iptree" where
  "xm_iptree_paint_value t value =
     (let rt = snd (count_ips_recurse (root t) value (push_bit 32 1) True True);
          (rx, rl) = fold (radix_step rt value) [0..<2 ^ RADIX_LENGTH] (radix t, 0)
      in t\<lparr>root := rt, radix := rx, radix_len := rl, painted := True, paint_value := value\<rparr>)"

text \<open>
  Looking an index up paints the tree first when it is not painted for the value; the
  result is the address together with the tree.
\<close>

definition xm_iptree_lookup_index :: "xm_iptree \<Rightarrow> u64 \<Rightarrow> u32 \<Rightarrow> u32 \<times> xm_iptree" where
  "xm_iptree_lookup_index t0 index value =
     (let t = (if \<not> painted t0 \<or> paint_value t0 \<noteq> value
               then xm_iptree_paint_value t0 value else t0);
          radix_idx = index div push_bit (32 - RADIX_LENGTH) 1
      in (if radix_idx < radix_len t
          then radix t ! unat radix_idx OR ucast (index mod push_bit (32 - RADIX_LENGTH) 1)
          else lookup_index (root t)
                 (index - radix_len t * push_bit (32 - RADIX_LENGTH) 1) 0 0x80000000, t))"

definition xm_iptree_count_ips :: "xm_iptree \<Rightarrow> u32 \<Rightarrow> u64" where
  "xm_iptree_count_ips t value =
     (if painted t \<and> paint_value t = value
      then ncount (root t) + radix_len t * push_bit (32 - RADIX_LENGTH) 1
      else fst (count_ips_recurse (root t) value (push_bit 32 1) False False))"

definition xm_iptree_create :: "u32 \<Rightarrow> xm_iptree" where
  "xm_iptree_create value =
     \<lparr>root = create_leaf value, radix = replicate (2 ^ RADIX_LENGTH) 0, radix_len = 0,
      painted = False, paint_value = 0\<rparr>"

section \<open>Address bits and masks\<close>

definition addr_bit :: "u32 \<Rightarrow> nat \<Rightarrow> bool" where
  "addr_bit a d \<longleftrightarrow> d < 32 \<and> bit a (31 - d)"

definition mask_at :: "nat \<Rightarrow> u32" where
  "mask_at d = (if d < 32 then push_bit (31 - d) 1 else 0)"

lemma top_mask: "0x80000000 = mask_at 0"
  by (simp add: mask_at_def push_bit_of_1)

lemma drop_mask [simp]: "drop_bit (Suc 0) (mask_at d) = mask_at (Suc d)"
proof (cases "d < 31")
  case True
  then obtain k where k: "31 - d = Suc k" "31 - Suc d = k" "k < 31"
    by (cases "31 - d") auto
  have "drop_bit (Suc 0) (push_bit (Suc k) (1::u32)) = push_bit k 1"
    using k(3) by (intro bit_word_eqI) (auto simp: bit_simps)
  with True k show ?thesis
    by (simp add: mask_at_def)
next
  case False
  then consider "d = 31" | "d \<ge> 32" by force
  then show ?thesis by cases (simp_all add: mask_at_def)
qed

lemma and_mask [simp]: "(a AND mask_at d = 0) \<longleftrightarrow> \<not> addr_bit a d"
  using bit_iff_and_push_bit_not_eq_0 [of a "31 - d"]
  by (auto simp: mask_at_def addr_bit_def)

lemma shifted_top_bit [simp]: "addr_bit (push_bit d p) 0 = addr_bit p d"
  by (auto simp: addr_bit_def bit_push_bit_iff)

section \<open>Setting a prefix\<close>

lemma convert_to_leaf_id [simp]: "convert_to_leaf n = n"
  by (cases n) simp_all

lemma set_recurse_out: "len < 0 \<or> len > 256 \<Longrightarrow> set_recurse n p len v = n"
  by (simp add: set_recurse.simps)

lemma set_recurse_0: "set_recurse n p 0 v = set_nvalue n v"
  by (simp add: set_recurse.simps)

lemma set_recurse_leaf:
  "m < 256 \<Longrightarrow> set_recurse (NLeaf x c) (push_bit d p) (int (Suc m)) v =
     (if x = v then NLeaf x c
      else if addr_bit p d
      then merge_children (NLeaf x 0) (set_recurse (NLeaf x 0) (push_bit (Suc d) p) (int m) v) x c
      else merge_children (set_recurse (NLeaf x 0) (push_bit (Suc d) p) (int m) v) (NLeaf x 0) x c)"
  by (subst set_recurse.simps) (simp add: create_leaf_def top_mask push_bit_push_bit)

lemma set_recurse_inner:
  "m < 256 \<Longrightarrow> set_recurse (NInner l r x c) (push_bit d p) (int (Suc m)) v =
     (if addr_bit p d
      then merge_children l (set_recurse r (push_bit (Suc d) p) (int m) v) x c
      else merge_children (set_recurse l (push_bit (Suc d) p) (int m) v) r x c)"
  by (subst set_recurse.simps) (simp add: top_mask push_bit_push_bit)

lemmas set_recurse_steps = set_recurse_0 set_recurse_leaf set_recurse_inner

lemma lookup_merge [simp]:
  "lookup_ip (merge_children l r x c) a (mask_at d) =
     (if addr_bit a d then lookup_ip r a (mask_at (Suc d)) else lookup_ip l a (mask_at (Suc d)))"
  by (simp add: merge_children_def)

lemma lookup_node_leaf [simp]: "lookup_node (NLeaf x c) p mk m = NLeaf x c"
  by (cases m) simp_all

lemma all_less_Suc_shift: "(\<forall>i < Suc m. P (d + i)) \<longleftrightarrow> P d \<and> (\<forall>i < m. P (Suc d + i))"
  by (auto simp: less_Suc_eq_0_disj)

lemma lookup_set_recurse:
  "m \<le> 256 \<Longrightarrow> lookup_ip (set_recurse n (push_bit d p) (int m) v) a (mask_at d) =
     (if (\<forall>i < m. addr_bit a (d + i) = addr_bit p (d + i)) \<and> IS_LEAF (lookup_node n p (mask_at d) m)
      then v else lookup_ip n a (mask_at d))"
proof (induction m arbitrary: n d)
  case 0
  then show ?case by (cases n) (simp_all add: set_recurse_0)
next
  case (Suc m)
  define M where "M \<longleftrightarrow> (\<forall>i < m. addr_bit a (Suc d + i) = addr_bit p (Suc d + i))"
  have IH: "lookup_ip (set_recurse n' (push_bit (Suc d) p) (int m) v) a (mask_at (Suc d)) =
     (if M \<and> IS_LEAF (lookup_node n' p (mask_at (Suc d)) m)
      then v else lookup_ip n' a (mask_at (Suc d)))" for n'
    unfolding M_def by (rule Suc.IH) (use Suc.prems in simp)
  have M: "(\<forall>i < Suc m. addr_bit a (d + i) = addr_bit p (d + i)) \<longleftrightarrow> addr_bit a d = addr_bit p d \<and> M"
    unfolding M_def by (rule all_less_Suc_shift [of m "\<lambda>i. addr_bit a i = addr_bit p i" d])
  from Suc.prems have m: "m < 256" by simp
  show ?case
    unfolding M using m by (cases n) (simp_all add: set_recurse_steps IH del: of_nat_Suc)
qed

text \<open>
  An address lies under a prefix when their first \<open>len\<close> bits agree (bits beyond the 32nd
  are zero for both).
\<close>

definition prefix_match :: "u32 \<Rightarrow> nat \<Rightarrow> u32 \<Rightarrow> bool" where
  "prefix_match p len a \<longleftrightarrow> (\<forall>i < len. addr_bit a i = addr_bit p i)"

lemma prefix_match_self [simp]: "prefix_match p len p"
  by (simp add: prefix_match_def)

lemma prefix_match_32: "32 \<le> len \<Longrightarrow> prefix_match p len a \<longleftrightarrow> a = p"
proof
  assume len: "32 \<le> len" and m: "prefix_match p len a"
  show "a = p"
  proof (rule bit_word_eqI)
    fix n assume n: "n < LENGTH(32)"
    have "31 - n < len" using len by simp
    with m have "addr_bit a (31 - n) = addr_bit p (31 - n)"
      unfolding prefix_match_def by blast
    moreover have "31 - n < 32" by arith
    ultimately show "bit a n = bit p n" using n by (simp add: addr_bit_def)
  qed
qed simp

lemma prefix_match_code:
  assumes "len \<le> 32"
  shows "prefix_match p len a \<longleftrightarrow> drop_bit (32 - len) a = drop_bit (32 - len) p"
proof
  assume m: "prefix_match p len a"
  show "drop_bit (32 - len) a = drop_bit (32 - len) p"
  proof (rule bit_word_eqI)
    fix n assume "n < LENGTH(32)"
    show "bit (drop_bit (32 - len) a) n = bit (drop_bit (32 - len) p) n"
    proof (cases "32 - len + n < 32")
      case True
      then have "31 - (32 - len + n) < len" "31 - (31 - (32 - len + n)) = 32 - len + n" using assms by auto
      then show ?thesis
        using m [unfolded prefix_match_def, rule_format, of "31 - (32 - len + n)"] True
        by (simp add: addr_bit_def bit_drop_bit_eq less_imp_diff_less)
    next
      case False
      then show ?thesis by (auto simp: bit_drop_bit_eq dest: bit_imp_le_length)
    qed
  qed
next
  assume eq: "drop_bit (32 - len) a = drop_bit (32 - len) p"
  show "prefix_match p len a"
    unfolding prefix_match_def
  proof (intro allI impI)
    fix i assume "i < len"
    then have "32 - len + (31 - i - (32 - len)) = 31 - i" "i < 32" using assms by auto
    moreover have "bit (drop_bit (32 - len) a) (31 - i - (32 - len)) = bit (drop_bit (32 - len) p) (31 - i - (32 - len))"
      by (simp only: eq)
    ultimately show "addr_bit a i = addr_bit p i" by (simp add: addr_bit_def bit_drop_bit_eq)
  qed
qed

lemma iptree_lookup_add:
  "len \<le> 256 \<Longrightarrow> xm_iptree_lookup_ip (xm_iptree_add t p (int len) v) a =
     (if prefix_match p len a \<and> IS_LEAF (lookup_node (root t) p 0x80000000 len)
      then v else xm_iptree_lookup_ip t a)"
  using lookup_set_recurse [of len "root t" 0 p v a]
  by (auto simp: xm_iptree_lookup_ip_def xm_iptree_add_def top_mask prefix_match_def)

section \<open>The addresses of a subtree\<close>

text \<open>
  \<open>find_leaf n h a\<close> is the value of the leaf that holds address \<open>a\<close> in a subtree that
  covers \<open>2 ^ h\<close> addresses, with the height at which the leaf sits, or \<open>None\<close> when the
  address bits run out before a leaf is reached.
\<close>

fun find_leaf :: "xm_node \<Rightarrow> nat \<Rightarrow> nat \<Rightarrow> (u32 \<times> nat) option" where
  "find_leaf (NLeaf v c) h a = Some (v, h)"
| "find_leaf (NInner l r v c) 0 a = None"
| "find_leaf (NInner l r v c) (Suc h) a =
     (if bit a h then find_leaf r h a else find_leaf l h a)"

text \<open>
  The addresses with value \<open>v\<close> in the order in which the code enumerates them; with \<open>ex\<close>,
  without the blocks of at least \<open>2 ^ 12\<close> addresses, which belong to the radix array.
\<close>

fun leaf_list :: "bool \<Rightarrow> u32 \<Rightarrow> xm_node \<Rightarrow> nat \<Rightarrow> nat \<Rightarrow> nat list" where
  "leaf_list ex v (NLeaf x c) h b = (if x = v \<and> \<not> (ex \<and> 12 \<le> h) then [b..<b + 2 ^ h] else [])"
| "leaf_list ex v (NInner l r x c) 0 b = []"
| "leaf_list ex v (NInner l r x c) (Suc h) b =
     leaf_list ex v l h b @ leaf_list ex v r h (b + 2 ^ h)"

lemma set_leaf_list:
  "2 ^ h dvd b \<Longrightarrow> x \<in> set (leaf_list ex v n h b) \<longleftrightarrow>
     b \<le> x \<and> x < b + 2 ^ h \<and> (\<exists>k. find_leaf n h x = Some (v, k) \<and> (ex \<longrightarrow> k < 12))"
proof (induction ex v n h b rule: leaf_list.induct)
  case (3 ex v l r y c h b)
  have dvd: "2 ^ h dvd b" "2 ^ h dvd b + 2 ^ h"
    using 3(3) by (auto intro: dvd_trans [of "2 ^ h" "2 ^ Suc h"])
  show ?case
    using aligned_bit [OF 3(3), of x] 3(1) [OF dvd(1)] 3(2) [OF dvd(2)] by auto
qed auto

lemma sorted_leaf_list: "sorted_wrt (<) (leaf_list ex v n h b)"
  and leaf_list_bounds: "\<forall>x \<in> set (leaf_list ex v n h b). b \<le> x \<and> x < b + 2 ^ h"
proof (induction ex v n h b rule: leaf_list.induct)
  case (3 ex v l r y c h b)
  { case 1 show ?case using 3 by (force simp: sorted_wrt_append)
  next
    case 2 show ?case using 3 by fastforce }
qed auto

lemma length_leaf_list: "length (leaf_list ex v n h b) \<le> 2 ^ h"
  by (induction ex v n h b rule: leaf_list.induct) auto

section \<open>Counting\<close>

lemma count_size_0: "fst (count_ips_recurse n v 0 paint ex) = 0"
  by (induction n) (auto simp: Let_def split: prod.splits)

lemma drop_push_u64: "h < 63 \<Longrightarrow> drop_bit (Suc 0) (push_bit (Suc h) (1 :: u64)) = push_bit h 1"
  by (intro bit_word_eqI) (auto simp: bit_simps)

lemma unat_push_u64: "h < 64 \<Longrightarrow> unat (push_bit h (1 :: u64)) = 2 ^ h"
  using unat_of_nat_small [of "2 ^ h", where 'a = 64] power_strict_increasing [of h 64 "2::nat"]
  by (simp add: push_bit_of_1)

lemma push_le_u64: "h < 64 \<Longrightarrow> push_bit 12 (1 :: u64) \<le> push_bit h 1 \<longleftrightarrow> 12 \<le> h"
  using unat_push_u64 [of 12] power_increasing_iff [of "2::nat" 12 h]
  by (simp add: word_le_nat_alt unat_push_u64 del: power_increasing_iff)

lemma count_leaf_list:
  "h \<le> 32 \<Longrightarrow> unat (fst (count_ips_recurse n v (push_bit h 1) paint ex)) = length (leaf_list ex v n h b)"
proof (induction n arbitrary: h b)
  case (NLeaf x c)
  then show ?case
    by (simp add: Let_def RADIX_LENGTH_def unat_push_u64 push_le_u64)
next
  case (NInner l r x c)
  show ?case
  proof (cases h)
    case 0
    then show ?thesis
      by (simp add: count_size_0 case_prod_beta Let_def drop_bit_Suc)
  next
    case (Suc k)
    with NInner have IH: "unat (fst (count_ips_recurse l v (push_bit k 1) paint ex)) = length (leaf_list ex v l k b)"
      "unat (fst (count_ips_recurse r v (push_bit k 1) paint ex)) = length (leaf_list ex v r k (b + 2 ^ k))" by simp_all
    have "length (leaf_list ex v l k b) + length (leaf_list ex v r k (b + 2 ^ k)) \<le> 2 ^ h"
      using length_leaf_list [of ex v "NInner l r x c" h b] Suc by simp
    also have "\<dots> \<le> 2 ^ 32" using NInner.prems by (rule power_increasing) simp
    finally have "length (leaf_list ex v l k b) + length (leaf_list ex v r k (b + 2 ^ k)) < 2 ^ 64" by simp
    then show ?thesis
      using Suc NInner.prems
      by (simp add: case_prod_beta Let_def drop_push_u64 unat_add_small IH)
  qed
qed

section \<open>Painting\<close>

text \<open>Painting only writes the counts.\<close>

abbreviation paint_node :: "xm_node \<Rightarrow> u32 \<Rightarrow> u64 \<Rightarrow> xm_node" where
  "paint_node n v sz \<equiv> snd (count_ips_recurse n v sz True True)"

lemma IS_LEAF_paint [simp]: "IS_LEAF (paint_node n v sz) = IS_LEAF n"
  by (cases n) (simp_all add: Let_def case_prod_beta)

lemma nvalue_paint [simp]: "nvalue (paint_node n v sz) = nvalue n"
  by (cases n) (simp_all add: Let_def case_prod_beta)

lemma ncount_paint [simp]: "ncount (paint_node n v sz) = fst (count_ips_recurse n v sz True True)"
  by (cases n) (simp_all add: Let_def case_prod_beta)

lemma lookup_ip_paint [simp]: "lookup_ip (paint_node n v sz) a mk = lookup_ip n a mk"
  by (induction n arbitrary: sz mk) (simp_all add: Let_def case_prod_beta)

lemma lookup_node_paint:
  "\<exists>sz'. lookup_node (paint_node n v sz) p mk m = paint_node (lookup_node n p mk m) v sz'"
proof (induction n p mk m arbitrary: sz rule: lookup_node.induct)
  case (3 l r x c p mk m)
  show ?case using 3(1) [of "drop_bit 1 sz"] 3(2) [of "drop_bit 1 sz"]
    by (simp add: Let_def case_prod_beta)
qed (auto simp: Let_def)

lemma lookup_node_paint_simps [simp]:
  "IS_LEAF (lookup_node (paint_node n v sz) p mk m) = IS_LEAF (lookup_node n p mk m)"
  "nvalue (lookup_node (paint_node n v sz) p mk m) = nvalue (lookup_node n p mk m)"
  using lookup_node_paint [of n v sz p mk m] by auto

lemma find_leaf_paint [simp]: "find_leaf (paint_node n v sz) h x = find_leaf n h x"
  by (induction n h x arbitrary: sz rule: find_leaf.induct) (simp_all add: Let_def case_prod_beta)

lemma leaf_list_paint [simp]: "leaf_list ex w (paint_node n v sz) h b = leaf_list ex w n h b"
  by (induction ex w n h b arbitrary: sz rule: leaf_list.induct) (simp_all add: Let_def case_prod_beta)

lemma count_paint [simp]:
  "fst (count_ips_recurse (paint_node n v sz) w sz' paint ex) = fst (count_ips_recurse n w sz' paint ex)"
  by (induction n arbitrary: sz sz') (simp_all add: Let_def case_prod_beta)

lemma paint_paint: "paint_node (paint_node n v sz) v sz = paint_node n v sz"
  by (induction n arbitrary: sz) (simp_all add: Let_def case_prod_beta)

text \<open>On a painted tree the index walk returns the addresses of \<open>leaf_list\<close> in order.\<close>

lemma mask_at_height: "h < 32 \<Longrightarrow> mask_at (31 - h) = push_bit h 1"
  by (simp add: mask_at_def)

lemma or_half_block:
  assumes "h < 32" "2 ^ Suc h dvd b" "b + 2 ^ Suc h \<le> 2 ^ 32"
  shows "(of_nat b :: u32) OR push_bit h 1 = of_nat (b + 2 ^ h)"
proof (rule word_eqI_unat)
  have b: "b < 2 ^ 32" "b + 2 ^ h < 2 ^ 32" using assms(3) by (auto intro: less_le_trans [rotated])
  have "unat (push_bit h (1::u32)) = 2 ^ h"
    using assms(1) power_strict_increasing [of h 32 "2::nat"] unat_of_nat_small [of "2 ^ h", where 'a = 32]
    by (simp add: push_bit_of_1)
  then have "unat ((of_nat b :: u32) OR push_bit h 1) = b OR 2 ^ h"
    using b by (simp add: unsigned_or_eq unat_of_nat_small)
  also have "\<dots> = b + 2 ^ h" by (rule or_low_bits_nat [OF assms(2)]) simp
  also have "\<dots> = unat (of_nat (b + 2 ^ h) :: u32)"
    using b(2) unat_of_nat_small [of "b + 2 ^ h", where 'a = 32] by simp
  finally show "unat ((of_nat b :: u32) OR push_bit h 1) = unat (of_nat (b + 2 ^ h) :: u32)" .
qed

lemma or_leaf_offset:
  assumes "2 ^ h dvd b" "unat (n::u64) < 2 ^ h" "b + 2 ^ h \<le> 2 ^ 32"
  shows "ucast (ucast (of_nat b :: u32) OR n) = (of_nat (b + unat n) :: u32)"
proof (rule word_eqI_unat)
  have b: "b < 2 ^ 32" "b + unat n < 2 ^ 32" using assms(2,3) by auto
  have "unat (ucast (of_nat b :: u32) OR n) = b OR unat n"
    using b(1) by (simp add: unsigned_or_eq unat_of_nat_small)
  also have "\<dots> = b + unat n" by (rule or_low_bits_nat [OF assms(1,2)])
  finally have "unat (ucast (of_nat b :: u32) OR n) = b + unat n" .
  then show "unat (ucast (ucast (of_nat b :: u32) OR n) :: u32) = unat (of_nat (b + unat n) :: u32)"
    using b(2) unat_of_nat_small [of "b + unat n", where 'a = 32]
    by (simp add: unat_ucast_small)
qed

lemma lookup_index_leaf_list:
  assumes "h \<le> 32" "2 ^ h dvd b" "b + 2 ^ h \<le> 2 ^ 32" "unat idx < length (leaf_list True v n h b)"
  shows "lookup_index (paint_node n v (push_bit h 1)) idx (of_nat b) (mask_at (32 - h)) =
     of_nat (leaf_list True v n h b ! unat idx)"
  using assms
proof (induction n arbitrary: h b idx)
  case (NLeaf x c)
  then have "unat idx < 2 ^ h" "x = v \<and> \<not> 12 \<le> h" by (auto split: if_splits)
  with NLeaf.prems show ?case
    using or_leaf_offset [of h b idx] by (simp add: Let_def)
next
  case (NInner l r x c)
  then obtain k where k: "h = Suc k" by (cases h) auto
  with NInner.prems have prems: "k < 32" "2 ^ k dvd b" "2 ^ k dvd b + 2 ^ k" "b + 2 ^ k \<le> 2 ^ 32"
      "b + 2 ^ k + 2 ^ k \<le> 2 ^ 32"
    by (auto intro: dvd_trans [of "2 ^ k" "2 ^ Suc k"])
  let ?L = "leaf_list True v l k b" and ?R = "leaf_list True v r k (b + 2 ^ k)"
  have cl: "unat (ncount (paint_node l v (push_bit k 1))) = length ?L"
    using count_leaf_list [of k l v True True b] prems(1) by simp
  have unfold: "paint_node (NInner l r x c) v (push_bit h 1) =
      NInner (paint_node l v (push_bit k 1)) (paint_node r v (push_bit k 1)) x
        (fst (count_ips_recurse (NInner l r x c) v (push_bit h 1) True True))"
    using k prems(1) by (simp add: Let_def case_prod_beta drop_push_u64)
  have mk: "mask_at (Suc (32 - h)) = mask_at (32 - k)" 
  proof -
    have "Suc (32 - h) = 32 - k" using k prems(1) by arith
    then show ?thesis by simp
  qed
  show ?case
  proof (cases "unat idx < length ?L")
    case True
    then have "idx < ncount (paint_node l v (push_bit k 1))" by (simp add: word_less_nat_alt cl del: ncount_paint)
    moreover have "lookup_index (paint_node l v (push_bit k 1)) idx (of_nat b) (mask_at (32 - k)) = of_nat (?L ! unat idx)"
      using NInner.IH(1) [of k b idx] prems True by simp
    ultimately show ?thesis unfolding unfold using k True mk by (simp add: nth_append del: ncount_paint)
  next
    case False
    then have ge: "\<not> idx < ncount (paint_node l v (push_bit k 1))" by (simp add: word_less_nat_alt cl del: ncount_paint)
    then have sub: "unat (idx - ncount (paint_node l v (push_bit k 1))) = unat idx - length ?L"
      by (subst unat_sub_small) (simp_all add: word_le_nat_alt cl not_less del: ncount_paint)
    have lt: "unat idx - length ?L < length ?R" using NInner.prems(4) k False by simp
    have "lookup_index (paint_node r v (push_bit k 1)) (idx - ncount (paint_node l v (push_bit k 1)))
        (of_nat (b + 2 ^ k)) (mask_at (32 - k)) = of_nat (?R ! (unat idx - length ?L))"
      using NInner.IH(2) [of k "b + 2 ^ k" "idx - ncount (paint_node l v (push_bit k 1))"] prems lt
      unfolding sub by simp
    moreover have "(of_nat b :: u32) OR mask_at (32 - h) = of_nat (b + 2 ^ k)"
      using or_half_block [of k b] k NInner.prems prems(1) by (simp add: mask_at_height)
    ultimately show ?thesis unfolding unfold using k False ge mk by (simp add: nth_append del: ncount_paint)
  qed
qed

section \<open>The radix array\<close>

definition radix_hit :: "xm_node \<Rightarrow> u32 \<Rightarrow> nat \<Rightarrow> bool" where
  "radix_hit rt v i \<longleftrightarrow>
     (let node = lookup_node rt (push_bit (32 - RADIX_LENGTH) (of_nat i)) 0x80000000 RADIX_LENGTH
      in IS_LEAF node \<and> nvalue node = v)"

abbreviation radix_prefix :: "nat \<Rightarrow> u32" where
  "radix_prefix i \<equiv> push_bit (32 - RADIX_LENGTH) (of_nat i)"

definition radix_hits :: "xm_node \<Rightarrow> u32 \<Rightarrow> nat list" where
  "radix_hits rt v = filter (radix_hit rt v) [0..<2 ^ RADIX_LENGTH]"

lemma radix_hit_paint [simp]: "radix_hit (paint_node n v sz) w i = radix_hit n w i"
  by (simp add: radix_hit_def Let_def)

lemma radix_hits_paint [simp]: "radix_hits (paint_node n v sz) w = radix_hits n w"
  unfolding radix_hits_def by (rule filter_cong) simp_all

lemma length_filter_upt: "length (filter P [0..<k]) \<le> k"
  using length_filter_le [of P "[0..<k]"] by simp

lemma length_radix_hits: "length (radix_hits rt v) \<le> 2 ^ RADIX_LENGTH"
  unfolding radix_hits_def by (rule length_filter_upt)

text \<open>
  The loop writes one entry per hit, always inside the array, and leaves exactly the hit
  prefixes in its first \<open>radix_len\<close> entries.
\<close>

lemma radix_fold:
  assumes "length rx0 = 2 ^ RADIX_LENGTH" "k \<le> 2 ^ RADIX_LENGTH"
  shows "\<exists>rx rl. fold (radix_step rt v) [0..<k] (rx0, 0) = (rx, rl)
     \<and> length rx = 2 ^ RADIX_LENGTH
     \<and> unat rl = length (filter (radix_hit rt v) [0..<k])
     \<and> take (unat rl) rx = map radix_prefix (filter (radix_hit rt v) [0..<k])"
  using assms(2)
proof (induction k)
  case 0
  then show ?case using assms(1) by simp
next
  case (Suc k)
  then obtain rx rl where IH: "fold (radix_step rt v) [0..<k] (rx0, 0) = (rx, rl)"
    "length rx = 2 ^ RADIX_LENGTH" "unat rl = length (filter (radix_hit rt v) [0..<k])"
    "take (unat rl) rx = map radix_prefix (filter (radix_hit rt v) [0..<k])" by auto
  have lt: "unat rl < 2 ^ RADIX_LENGTH"
    using IH(3) length_filter_upt [of "radix_hit rt v" k] Suc.prems by simp
  then have suc: "unat (rl + 1) = Suc (unat rl)"
    by (subst unat_add_small) (simp_all add: RADIX_LENGTH_def)
  have tk: "take (Suc (unat rl)) (rx[unat rl := radix_prefix k]) =
      map radix_prefix (filter (radix_hit rt v) [0..<k]) @ [radix_prefix k]"
    using lt IH(2,4) by (simp add: take_Suc_conv_app_nth)
  show ?case
  proof (cases "radix_hit rt v k")
    case True
    then have "radix_step rt v k (rx, rl) = (rx[unat rl := radix_prefix k], rl + 1)"
      by (simp add: radix_step_def radix_hit_def Let_def)
    then show ?thesis using IH True suc tk by simp
  next
    case False
    then have "radix_step rt v k (rx, rl) = (rx, rl)"
      by (auto simp: radix_step_def radix_hit_def Let_def)
    then show ?thesis using IH False by simp
  qed
qed

text \<open>The invariant of a tree that is only changed through the module's operations.\<close>

definition iptree_inv :: "xm_iptree \<Rightarrow> bool" where
  "iptree_inv t \<longleftrightarrow> length (radix t) = 2 ^ RADIX_LENGTH \<and>
     (painted t \<longrightarrow> root t = paint_node (root t) (paint_value t) (push_bit 32 1)
        \<and> unat (radix_len t) = length (radix_hits (root t) (paint_value t))
        \<and> take (unat (radix_len t)) (radix t) = map radix_prefix (radix_hits (root t) (paint_value t)))"

lemma iptree_inv_create: "iptree_inv (xm_iptree_create v)"
  by (simp add: iptree_inv_def xm_iptree_create_def)

lemma iptree_inv_add: "iptree_inv t \<Longrightarrow> iptree_inv (xm_iptree_add t p len v)"
  by (simp add: iptree_inv_def xm_iptree_add_def)

lemma paint_value_fields:
  assumes "length (radix t) = 2 ^ RADIX_LENGTH"
  shows "iptree_inv (xm_iptree_paint_value t v)"
    and "root (xm_iptree_paint_value t v) = paint_node (root t) v (push_bit 32 1)"
    and "painted (xm_iptree_paint_value t v)"
    and "paint_value (xm_iptree_paint_value t v) = v"
proof -
  obtain rx rl where f: "fold (radix_step (paint_node (root t) v (push_bit 32 1)) v) [0..<2 ^ RADIX_LENGTH] (radix t, 0) = (rx, rl)"
    "length rx = 2 ^ RADIX_LENGTH"
    "unat rl = length (radix_hits (paint_node (root t) v (push_bit 32 1)) v)"
    "take (unat rl) rx = map radix_prefix (radix_hits (paint_node (root t) v (push_bit 32 1)) v)"
    using radix_fold [OF assms order_refl] unfolding radix_hits_def by blast
  have eq: "xm_iptree_paint_value t v =
      t\<lparr>root := paint_node (root t) v (push_bit 32 1), radix := rx, radix_len := rl,
        painted := True, paint_value := v\<rparr>"
    unfolding xm_iptree_paint_value_def by (simp add: f(1) Let_def)
  show "iptree_inv (xm_iptree_paint_value t v)"
    "root (xm_iptree_paint_value t v) = paint_node (root t) v (push_bit 32 1)"
    "painted (xm_iptree_paint_value t v)" "paint_value (xm_iptree_paint_value t v) = v"
    using f by (simp_all add: eq iptree_inv_def paint_paint)
qed

lemma iptree_inv_paint: "iptree_inv t \<Longrightarrow> iptree_inv (xm_iptree_paint_value t v)"
  by (rule paint_value_fields) (simp add: iptree_inv_def)

lemma iptree_inv_lookup_index:
  "iptree_inv t \<Longrightarrow> iptree_inv (snd (xm_iptree_lookup_index t i v))"
  by (simp add: xm_iptree_lookup_index_def Let_def iptree_inv_paint)

lemma lookup_ip_paint_value:
  "iptree_inv t \<Longrightarrow> xm_iptree_lookup_ip (xm_iptree_paint_value t v) a = xm_iptree_lookup_ip t a"
  by (simp add: xm_iptree_lookup_ip_def paint_value_fields(2) iptree_inv_def)

section \<open>Enumeration of the addresses that have a value\<close>

lemma addr_bit_unat: "d < 32 \<Longrightarrow> addr_bit a d = bit (unat a) (31 - d)"
  by (simp add: addr_bit_def bit_unat)

lemma lookup_node_find_leaf:
  "d + m \<le> 32 \<Longrightarrow> IS_LEAF (lookup_node n a (mask_at d) m) \<and> nvalue (lookup_node n a (mask_at d) m) = v
     \<longleftrightarrow> (\<exists>k. find_leaf n (32 - d) (unat a) = Some (v, k) \<and> 32 - d - m \<le> k)"
proof (induction m arbitrary: n d)
  case 0
  show ?case
  proof (cases n)
    case (NInner l r x c)
    have "find_leaf n' h y = Some (v, k) \<Longrightarrow> k \<le> h" for n' h y k
      by (induction n' h y rule: find_leaf.induct) (auto split: if_splits)
    then have "find_leaf n (32 - d) (unat a) = Some (v, k) \<Longrightarrow> \<not> 32 - d \<le> k" for k
      using NInner by (cases "32 - d") (fastforce split: if_splits)+
    then show ?thesis using NInner by auto
  qed auto
next
  case (Suc m)
  then have d: "32 - d = Suc (31 - d)" "32 - Suc d = 31 - d" "d < 32" by auto
  show ?case
  proof (cases n)
    case (NInner l r x c)
    show ?thesis
      using Suc.IH [of "Suc d"] Suc.prems d by (simp add: NInner addr_bit_unat)
  qed auto
qed

lemma IS_LEAF_lookup_node_32:
  "IS_LEAF (lookup_node n a 0x80000000 32) \<and> nvalue (lookup_node n a 0x80000000 32) = v
     \<longleftrightarrow> (\<exists>k. find_leaf n 32 (unat a) = Some (v, k))"
  using lookup_node_find_leaf [of 0 32 n a v] by (simp add: top_mask)

lemma lookup_ip_lookup_node:
  "IS_LEAF (lookup_node n a (mask_at d) m) \<Longrightarrow>
     lookup_ip n a (mask_at d) = nvalue (lookup_node n a (mask_at d) m)"
proof (induction m arbitrary: n d)
  case 0
  then show ?case by (cases n) auto
next
  case (Suc m)
  then show ?case by (cases n) auto
qed

lemma lookup_node_cong:
  "\<forall>i < m. addr_bit a (d + i) = addr_bit p (d + i) \<Longrightarrow>
     lookup_node n a (mask_at d) m = lookup_node n p (mask_at d) m"
proof (induction m arbitrary: n d)
  case (Suc m)
  then show ?case
    unfolding all_less_Suc_shift [of m "\<lambda>i. addr_bit a i = addr_bit p i" d] by (cases n) auto
qed simp

lemma radix_hit_find_leaf:
  "radix_hit rt v (unat (a :: u32) div 4096) \<longleftrightarrow> (\<exists>k. find_leaf rt 32 (unat a) = Some (v, k) \<and> 12 \<le> k)"
proof -
  have "addr_bit a i = addr_bit (radix_prefix (unat a div 4096)) i" if i: "i < 20" for i
  proof -
    have "(2::nat) ^ 12 * 2 ^ (19 - i) = 2 ^ (31 - i)" using i power_add [of "2::nat" 12 "19 - i"] by simp
    then have "bit (unat a div 2 ^ 12) (19 - i) = bit (unat a) (31 - i)"
      by (simp add: bit_iff_odd div_mult2_eq [symmetric])
    moreover have "unat a div 4096 < 4294967296" using unat_lt_u32 [of a] by auto
    moreover have "12 \<le> 31 - i" "31 - i < 32" using i by arith+
    ultimately show ?thesis using i by (simp add: addr_bit_def RADIX_LENGTH_def bit_push_bit_iff bit_of_nat_u32 bit_unat)
  qed
  then have "lookup_node rt a (mask_at 0) 20 = lookup_node rt (radix_prefix (unat a div 4096)) (mask_at 0) 20"
    by (intro lookup_node_cong) simp
  then show ?thesis
    using lookup_node_find_leaf [of 0 20 rt a v]
    by (simp add: radix_hit_def Let_def top_mask RADIX_LENGTH_def)
qed

text \<open>The addresses with value \<open>v\<close> in the order of their indexes.\<close>

definition index_list :: "xm_node \<Rightarrow> u32 \<Rightarrow> nat list" where
  "index_list rt v =
     concat (map (\<lambda>i. [i * 4096..<i * 4096 + 4096]) (radix_hits rt v)) @ leaf_list True v rt 32 0"

lemma set_index_list:
  "x \<in> set (index_list rt v) \<longleftrightarrow> x < 2 ^ 32 \<and> (\<exists>k. find_leaf rt 32 x = Some (v, k))"
proof -
  have "x \<in> set (concat (map (\<lambda>i. [i * 4096..<i * 4096 + 4096]) (radix_hits rt v)))
     \<longleftrightarrow> x div 4096 < 2 ^ 20 \<and> radix_hit rt v (x div 4096)"
  proof -
    have "(i * 4096 \<le> x \<and> x < i * 4096 + 4096) \<longleftrightarrow> i = x div 4096" for i by auto
    then show ?thesis by (auto simp: radix_hits_def RADIX_LENGTH_def)
  qed
  also have "\<dots> \<longleftrightarrow> x < 2 ^ 32 \<and> (\<exists>k. find_leaf rt 32 x = Some (v, k) \<and> 12 \<le> k)"
  proof -
    have "x div 4096 < 2 ^ 20 \<longleftrightarrow> x < 2 ^ 32" by (simp add: div_less_iff_less_mult)
    moreover have "radix_hit rt v (x div 4096) \<longleftrightarrow> (\<exists>k. find_leaf rt 32 x = Some (v, k) \<and> 12 \<le> k)"
      if "x < 2 ^ 32" using radix_hit_find_leaf [of rt v "of_nat x"] that
      by (simp add: unat_of_nat_small)
    ultimately show ?thesis by blast
  qed
  finally have radix: "x \<in> set (concat (map (\<lambda>i. [i * 4096..<i * 4096 + 4096]) (radix_hits rt v)))
     \<longleftrightarrow> x < 2 ^ 32 \<and> (\<exists>k. find_leaf rt 32 x = Some (v, k) \<and> 12 \<le> k)" .
  show ?thesis
    unfolding index_list_def set_append Un_iff radix
    using set_leaf_list [of 32 0 x True v rt] by auto
qed

lemma distinct_index_list: "distinct (index_list rt v)"
proof -
  have 1: "sorted_wrt (<) (concat (map (\<lambda>i. [i * 4096..<i * 4096 + 4096]) (radix_hits rt v)))"
    unfolding radix_hits_def by (intro sorted_wrt_concat_blocks sorted_wrt_filter sorted_wrt_upt)
  have "x \<notin> set (leaf_list True v rt 32 0)" if i: "i \<in> set (radix_hits rt v)" "i * 4096 \<le> x" "x < i * 4096 + 4096" for i x
  proof -
    have "i = x div 4096" using i by auto
    moreover have "i < 2 ^ 20" using i(1) by (simp add: radix_hits_def RADIX_LENGTH_def)
    ultimately have "radix_hit rt v (x div 4096)" "x < 2 ^ 32" using i by (auto simp: radix_hits_def)
    then show ?thesis
      using radix_hit_find_leaf [of rt v "of_nat x"] set_leaf_list [of 32 0 x True v rt]
      by (auto simp: unat_of_nat_small)
  qed
  then show ?thesis
    unfolding index_list_def distinct_append
    using strict_sorted_distinct [OF 1] strict_sorted_distinct [OF sorted_leaf_list]
    by auto
qed

lemma length_index_list: "length (index_list rt v) \<le> 2 ^ 32"
proof -
  have "set (index_list rt v) \<subseteq> {..<2 ^ 32}" by (auto simp: set_index_list)
  then have "card (set (index_list rt v)) \<le> card {..<(2::nat) ^ 32}" by (intro card_mono) auto
  then show ?thesis using distinct_index_list by (simp add: distinct_card)
qed

text \<open>The count is the length of the enumeration, painted or not.\<close>

lemma length_blocks: "length (concat (map (\<lambda>i. [i * 4096..<i * 4096 + 4096]) xs)) = length xs * 4096"
  by (rule length_concat_blocks) simp

lemma length_leaf_list_all: "length (leaf_list False v rt 32 0) = length (index_list rt v)"
proof -
  have "x \<in> set (leaf_list False v rt 32 0) \<longleftrightarrow> x \<in> set (index_list rt v)" for x
    using set_leaf_list [of 32 0 x False v rt] by (simp add: set_index_list)
  then have "set (leaf_list False v rt 32 0) = set (index_list rt v)" by blast
  then show ?thesis
    using distinct_card [OF distinct_index_list] distinct_card [OF strict_sorted_distinct [OF sorted_leaf_list]]
    by metis
qed

lemma count_ips_index_list:
  assumes "iptree_inv t"
  shows "unat (xm_iptree_count_ips t v) = length (index_list (root t) v)"
proof (cases "painted t \<and> paint_value t = v")
  case True
  with assms have inv: "root t = paint_node (root t) v (push_bit 32 1)"
    "unat (radix_len t) = length (radix_hits (root t) v)" by (auto simp: iptree_inv_def)
  have "ncount (root t) = fst (count_ips_recurse (root t) v (push_bit 32 1) True True)"
    by (subst inv(1)) simp
  then have n: "unat (ncount (root t)) = length (leaf_list True v (root t) 32 0)"
    using count_leaf_list [of 32 "root t" v True True 0] by simp
  have len: "length (index_list (root t) v) = length (radix_hits (root t) v) * 4096 + length (leaf_list True v (root t) 32 0)"
    by (simp add: index_list_def length_blocks)
  have bound: "length (radix_hits (root t) v) * 4096 + length (leaf_list True v (root t) 32 0) \<le> 2 ^ 32"
    using length_index_list [of "root t" v] len by simp
  have "unat (radix_len t * 4096) = length (radix_hits (root t) v) * 4096"
    using bound by (simp add: unat_mult_small inv(2))
  then have "unat (ncount (root t) + radix_len t * 4096) = length (index_list (root t) v)"
    using bound by (simp add: unat_add_small n len)
  with True show ?thesis by (simp add: xm_iptree_count_ips_def RADIX_LENGTH_def push_bit_of_1)
next
  case False
  then have "xm_iptree_count_ips t v = fst (count_ips_recurse (root t) v (push_bit 32 1) False False)"
    by (auto simp: xm_iptree_count_ips_def)
  then show ?thesis
    using count_leaf_list [of 32 "root t" v False False 0] by (simp add: length_leaf_list_all)
qed

text \<open>Looking up an index below the count returns the enumerated address.\<close>

lemma lookup_index_index_list:
  assumes inv: "iptree_inv t" and i: "unat index < length (index_list (root t) v)"
  shows "fst (xm_iptree_lookup_index t index v) = of_nat (index_list (root t) v ! unat index)"
proof -
  define t' where "t' = (if \<not> painted t \<or> paint_value t \<noteq> v then xm_iptree_paint_value t v else t)"
  have len: "length (radix t) = 2 ^ RADIX_LENGTH" using inv by (simp add: iptree_inv_def)
  have inv': "iptree_inv t'" "painted t'" "paint_value t' = v"
    using inv paint_value_fields [OF len, of v] by (auto simp: t'_def)
  have rt: "index_list (root t') w = index_list (root t) w" for w
    using paint_value_fields(2) [OF len, of v] by (simp add: t'_def index_list_def)
  have rt': "root t' = paint_node (root t') v (push_bit 32 1)" using inv' by (simp add: iptree_inv_def)
  let ?hits = "radix_hits (root t') v"
  have rl: "unat (radix_len t') = length ?hits"
    and rx: "take (length ?hits) (radix t') = map radix_prefix ?hits"
    using inv' by (auto simp: iptree_inv_def)
  have i': "unat index < length (index_list (root t') v)" using i by (simp add: rt)
  have c: "push_bit (32 - RADIX_LENGTH) (1::u64) = 4096" by (simp add: RADIX_LENGTH_def push_bit_of_1)
  have ud: "unat (index div 4096) = unat index div 4096" "unat (index mod 4096) = unat index mod 4096"
    by (simp_all add: unat_div unat_mod)
  have res: "fst (xm_iptree_lookup_index t index v) =
      (if index div 4096 < radix_len t' then radix t' ! unat (index div 4096) OR ucast (index mod 4096)
       else lookup_index (root t') (index - radix_len t' * 4096) 0 (mask_at 0))"
    unfolding xm_iptree_lookup_index_def Let_def t'_def c top_mask by simp
  show ?thesis
  proof (cases "unat index div 4096 < length ?hits")
    case True
    then have cond: "index div 4096 < radix_len t'" by (simp add: word_less_nat_alt ud rl)
    define j where "j = ?hits ! (unat index div 4096)"
    have "j \<in> set ?hits" using True by (simp add: j_def)
    then have j: "j < 2 ^ 20" by (simp add: radix_hits_def RADIX_LENGTH_def)
    have "radix t' ! (unat index div 4096) = take (length ?hits) (radix t') ! (unat index div 4096)"
      using True by simp
    then have r: "radix t' ! (unat index div 4096) = radix_prefix j" unfolding rx using True by (simp add: j_def)
    have p: "unat (radix_prefix j) = j * 4096"
      using j unat_of_nat_u32 [of "j * 4096"] by (simp add: RADIX_LENGTH_def push_bit_eq_mult)
    have "unat (radix_prefix j OR ucast (index mod 4096)) = j * 4096 OR unat index mod 4096"
      unfolding unsigned_or_eq p by (subst unat_ucast_small) (simp_all add: ud)
    also have "\<dots> = j * 4096 + unat index mod 4096"
      by (rule or_low_bits_nat [of 12]) auto
    finally have val: "radix_prefix j OR ucast (index mod 4096) = of_nat (j * 4096 + unat index mod 4096)"
      by (rule word_of_unat)
    have lt: "unat index < length ?hits * 4096" using True by (simp add: div_less_iff_less_mult)
    have "index_list (root t') v ! unat index = j * 4096 + unat index mod 4096"
      unfolding index_list_def using lt
      by (simp add: nth_append length_blocks nth_concat_blocks [where m = 4096] j_def)
    then show ?thesis unfolding res using cond val r by (simp add: ud rt)
  next
    case False
    then have cond: "\<not> index div 4096 < radix_len t'" by (simp add: word_less_nat_alt ud rl)
    have le: "length ?hits * 4096 \<le> unat index" using False by (simp add: less_eq_div_iff_mult_less_eq not_less)
    have "unat (radix_len t' * 4096) = length ?hits * 4096"
      using le unat_lt_u64 [of index] by (simp add: unat_mult_small rl)
    then have sub: "unat (index - radix_len t' * 4096) = unat index - length ?hits * 4096"
      using le by (simp add: unat_sub_small)
    let ?L = "leaf_list True v (root t') 32 0"
    have lt: "unat index - length ?hits * 4096 < length ?L"
      using i' le by (simp add: index_list_def length_blocks)
    have "lookup_index (root t') (index - radix_len t' * 4096) (of_nat 0) (mask_at (32 - 32)) =
        of_nat (?L ! (unat index - length ?hits * 4096))"
      using lookup_index_leaf_list [of 32 0 "index - radix_len t' * 4096" v "root t'"] lt rt'
      by (simp add: sub)
    moreover have "index_list (root t') v ! unat index = ?L ! (unat index - length ?hits * 4096)"
      unfolding index_list_def using le by (simp add: nth_append length_blocks)
    ultimately show ?thesis unfolding res using cond by (simp add: rt)
  qed
qed

text \<open>
  The addresses the enumeration is about: those whose leaf is found within their 32 bits.
\<close>

definition indexed_addrs :: "xm_iptree \<Rightarrow> u32 \<Rightarrow> u32 set" where
  "indexed_addrs t v = {a. xm_iptree_lookup_ip t a = v \<and> IS_LEAF (lookup_node (root t) a 0x80000000 32)}"

lemma indexed_addrs_index_list: "indexed_addrs t v = of_nat ` set (index_list (root t) v)"
proof -
  have "a \<in> indexed_addrs t v \<longleftrightarrow> unat a \<in> set (index_list (root t) v)" for a
    using lookup_ip_lookup_node [of "root t" a 0 32] IS_LEAF_lookup_node_32 [of "root t" a v]
    by (auto simp: indexed_addrs_def xm_iptree_lookup_ip_def set_index_list top_mask unat_lt_u32)
  moreover have "a \<in> of_nat ` set (index_list (root t) v) \<longleftrightarrow> unat a \<in> set (index_list (root t) v)" for a :: u32
  proof
    assume "a \<in> of_nat ` set (index_list (root t) v)"
    then show "unat a \<in> set (index_list (root t) v)" by (auto simp: set_index_list)
  next
    assume "unat a \<in> set (index_list (root t) v)"
    then have "of_nat (unat a) \<in> (of_nat :: nat \<Rightarrow> u32) ` set (index_list (root t) v)" by (rule imageI)
    then show "a \<in> of_nat ` set (index_list (root t) v)" by simp
  qed
  ultimately show ?thesis by blast
qed

lemma inj_of_nat_index_list: "inj_on (of_nat :: nat \<Rightarrow> u32) (set (index_list rt v))"
proof (rule inj_onI)
  fix x y
  assume "x \<in> set (index_list rt v)" "y \<in> set (index_list rt v)" and eq: "(of_nat x :: u32) = of_nat y"
  then have "x < 4294967296" "y < 4294967296" by (auto simp: set_index_list)
  then show "x = y" using eq by (metis unat_of_nat_u32)
qed

lemma lookup_index_bij:
  assumes "iptree_inv t"
  shows "bij_betw (\<lambda>i. fst (xm_iptree_lookup_index t (of_nat i) v))
     {..<unat (xm_iptree_count_ips t v)} (indexed_addrs t v)"
proof -
  let ?L = "index_list (root t) v"
  have "bij_betw (\<lambda>i. of_nat (?L ! i) :: u32) {..<length ?L} (of_nat ` set ?L)"
    using bij_betw_trans [OF bij_betw_nth_set [OF distinct_index_list]
        inj_on_imp_bij_betw [OF inj_of_nat_index_list]] by (simp add: comp_def)
  moreover have "fst (xm_iptree_lookup_index t (of_nat i) v) = of_nat (?L ! i)" if "i < length ?L" for i
  proof -
    have "i < 2 ^ 64" using that length_index_list [of "root t" v] by simp
    then have "unat (of_nat i :: u64) = i" by simp
    then show ?thesis using lookup_index_index_list [OF assms, of "of_nat i" v] that by simp
  qed
  ultimately show ?thesis
    unfolding count_ips_index_list [OF assms] indexed_addrs_index_list
    by (subst bij_betw_cong) auto
qed

lemma count_ips_card:
  "iptree_inv t \<Longrightarrow> unat (xm_iptree_count_ips t v) = card (indexed_addrs t v)"
  using bij_betw_same_card [OF lookup_index_bij] by simp

section \<open>Sequences of prefixes\<close>

text \<open>
  The inner nodes a set creates lie strictly above the end of its prefix, so a node becomes
  internal only when a longer prefix below it has been set.
\<close>

lemma lookup_node_merge [simp]:
  "lookup_node (merge_children l r x c) p mk (Suc m) =
     (if p AND mk = 0 then lookup_node l p (drop_bit 1 mk) m else lookup_node r p (drop_bit 1 mk) m)"
  by (simp add: merge_children_def)

lemma IS_LEAF_set_nvalue [simp]: "IS_LEAF (set_nvalue n v) = IS_LEAF n"
  by (cases n) simp_all

lemma merge_not_leaf [simp]: "\<not> IS_LEAF (merge_children l r x c)"
  by (simp add: merge_children_def)

lemma lookup_node_leaf_mono:
  "IS_LEAF (lookup_node n p mk m) \<Longrightarrow> IS_LEAF (lookup_node n p mk (m + k))"
proof (induction n p mk m rule: lookup_node.induct)
  case (1 n p mk)
  then show ?case by (cases n) simp_all
qed auto

lemma set_recurse_internal:
  assumes "m \<le> 256"
    "\<not> IS_LEAF (lookup_node (set_recurse n (push_bit d q) (int m) v) p (mask_at d) k)"
  shows "\<not> IS_LEAF (lookup_node n p (mask_at d) k)
     \<or> k < m \<and> (\<forall>i < k. addr_bit p (d + i) = addr_bit q (d + i))"
  using assms
proof (induction m arbitrary: n d k)
  case 0
  then show ?case by (cases n; cases k) (auto simp: set_recurse_0)
next
  case (Suc m)
  then have m: "m < 256" by simp
  show ?case
  proof (cases k)
    case (Suc j)
    define M where "M \<longleftrightarrow> (\<forall>i < j. addr_bit p (Suc d + i) = addr_bit q (Suc d + i))"
    have IH: "\<not> IS_LEAF (lookup_node (set_recurse n' (push_bit (Suc d) q) (int m) v) p (mask_at (Suc d)) j)
        \<Longrightarrow> \<not> IS_LEAF (lookup_node n' p (mask_at (Suc d)) j) \<or> j < m \<and> M" for n'
      unfolding M_def by (rule Suc.IH) (use m in simp)
    have M: "(\<forall>i < k. addr_bit p (d + i) = addr_bit q (d + i)) \<longleftrightarrow> addr_bit p d = addr_bit q d \<and> M"
      unfolding M_def Suc by (rule all_less_Suc_shift [of j "\<lambda>i. addr_bit p i = addr_bit q i" d])
    show ?thesis
      unfolding M using Suc.prems(2) m IH Suc
      by (cases n) (auto simp: set_recurse_steps simp del: of_nat_Suc split: if_splits)
  qed simp
qed

text \<open>
  A set that ends below depth \<open>k\<close> and changes a value makes the node at depth \<open>k\<close> internal.
\<close>

lemma set_recurse_splits:
  assumes "k < m" "m \<le> 256" "IS_LEAF (lookup_node n p (mask_at d) k)"
    "nvalue (lookup_node n p (mask_at d) k) \<noteq> v"
  shows "\<not> IS_LEAF (lookup_node (set_recurse n (push_bit d p) (int m) v) p (mask_at d) k)"
  using assms
proof (induction m arbitrary: n d k)
  case (Suc m)
  then have m: "m < 256" by simp
  show ?case
  proof (cases k)
    case 0
    then show ?thesis using Suc.prems m
      by (cases n) (auto simp: set_recurse_steps simp del: of_nat_Suc)
  next
    case (Suc j)
    have IH: "IS_LEAF (lookup_node n' p (mask_at (Suc d)) j) \<Longrightarrow> nvalue (lookup_node n' p (mask_at (Suc d)) j) \<noteq> v \<Longrightarrow>
        \<not> IS_LEAF (lookup_node (set_recurse n' (push_bit (Suc d) p) (int m) v) p (mask_at (Suc d)) j)" for n'
      using Suc.IH [of j n' "Suc d"] Suc.prems \<open>k = Suc j\<close> by simp
    show ?thesis using Suc.prems(3,4) m IH \<open>k = Suc j\<close>
      by (cases n) (auto simp: set_recurse_steps simp del: of_nat_Suc)
  qed
qed simp

text \<open>Setting a value never turns an inner node into a leaf.\<close>

lemma set_recurse_leaf_back:
  "IS_LEAF (lookup_node (set_recurse n (push_bit d q) (int m) v) p (mask_at d) k) \<Longrightarrow>
   IS_LEAF (lookup_node n p (mask_at d) k)"
proof (induction k arbitrary: n d m)
  case (0 n d m)
  then show ?case
  proof (cases "m = 0 \<or> 256 < m")
    case False
    then obtain j where j: "m = Suc j" "j < 256" by (cases m) auto
    with 0 show ?thesis by (cases n) (auto simp: j(1) set_recurse_steps simp del: of_nat_Suc split: if_splits)
  qed (auto simp: set_recurse_0 set_recurse_out)
next
  case (Suc k)
  show ?case
  proof (cases "m = 0 \<or> 256 < m")
    case True
    with Suc.prems show ?thesis by (cases n) (auto simp: set_recurse_0 set_recurse_out)
  next
    case False
    then obtain j where j: "m = Suc j" "j < 256" by (cases m) auto
    show ?thesis
      using Suc.prems Suc.IH [where d = "Suc d" and m = j] j(2)
      by (cases n) (auto simp: j(1) set_recurse_steps simp del: of_nat_Suc split: if_splits)
  qed
qed

text \<open>A sequence of additions, and the value the last matching one gives an address.\<close>

type_synonym entry = "u32 \<times> nat \<times> u32"

definition add_entry :: "entry \<Rightarrow> xm_iptree \<Rightarrow> xm_iptree" where
  "add_entry e t = (case e of (p, len, v) \<Rightarrow> xm_iptree_add t p (int len) v)"

lemma add_entry_simp [simp]: "add_entry (p, len, v) t = xm_iptree_add t p (int len) v"
  by (simp add: add_entry_def)

lemma root_add: "root (xm_iptree_add t p len v) = set_recurse (root t) p len v"
  by (simp add: xm_iptree_add_def)

definition entry_match :: "entry \<Rightarrow> u32 \<Rightarrow> bool" where
  "entry_match e a = (case e of (p, len, v) \<Rightarrow> prefix_match p len a)"

text \<open>\<open>covers e e'\<close>: the later entry \<open>e\<close> is a strictly shorter prefix of the earlier \<open>e'\<close>.\<close>

definition covers :: "entry \<Rightarrow> entry \<Rightarrow> bool" where
  "covers e e' = (case (e, e') of ((p, len, v), (p', len', v')) \<Rightarrow> len < len' \<and> prefix_match p len p')"

fun last_match :: "u32 \<Rightarrow> entry list \<Rightarrow> u32 \<Rightarrow> u32" where
  "last_match d [] a = d"
| "last_match d (e # es) a = last_match (if entry_match e a then snd (snd e) else d) es a"

lemma last_match_snoc:
  "last_match d (es @ [e]) a = (if entry_match e a then snd (snd e) else last_match d es a)"
  by (induction es arbitrary: d) auto

lemma fold_add_internal:
  assumes "\<forall>e \<in> set es. fst (snd e) \<le> 256"
    "\<not> IS_LEAF (lookup_node (root (fold add_entry es t)) p 0x80000000 k)"
    "IS_LEAF (root t)"
  shows "\<exists>(q, m, v) \<in> set es. k < m \<and> prefix_match p k q"
  using assms
proof (induction es rule: rev_induct)
  case Nil
  then show ?case by (cases "root t") auto
next
  case (snoc e es)
  obtain q m v where e: "e = (q, m, v)" by (cases e) auto
  let ?T = "root (fold add_entry es t)"
  have "\<not> IS_LEAF (lookup_node (set_recurse ?T (push_bit 0 q) (int m) v) p (mask_at 0) k)"
    using snoc.prems(2) by (simp add: e root_add top_mask)
  then have "\<not> IS_LEAF (lookup_node ?T p (mask_at 0) k) \<or> k < m \<and> prefix_match p k q"
    using set_recurse_internal [of m ?T 0 q v p k] snoc.prems(1) by (auto simp: e prefix_match_def)
  then show ?case
    using snoc.IH snoc.prems by (auto simp: e top_mask)
qed

lemma fold_add_lookup:
  assumes "\<forall>e \<in> set es. fst (snd e) \<le> 256" "sorted_wrt (\<lambda>e' e. \<not> covers e e') es" "IS_LEAF (root t)"
  shows "xm_iptree_lookup_ip (fold add_entry es t) a = last_match (xm_iptree_lookup_ip t a) es a"
  using assms
proof (induction es rule: rev_induct)
  case (snoc e es)
  obtain p m v where e: "e = (p, m, v)" by (cases e) auto
  have "IS_LEAF (lookup_node (root (fold add_entry es t)) p 0x80000000 m)"
  proof (rule ccontr)
    assume "\<not> ?thesis"
    then obtain q k w where "(q, k, w) \<in> set es" "m < k" "prefix_match p m q"
      using fold_add_internal [of es t p m] snoc.prems by auto
    then show False using snoc.prems(2) by (force simp: sorted_wrt_append e covers_def)
  qed
  then show ?case
    using snoc iptree_lookup_add [of m "fold add_entry es t" p v a]
    by (simp add: last_match_snoc e entry_match_def sorted_wrt_append)
qed simp

lemma lookup_node_root_leaf: "IS_LEAF (root t) \<Longrightarrow> lookup_node (root t) p mk m = root t"
  by (cases "root t") simp_all

lemma xm_iptree_create_simps [simp]:
  "root (xm_iptree_create v) = NLeaf v 0"
  "xm_iptree_lookup_ip (xm_iptree_create v) a = v"
  by (simp_all add: xm_iptree_create_def create_leaf_def xm_iptree_lookup_ip_def)

lemma fold_add_inv: "iptree_inv t \<Longrightarrow> iptree_inv (fold add_entry es t)"
  by (induction es arbitrary: t) (auto simp: iptree_inv_add)

lemma fold_add_full_leaf:
  assumes "\<forall>e \<in> set es. fst (snd e) \<le> 256" "IS_LEAF (root t)"
  shows "IS_LEAF (lookup_node (root (fold add_entry es t)) p 0x80000000 256)"
  using fold_add_internal [of es t p 256] assms by fastforce

text \<open>An address that holds a value but is not in the first 32 levels was given it by an entry of
  more than 32 bits.\<close>

lemma host_added:
  assumes "len \<le> 256" "\<not> (prefix_match p 32 a \<and> 32 < len \<and> v = w)"
    "xm_iptree_lookup_ip t a = w \<longrightarrow> IS_LEAF (lookup_node (root t) a 0x80000000 32)"
    "xm_iptree_lookup_ip (xm_iptree_add t p (int len) v) a = w"
  shows "IS_LEAF (lookup_node (root (xm_iptree_add t p (int len) v)) a 0x80000000 32)"
proof (rule ccontr)
  assume "\<not> ?thesis"
  then have "\<not> IS_LEAF (lookup_node (set_recurse (root t) (push_bit 0 p) (int len) v) a (mask_at 0) 32)"
    by (simp add: root_add top_mask)
  from set_recurse_internal [OF assms(1) this]
  have old: "\<not> IS_LEAF (lookup_node (root t) a 0x80000000 32) \<or> 32 < len \<and> prefix_match p 32 a"
    by (auto simp: prefix_match_def top_mask)
  have lk: "xm_iptree_lookup_ip (xm_iptree_add t p (int len) v) a =
      (if prefix_match p len a \<and> IS_LEAF (lookup_node (root t) p 0x80000000 len) then v else xm_iptree_lookup_ip t a)"
    by (rule iptree_lookup_add [OF assms(1)])
  show False
  proof (cases "IS_LEAF (lookup_node (root t) a 0x80000000 32)")
    case True
    then have host: "32 < len" "prefix_match p 32 a" using old by auto
    then have "a = p" by (simp add: prefix_match_32)
    moreover have "IS_LEAF (lookup_node (root t) a 0x80000000 len)"
      using lookup_node_leaf_mono [OF True, of "len - 32"] host(1) by simp
    ultimately have "v = w" using lk assms(4) by (simp add: prefix_match_self)
    then show False using assms(2) host by simp
  next
    case False
    then have new: "prefix_match p len a" "IS_LEAF (lookup_node (root t) p 0x80000000 len)" "v = w"
      using assms(3,4) lk by (auto split: if_splits)
    have "len \<le> 32"
      using new(1,3) assms(2) by (cases "32 < len") (auto simp: prefix_match_def)
    moreover have "IS_LEAF (lookup_node (root t) a 0x80000000 len)"
      using new lookup_node_cong [of len a 0 p "root t"] by (simp add: prefix_match_def top_mask)
    ultimately show False using False lookup_node_leaf_mono [of "root t" a "0x80000000" len "32 - len"] by simp
  qed
qed

lemma fold_add_host:
  assumes "\<forall>e \<in> set es. fst (snd e) \<le> 256" "IS_LEAF (root t)"
    "xm_iptree_lookup_ip (fold add_entry es t) a = w"
    "\<not> IS_LEAF (lookup_node (root (fold add_entry es t)) a 0x80000000 32)"
  shows "\<exists>len > 32. (a, len, w) \<in> set es"
  using assms
proof (induction es rule: rev_induct)
  case Nil
  then show ?case by (cases "root t") auto
next
  case (snoc e es)
  obtain p len v where e: "e = (p, len, v)" by (cases e) auto
  show ?case
  proof (cases "prefix_match p 32 a \<and> 32 < len \<and> v = w")
    case True
    then show ?thesis by (auto simp: e prefix_match_32)
  next
    case False
    then have "\<not> (xm_iptree_lookup_ip (fold add_entry es t) a = w \<longrightarrow>
        IS_LEAF (lookup_node (root (fold add_entry es t)) a 0x80000000 32))"
      using host_added [of len p a v w "fold add_entry es t"] snoc.prems by (auto simp: e)
    then show ?thesis using snoc.IH snoc.prems(1,2) by auto
  qed
qed

text \<open>Host entries add no indexed address.\<close>

lemma indexed_addrs_host:
  assumes "32 < len" "len \<le> 256"
  shows "indexed_addrs (xm_iptree_add t p (int len) v) w \<subseteq> indexed_addrs t w"
proof
  fix a assume a: "a \<in> indexed_addrs (xm_iptree_add t p (int len) v) w"
  then have new: "IS_LEAF (lookup_node (set_recurse (root t) (push_bit 0 p) (int len) v) a (mask_at 0) 32)"
    by (simp add: indexed_addrs_def root_add top_mask)
  then have old: "IS_LEAF (lookup_node (root t) a (mask_at 0) 32)" by (rule set_recurse_leaf_back)
  have lk: "xm_iptree_lookup_ip (xm_iptree_add t p (int len) v) a = w"
    using a by (simp add: indexed_addrs_def)
  have "xm_iptree_lookup_ip t a = w"
  proof (cases "a = p \<and> xm_iptree_lookup_ip t a \<noteq> v")
    case True
    then have "nvalue (lookup_node (root t) p (mask_at 0) 32) \<noteq> v"
      using old lookup_ip_lookup_node [of "root t" a 0 32] by (auto simp: xm_iptree_lookup_ip_def top_mask)
    then show ?thesis
      using set_recurse_splits [of 32 len "root t" p 0 v] assms new old True by simp
  next
    case False
    then show ?thesis
      using lk iptree_lookup_add [of len t p v a] assms by (auto simp: prefix_match_32 split: if_splits)
  qed
  then show "a \<in> indexed_addrs t w" using old by (simp add: indexed_addrs_def top_mask)
qed

lemma indexed_addrs_hosts:
  "\<forall>e \<in> set es. 32 < fst (snd e) \<and> fst (snd e) \<le> 256 \<Longrightarrow>
   indexed_addrs (fold add_entry es t) w \<subseteq> indexed_addrs t w"
proof (induction es arbitrary: t)
  case (Cons e es)
  have "indexed_addrs (fold add_entry es (add_entry e t)) w \<subseteq> indexed_addrs (add_entry e t) w"
    using Cons by simp
  also have "\<dots> \<subseteq> indexed_addrs t w"
    using Cons.prems by (cases e) (simp add: indexed_addrs_host)
  finally show ?case by simp
qed simp

lemma indexed_addrs_paint [simp]:
  assumes "iptree_inv t"
  shows "indexed_addrs (xm_iptree_paint_value t v) w = indexed_addrs t w"
proof -
  have len: "length (radix t) = 2 ^ RADIX_LENGTH" using assms by (simp add: iptree_inv_def)
  have "set (index_list (root (xm_iptree_paint_value t v)) w) = set (index_list (root t) w)"
    by (simp add: paint_value_fields(2) [OF len] index_list_def)
  then show ?thesis by (simp add: indexed_addrs_index_list)
qed

lemma lookup_index_painted:
  "painted t \<Longrightarrow> paint_value t = v \<Longrightarrow> snd (xm_iptree_lookup_index t i v) = t"
  by (simp add: xm_iptree_lookup_index_def Let_def)

section \<open>Properties\<close>

text \<open>Property C8. The index lookup enumerates the addresses that have a value: for indexes
  below the count it is a bijection onto the addresses whose lookup gives the value and whose
  leaf is reached within the 32 address bits, whatever the state of the paint.\<close>

theorem iptree_enumeration:
  assumes "iptree_inv t"
  shows "bij_betw (\<lambda>i. fst (xm_iptree_lookup_index t (of_nat i) v))
     {..<unat (xm_iptree_count_ips t v)}
     {a. xm_iptree_lookup_ip t a = v \<and> IS_LEAF (lookup_node (root t) a 0x80000000 32)}"
  using lookup_index_bij [OF assms, of v] by (simp only: indexed_addrs_def)

theorem iptree_enumeration_witness:
  "bij_betw (\<lambda>i. fst (xm_iptree_lookup_index (xm_iptree_add (xm_iptree_create 0) 0x0A000000 8 1) (of_nat i) 1))
     {..<unat (xm_iptree_count_ips (xm_iptree_add (xm_iptree_create 0) 0x0A000000 8 1) 1)}
     {a. xm_iptree_lookup_ip (xm_iptree_add (xm_iptree_create 0) 0x0A000000 8 1) a = 1
       \<and> IS_LEAF (lookup_node (root (xm_iptree_add (xm_iptree_create 0) 0x0A000000 8 1)) a 0x80000000 32)}"
  by (rule iptree_enumeration) (intro iptree_inv_add iptree_inv_create)

text \<open>Adding a prefix changes the value of exactly the addresses under it, when
  the node at the end of the prefix is still a leaf; when that node has become internal, no
  lookup changes.\<close>

theorem iptree_add_lookup:
  assumes "len \<le> 256"
  shows "xm_iptree_lookup_ip (xm_iptree_add t p (int len) v) a =
     (if prefix_match p len a \<and> IS_LEAF (lookup_node (root t) p 0x80000000 len)
      then v else xm_iptree_lookup_ip t a)"
  by (rule iptree_lookup_add [OF assms])

theorem iptree_add_lookup_witness:
  "xm_iptree_lookup_ip (xm_iptree_add (xm_iptree_create 1) 0x0A000000 8 0) 0x0A010203 = 0"
proof -
  have "prefix_match 0x0A000000 8 0x0A010203" by (simp add: prefix_match_code)
  then show ?thesis
    using iptree_add_lookup [of 8 "xm_iptree_create 1" "0x0A000000" 0 "0x0A010203"] by simp
qed

text \<open>A prefix added after a longer one inside it that carries another value is
  ignored: the lookups stay as they were, although the later prefix was meant to overwrite
  everything below it.\<close>

theorem covering_prefix_ignored:
  assumes "len < len'" "len' \<le> 256" "prefix_match p len q"
    "IS_LEAF (lookup_node (root t) q 0x80000000 len)"
    "nvalue (lookup_node (root t) q 0x80000000 len) \<noteq> w"
  shows "xm_iptree_lookup_ip (xm_iptree_add (xm_iptree_add t q (int len') w) p (int len) v) a =
     xm_iptree_lookup_ip (xm_iptree_add t q (int len') w) a"
proof -
  have "lookup_node (root (xm_iptree_add t q (int len') w)) p (mask_at 0) len =
      lookup_node (root (xm_iptree_add t q (int len') w)) q (mask_at 0) len"
    using assms(3) by (intro lookup_node_cong) (simp add: prefix_match_def)
  moreover have "\<not> IS_LEAF (lookup_node (root (xm_iptree_add t q (int len') w)) q (mask_at 0) len)"
    using set_recurse_splits [of len len' "root t" q 0 w] assms by (simp add: root_add top_mask)
  ultimately show ?thesis
    using iptree_lookup_add [of len "xm_iptree_add t q (int len') w" p v a] assms(1,2)
    by (simp add: top_mask)
qed

theorem covering_prefix_ignored_witness:
  "xm_iptree_lookup_ip (xm_iptree_add (xm_iptree_add (xm_iptree_create 1) 0x0A010000 16 0) 0x0A000000 8 0) 0x0A020001 = 1"
proof -
  have m: "prefix_match 0x0A000000 8 0x0A010000"
    by (simp add: prefix_match_code)
  have n: "\<not> prefix_match 0x0A010000 16 0x0A020001" by (simp add: prefix_match_code)
  have "xm_iptree_lookup_ip (xm_iptree_add (xm_iptree_create 1) 0x0A010000 (int 16) 0) 0x0A020001 = 1"
    using iptree_lookup_add [of 16 "xm_iptree_create 1" "0x0A010000" 0 "0x0A020001"] n by simp
  then show ?thesis
    using covering_prefix_ignored [of 8 16 "0x0A000000" "0x0A010000" "xm_iptree_create 1" 0 0 "0x0A020001"] m
    by simp
qed

text \<open>Property C14. When no added prefix strictly contains an earlier one, every address has
  the value of the last prefix in the sequence that contains it.\<close>

theorem iptree_last_match_wins:
  assumes "\<forall>e \<in> set es. fst (snd e) \<le> 256" "sorted_wrt (\<lambda>e' e. \<not> covers e e') es"
  shows "xm_iptree_lookup_ip (fold add_entry es (xm_iptree_create d)) a = last_match d es a"
  using fold_add_lookup [OF assms, of "xm_iptree_create d" a] by simp

theorem iptree_last_match_wins_witness:
  "xm_iptree_lookup_ip (fold add_entry [(0x0A000000, 8, 0), (0x0A000000, 16, 1)] (xm_iptree_create 1)) 0x0A000005 =
     last_match 1 [(0x0A000000, 8, 0), (0x0A000000, 16, 1)] 0x0A000005"
  by (rule iptree_last_match_wins) (auto simp: covers_def)

text \<open>Property C17. The count of a value does not depend on whether the tree is painted, and
  it is the number of the addresses that the index lookup enumerates.\<close>

theorem iptree_count:
  assumes "iptree_inv t"
  shows "xm_iptree_count_ips (xm_iptree_paint_value t w) v = xm_iptree_count_ips t v \<and>
    unat (xm_iptree_count_ips t v) =
      card {a. xm_iptree_lookup_ip t a = v \<and> IS_LEAF (lookup_node (root t) a 0x80000000 32)}"
proof
  have "root (xm_iptree_paint_value t w) = paint_node (root t) w (push_bit 32 1)"
    using assms by (simp add: paint_value_fields(2) iptree_inv_def)
  then have "index_list (root (xm_iptree_paint_value t w)) v = index_list (root t) v"
    by (simp add: index_list_def)
  then show "xm_iptree_count_ips (xm_iptree_paint_value t w) v = xm_iptree_count_ips t v"
    using count_ips_index_list [OF assms, of v] count_ips_index_list [OF iptree_inv_paint [OF assms], of w v]
    by (simp add: word_unat_eq_iff)
  show "unat (xm_iptree_count_ips t v) =
      card {a. xm_iptree_lookup_ip t a = v \<and> IS_LEAF (lookup_node (root t) a 0x80000000 32)}"
    using count_ips_card [OF assms, of v] by (simp only: indexed_addrs_def)
qed

theorem iptree_count_witness:
  "xm_iptree_count_ips (xm_iptree_paint_value (xm_iptree_create 1) 1) 1 = 0x100000000"
  using iptree_count [OF iptree_inv_create, of 1 1 1]
  by (simp add: xm_iptree_count_ips_def xm_iptree_create_def create_leaf_def Let_def push_bit_of_1)

text \<open>A host entry, a prefix longer than 32 bits, is never enumerated: after
  adding it on top of another value, the lookup gives the new value, but the address is
  outside the set of indexed addresses of every value.\<close>

theorem host_prefix_not_indexed:
  assumes "32 < len" "len \<le> 256" "iptree_inv t"
    "IS_LEAF (lookup_node (root t) a 0x80000000 32)" "xm_iptree_lookup_ip t a \<noteq> v"
  shows "xm_iptree_lookup_ip (xm_iptree_add t a (int len) v) a = v \<and>
    a \<notin> (\<lambda>i. fst (xm_iptree_lookup_index (xm_iptree_add t a (int len) v) (of_nat i) w)) `
      {..<unat (xm_iptree_count_ips (xm_iptree_add t a (int len) v) w)}"
proof
  let ?t = "xm_iptree_add t a (int len) v"
  have val: "nvalue (lookup_node (root t) a (mask_at 0) 32) \<noteq> v"
    using assms(4,5) lookup_ip_lookup_node [of "root t" a 0 32]
    by (simp add: xm_iptree_lookup_ip_def top_mask)
  have leaf: "IS_LEAF (lookup_node (root t) a (mask_at 0) (32 + k))" for k
    using assms(4) by (intro lookup_node_leaf_mono) (simp add: top_mask)
  show "xm_iptree_lookup_ip ?t a = v"
    using iptree_lookup_add [of len t a v a] assms(1,2) leaf [of "len - 32"] by (simp add: top_mask)
  have "\<not> IS_LEAF (lookup_node (root ?t) a (mask_at 0) 32)"
    using set_recurse_splits [of 32 len "root t" a 0 v] assms(1,2) leaf [of 0] val
    by (simp add: root_add)
  then have "a \<notin> indexed_addrs ?t w" by (simp add: indexed_addrs_def top_mask)
  then show "a \<notin> (\<lambda>i. fst (xm_iptree_lookup_index ?t (of_nat i) w)) `
      {..<unat (xm_iptree_count_ips ?t w)}"
    using bij_betw_imp_surj_on [OF lookup_index_bij [OF iptree_inv_add [OF assms(3)], of a "int len" v w]]
    by simp
qed

theorem host_prefix_not_indexed_witness:
  "xm_iptree_lookup_ip (xm_iptree_add (xm_iptree_create 0) 0x01020304 256 1) 0x01020304 = 1 \<and>
    0x01020304 \<notin> (\<lambda>i. fst (xm_iptree_lookup_index (xm_iptree_add (xm_iptree_create 0) 0x01020304 256 1) (of_nat i) 1)) `
      {..<unat (xm_iptree_count_ips (xm_iptree_add (xm_iptree_create 0) 0x01020304 256 1) 1)}"
  using host_prefix_not_indexed [of 256 "xm_iptree_create 0" "0x01020304" 1 1] iptree_inv_create by simp

end

