(* ===== verification/Libc.thy ===== *)
theory Libc
  imports Prelude
begin

text \<open>
  The C standard library functions on strings and files that the sources call, as functions
  on HOL strings: a C string is the list of its characters before the terminating NUL.
  Name resolution (\<open>inet_aton\<close>, \<open>inet_addr\<close>, \<open>getaddrinfo\<close>) and the contents of files are
  outside the program; they are the fields of the record \<open>environment\<close>, an argument of the
  functions that use them.
\<close>

record environment =
  inet_aton :: "string \<Rightarrow> u32 option"
  getaddrinfo :: "string \<Rightarrow> (nat \<times> u32) list option"
  fopen :: "string \<Rightarrow> string option"

text \<open>\<open>AF_INET\<close> of the Linux headers.\<close>

definition AF_INET :: nat where
  "AF_INET = 2"

text \<open>\<open>inet_addr\<close> is \<open>inet_aton\<close> with the value \<open>INADDR_NONE\<close> for invalid text.\<close>

definition inet_addr :: "environment \<Rightarrow> string \<Rightarrow> u32" where
  "inet_addr env s = (case inet_aton env s of Some a \<Rightarrow> a | None \<Rightarrow> 0xFFFFFFFF)"

section \<open>Characters\<close>

definition isspace :: "char \<Rightarrow> bool" where
  "isspace c \<longleftrightarrow> (let n = of_char c :: nat in n = 32 \<or> (9 \<le> n \<and> n \<le> 13))"

definition digit_of :: "char \<Rightarrow> nat option" where
  "digit_of c = (let n = of_char c :: nat in
     if 48 \<le> n \<and> n \<le> 57 then Some (n - 48)
     else if 97 \<le> n \<and> n \<le> 122 then Some (n - 87)
     else if 65 \<le> n \<and> n \<le> 90 then Some (n - 55) else None)"

definition is_digit :: "nat \<Rightarrow> char \<Rightarrow> bool" where
  "is_digit base c \<longleftrightarrow> (case digit_of c of Some d \<Rightarrow> d < base | None \<Rightarrow> False)"

section \<open>Strings\<close>

definition c_str :: "string \<Rightarrow> string" where
  "c_str s = takeWhile (\<lambda>c. c \<noteq> CHR 0x00) s"

text \<open>Overwriting the first occurrence of a character with NUL: the text before it, and the
  text after it when it occurs (\<open>strchr\<close>).\<close>

definition cut_at :: "char \<Rightarrow> string \<Rightarrow> string \<times> string option" where
  "cut_at c s = (takeWhile (\<lambda>x. x \<noteq> c) s,
     (case dropWhile (\<lambda>x. x \<noteq> c) s of [] \<Rightarrow> None | _ # r \<Rightarrow> Some r))"

text \<open>
  \<open>strtol\<close>: the value clamped to 64 bits, the unparsed rest, and whether \<open>errno\<close> is set to
  \<open>ERANGE\<close>.  The rest is the whole text when there is no digit.
\<close>

definition digits_value :: "nat \<Rightarrow> string \<Rightarrow> nat" where
  "digits_value base ds = foldl (\<lambda>n c. n * base + (case digit_of c of Some d \<Rightarrow> d | None \<Rightarrow> 0)) 0 ds"

definition strip_0x :: "nat \<Rightarrow> string \<Rightarrow> string" where
  "strip_0x base s = (case s of z # x # h # r \<Rightarrow>
       if base = 16 \<and> z = CHR ''0'' \<and> (x = CHR ''x'' \<or> x = CHR ''X'') \<and> is_digit 16 h
       then h # r else s | _ \<Rightarrow> s)"

definition strtol :: "nat \<Rightarrow> string \<Rightarrow> int \<times> string \<times> bool" where
  "strtol base s =
     (let s1 = dropWhile isspace s;
          neg = (s1 \<noteq> [] \<and> hd s1 = CHR ''-'');
          s2 = (if s1 \<noteq> [] \<and> (hd s1 = CHR ''-'' \<or> hd s1 = CHR ''+'') then tl s1 else s1);
          s3 = strip_0x base s2;
          ds = takeWhile (is_digit base) s3;
          n = (if neg then - int (digits_value base ds) else int (digits_value base ds))
      in if ds = [] then (0, s, False)
         else if n > 2 ^ 63 - 1 then (2 ^ 63 - 1, drop (length ds) s3, True)
         else if n < - (2 ^ 63) then (- (2 ^ 63), drop (length ds) s3, True)
         else (n, drop (length ds) s3, False))"

text \<open>Assigning a \<open>long\<close> to an \<open>int\<close> keeps the low 32 bits.\<close>

definition to_int :: "int \<Rightarrow> int" where
  "to_int n = sint (word_of_int n :: 32 word)"

definition atoi :: "string \<Rightarrow> int" where
  "atoi s = to_int (fst (strtol 10 s))"

text \<open>\<open>sscanf(s, "%<w>s", buf)\<close>: \<open>None\<close> is \<open>EOF\<close>, otherwise the characters stored before the
  terminating NUL.\<close>

definition sscanf_word :: "nat \<Rightarrow> string \<Rightarrow> string option" where
  "sscanf_word w s = (let r = dropWhile isspace s in
     if r = [] then None else Some (take w (takeWhile (\<lambda>c. \<not> isspace c) r)))"

section \<open>Files\<close>

text \<open>\<open>fgets\<close> with a buffer of \<open>n + 1\<close> bytes: up to \<open>n\<close> characters, through the first newline.\<close>

fun fgets :: "nat \<Rightarrow> string \<Rightarrow> string \<times> string" where
  "fgets 0 s = ([], s)"
| "fgets (Suc n) [] = ([], [])"
| "fgets (Suc n) (c # s) =
     (if c = CHR 0x0A then ([c], s) else (let (l, r) = fgets n s in (c # l, r)))"

lemma fgets_append: "fst (fgets n s) @ snd (fgets n s) = s"
  by (induction n s rule: fgets.induct) (auto simp: case_prod_beta Let_def)

lemma length_fgets: "length (fst (fgets n s)) \<le> n"
  by (induction n s rule: fgets.induct) (auto simp: case_prod_beta Let_def)

lemma fgets_shorter:
  assumes "s \<noteq> []" shows "length (snd (fgets (Suc n) s)) < length s"
proof -
  obtain c r where s: "s = c # r" using assms by (cases s) auto
  have "length (snd (fgets n r)) \<le> length r"
    using arg_cong [OF fgets_append [of n r], of length] by simp
  then show ?thesis by (auto simp: s case_prod_beta Let_def)
qed

text \<open>The strings that a loop over \<open>fgets\<close> puts into the buffer, one per iteration.\<close>

function fgets_loop :: "nat \<Rightarrow> string \<Rightarrow> string list" where
  "fgets_loop n s = (if s = [] then [] else
     c_str (fst (fgets (Suc n) s)) # fgets_loop n (snd (fgets (Suc n) s)))"
  by pat_completeness auto
termination
  by (relation "measure (\<lambda>(n, s). length s)") (auto simp: fgets_shorter)

declare fgets_loop.simps [simp del]

lemma fgets_loop_bound: "l \<in> set (fgets_loop n s) \<Longrightarrow> length l \<le> Suc n"
proof (induction n s rule: fgets_loop.induct)
  case (1 n s)
  have "length (c_str (fst (fgets (Suc n) s))) \<le> Suc n"
    unfolding c_str_def using length_takeWhile_le length_fgets by (rule order_trans)
  with 1 show ?case by (subst (asm) (2) fgets_loop.simps) (auto split: if_splits)
qed

lemma sscanf_word_bound: "sscanf_word w s = Some t \<Longrightarrow> length t \<le> w"
  by (auto simp: sscanf_word_def Let_def split: if_splits)

lemma to_int_small: "- (2 ^ 31) \<le> n \<Longrightarrow> n < 2 ^ 31 \<Longrightarrow> to_int n = n"
  by (simp add: to_int_def signed_of_int signed_take_bit_int_eq_self)

end
