(* ===== verification/Wblist.thy ===== *)
theory Wblist
  imports Iptree Libc
begin

text \<open>
  The target list of \<open>src/xm_wblist.c\<close>: a prefix tree built from whitelist and blacklist
  files and entries, and the index lookup that the shards draw their targets from.

  Addresses are in network byte order outside the module and in host order in the tree.
  The definitions follow the C functions; a tree that the C code changes in place is
  returned.  Entry strings are values here: the C code also cuts them at the slash.
\<close>

unbundle bit_operations_syntax

section \<open>Operations\<close>

definition ADDR_DISALLOWED :: u32 where "ADDR_DISALLOWED = 0"
definition ADDR_ALLOWED :: u32 where "ADDR_ALLOWED = 1"

record xm_wblist =
  wb_iptree :: xm_iptree

definition xm_wblist_lookup_index :: "xm_wblist \<Rightarrow> u64 \<Rightarrow> u32 \<times> xm_wblist" where
  "xm_wblist_lookup_index wblist index =
     (let (a, t) = xm_iptree_lookup_index (wb_iptree wblist) index ADDR_ALLOWED
      in (ntohl a, wblist\<lparr>wb_iptree := t\<rparr>))"

definition xm_wblist_is_allowed :: "xm_wblist \<Rightarrow> u32 \<Rightarrow> bool" where
  "xm_wblist_is_allowed wblist s_addr \<longleftrightarrow>
     xm_iptree_lookup_ip (wb_iptree wblist) (ntohl s_addr) = ADDR_ALLOWED"

definition add_iptree :: "xm_iptree \<Rightarrow> u32 \<Rightarrow> int \<Rightarrow> u32 \<Rightarrow> xm_iptree" where
  "add_iptree t addr prefix_len value = xm_iptree_add t (ntohl addr) prefix_len value"

definition xm_blacklist_prefix :: "environment \<Rightarrow> xm_wblist \<Rightarrow> string \<Rightarrow> int \<Rightarrow> xm_wblist" where
  "xm_blacklist_prefix env wblist ip prefix_len =
     wblist\<lparr>wb_iptree := add_iptree (wb_iptree wblist) (inet_addr env ip) prefix_len ADDR_DISALLOWED\<rparr>"

definition xm_whitelist_prefix :: "environment \<Rightarrow> xm_wblist \<Rightarrow> string \<Rightarrow> int \<Rightarrow> xm_wblist" where
  "xm_whitelist_prefix env wblist ip prefix_len =
     wblist\<lparr>wb_iptree := add_iptree (wb_iptree wblist) (inet_addr env ip) prefix_len ADDR_ALLOWED\<rparr>"

text \<open>The prefix length of an entry: \<open>None\<close> is the error return for an invalid one.\<close>

definition parse_prefix_len :: "string option \<Rightarrow> int option" where
  "parse_prefix_len slash =
     (case slash of None \<Rightarrow> Some 256
      | Some len \<Rightarrow>
          let (v, end, erange) = strtol 10 len; prefix_len = to_int v
          in if end = len \<or> erange \<or> prefix_len < 0 \<or> prefix_len > 256 then None
             else Some prefix_len)"

text \<open>The loop over the resolved addresses.\<close>

fun add_addrinfo :: "xm_iptree \<Rightarrow> int \<Rightarrow> u32 \<Rightarrow> (nat \<times> u32) list \<Rightarrow> int \<Rightarrow> int \<times> xm_iptree" where
  "add_addrinfo t prefix_len value [] ret = (ret, t)"
| "add_addrinfo t prefix_len value ((family, addr) # res) ret =
     (if family \<noteq> AF_INET then add_addrinfo t prefix_len value res ret
      else add_addrinfo (add_iptree t addr prefix_len value) prefix_len value res 0)"

definition init_from_string :: "environment \<Rightarrow> xm_iptree \<Rightarrow> string \<Rightarrow> u32 \<Rightarrow> int \<times> xm_iptree" where
  "init_from_string env t s value =
     (let (ip, slash) = cut_at CHR ''/'' s
      in case parse_prefix_len slash of
           None \<Rightarrow> (-1, t)
         | Some prefix_len \<Rightarrow>
             (case inet_aton env ip of
                None \<Rightarrow> (case getaddrinfo env ip of
                           None \<Rightarrow> (-1, t)
                         | Some res \<Rightarrow> add_addrinfo t prefix_len value res (-1))
              | Some addr \<Rightarrow> (0, add_iptree t addr prefix_len value)))"

text \<open>
  One line of a list file.  \<open>sscanf\<close> stores up to 256 characters and a NUL into the 256
  bytes of \<open>ip\<close>: \<open>None\<close> is the write past its end.
\<close>

definition file_line :: "environment \<Rightarrow> u32 \<Rightarrow> string \<Rightarrow> xm_iptree \<Rightarrow> xm_iptree option" where
  "file_line env value line t =
     (case sscanf_word 256 (fst (cut_at CHR ''#'' line)) of
        None \<Rightarrow> Some t
      | Some ip \<Rightarrow> if length ip + 1 > 256 then None
                   else Some (snd (init_from_string env t ip value)))"

fun file_lines :: "environment \<Rightarrow> u32 \<Rightarrow> string list \<Rightarrow> xm_iptree \<Rightarrow> xm_iptree option" where
  "file_lines env value [] t = Some t"
| "file_lines env value (l # ls) t =
     (case file_line env value l t of None \<Rightarrow> None | Some t' \<Rightarrow> file_lines env value ls t')"

definition init_from_file :: "environment \<Rightarrow> xm_iptree \<Rightarrow> string \<Rightarrow> u32 \<Rightarrow> (int \<times> xm_iptree) option" where
  "init_from_file env t file value =
     (case fopen env file of
        None \<Rightarrow> Some (-1, t)
      | Some content \<Rightarrow>
          (case file_lines env value (fgets_loop 998 content) t of
             None \<Rightarrow> None | Some t' \<Rightarrow> Some (0, t')))"

definition init_from_array :: "environment \<Rightarrow> xm_iptree \<Rightarrow> string list \<Rightarrow> u32 \<Rightarrow> xm_iptree" where
  "init_from_array env t cidrs value =
     fold (\<lambda>s t. snd (init_from_string env t s value)) cidrs t"

definition xm_wblist_count_allowed :: "xm_wblist \<Rightarrow> u64" where
  "xm_wblist_count_allowed wblist = xm_iptree_count_ips (wb_iptree wblist) ADDR_ALLOWED"

definition xm_wblist_count_not_allowed :: "xm_wblist \<Rightarrow> u64" where
  "xm_wblist_count_not_allowed wblist = xm_iptree_count_ips (wb_iptree wblist) ADDR_DISALLOWED"

definition xm_wblist_ip_to_index :: "xm_wblist \<Rightarrow> u32 \<Rightarrow> u32" where
  "xm_wblist_ip_to_index wblist ip = xm_iptree_lookup_ip (wb_iptree wblist) (ntohl ip)"

text \<open>
  The results of \<open>xm_wblist_create\<close>: \<open>NULL\<close> when no address is allowed, and the write past
  the end of the line buffer.
\<close>

datatype wblist_error = NoneAllowed | BufferOverflow

definition init_optional_file ::
  "environment \<Rightarrow> string option \<Rightarrow> u32 \<Rightarrow> xm_iptree \<Rightarrow> xm_iptree option" where
  "init_optional_file env file value t =
     (case file of None \<Rightarrow> Some t
      | Some f \<Rightarrow> map_option snd (init_from_file env t f value))"

definition init_optional_array ::
  "environment \<Rightarrow> string list option \<Rightarrow> u32 \<Rightarrow> xm_iptree \<Rightarrow> xm_iptree" where
  "init_optional_array env entries value t =
     (case entries of None \<Rightarrow> t | Some es \<Rightarrow> init_from_array env t es value)"

text \<open>The entry arrays carry their lengths; \<open>None\<close> is a \<open>NULL\<close> array of length 0.\<close>

definition entries_len :: "string list option \<Rightarrow> nat" where
  "entries_len entries = (case entries of None \<Rightarrow> 0 | Some es \<Rightarrow> length es)"

definition whitelist_tree ::
  "environment \<Rightarrow> string option \<Rightarrow> string list option \<Rightarrow> xm_iptree option" where
  "whitelist_tree env file entries =
     (if file \<noteq> None \<or> entries_len entries > 0
      then map_option (init_optional_array env entries ADDR_ALLOWED)
             (init_optional_file env file ADDR_ALLOWED (xm_iptree_create ADDR_DISALLOWED))
      else Some (xm_iptree_create ADDR_ALLOWED))"

definition blacklist_tree ::
  "environment \<Rightarrow> string option \<Rightarrow> string list option \<Rightarrow> xm_iptree \<Rightarrow> xm_iptree option" where
  "blacklist_tree env file entries t =
     map_option (init_optional_array env entries ADDR_DISALLOWED)
       (init_optional_file env file ADDR_DISALLOWED t)"

definition xm_wblist_create ::
  "environment \<Rightarrow> string option \<Rightarrow> string option \<Rightarrow> string list option \<Rightarrow> string list option
   \<Rightarrow> wblist_error + xm_wblist" where
  "xm_wblist_create env whitelist_filename blacklist_filename whitelist_entries blacklist_entries =
     (case Option.bind (whitelist_tree env whitelist_filename whitelist_entries)
             (blacklist_tree env blacklist_filename blacklist_entries) of
        None \<Rightarrow> Inl BufferOverflow
      | Some t \<Rightarrow>
          let t' = snd (init_from_string env t ''0.0.0.0'' ADDR_DISALLOWED);
              wblist = \<lparr>wb_iptree = xm_iptree_paint_value t' ADDR_ALLOWED\<rparr>
          in if xm_wblist_count_allowed wblist = 0 then Inl NoneAllowed else Inr wblist)"

section \<open>The entries a list consists of\<close>

text \<open>
  The specification side: the prefixes an entry string stands for, the words of a list file,
  and the sequence of additions a call of \<open>xm_wblist_create\<close> performs.
\<close>

definition resolve :: "environment \<Rightarrow> string \<Rightarrow> (u32 \<times> nat) list" where
  "resolve env s =
     (let (ip, slash) = cut_at CHR ''/'' s
      in case parse_prefix_len slash of
           None \<Rightarrow> []
         | Some n \<Rightarrow>
             (case inet_aton env ip of
                Some a \<Rightarrow> [(ntohl a, nat n)]
              | None \<Rightarrow> (case getaddrinfo env ip of
                   None \<Rightarrow> []
                 | Some res \<Rightarrow> map (\<lambda>fa. (ntohl (snd fa), nat n)) (filter (\<lambda>fa. fst fa = AF_INET) res))))"

definition entries_of :: "environment \<Rightarrow> u32 \<Rightarrow> string list \<Rightarrow> entry list" where
  "entries_of env v ss = map (\<lambda>pn. (fst pn, snd pn, v)) (concat (map (resolve env) ss))"

definition file_words :: "string \<Rightarrow> string list" where
  "file_words content =
     List.map_filter (\<lambda>l. sscanf_word 256 (fst (cut_at CHR ''#'' l))) (fgets_loop 998 content)"

definition words_of :: "environment \<Rightarrow> string option \<Rightarrow> string list" where
  "words_of env file =
     (case Option.bind file (fopen env) of None \<Rightarrow> [] | Some content \<Rightarrow> file_words content)"

definition array_of :: "string list option \<Rightarrow> string list" where
  "array_of entries = (case entries of None \<Rightarrow> [] | Some es \<Rightarrow> es)"

definition list_entries ::
  "environment \<Rightarrow> string option \<Rightarrow> string option \<Rightarrow> string list option \<Rightarrow> string list option \<Rightarrow> entry list" where
  "list_entries env wfile bfile we be =
     entries_of env ADDR_ALLOWED (words_of env wfile @ array_of we)
     @ entries_of env ADDR_DISALLOWED (words_of env bfile @ array_of be @ [''0.0.0.0''])"

definition list_default :: "string option \<Rightarrow> string list option \<Rightarrow> u32" where
  "list_default wfile we = (if wfile \<noteq> None \<or> array_of we \<noteq> [] then ADDR_DISALLOWED else ADDR_ALLOWED)"

lemma parse_prefix_len_range: "parse_prefix_len slash = Some n \<Longrightarrow> 0 \<le> n \<and> n \<le> 256"
  by (auto simp: parse_prefix_len_def Let_def split: option.splits prod.splits if_splits)

text \<open>Unfolded forms of an entry string that has a valid prefix length.\<close>

lemma resolve_simps:
  "parse_prefix_len (snd (cut_at CHR ''/'' s)) = None \<Longrightarrow> resolve env s = []"
  "parse_prefix_len (snd (cut_at CHR ''/'' s)) = Some n \<Longrightarrow>
     inet_aton env (fst (cut_at CHR ''/'' s)) = Some a \<Longrightarrow> resolve env s = [(ntohl a, nat n)]"
  "parse_prefix_len (snd (cut_at CHR ''/'' s)) = Some n \<Longrightarrow>
     inet_aton env (fst (cut_at CHR ''/'' s)) = None \<Longrightarrow>
     getaddrinfo env (fst (cut_at CHR ''/'' s)) = None \<Longrightarrow> resolve env s = []"
  "parse_prefix_len (snd (cut_at CHR ''/'' s)) = Some n \<Longrightarrow>
     inet_aton env (fst (cut_at CHR ''/'' s)) = None \<Longrightarrow>
     getaddrinfo env (fst (cut_at CHR ''/'' s)) = Some res \<Longrightarrow>
     resolve env s = map (\<lambda>fa. (ntohl (snd fa), nat n)) (filter (\<lambda>fa. fst fa = AF_INET) res)"
  by (simp_all add: resolve_def case_prod_beta)

lemma init_from_string_simps:
  "parse_prefix_len (snd (cut_at CHR ''/'' s)) = None \<Longrightarrow> init_from_string env t s v = (-1, t)"
  "parse_prefix_len (snd (cut_at CHR ''/'' s)) = Some n \<Longrightarrow>
     inet_aton env (fst (cut_at CHR ''/'' s)) = Some a \<Longrightarrow>
     init_from_string env t s v = (0, add_iptree t a n v)"
  "parse_prefix_len (snd (cut_at CHR ''/'' s)) = Some n \<Longrightarrow>
     inet_aton env (fst (cut_at CHR ''/'' s)) = None \<Longrightarrow>
     getaddrinfo env (fst (cut_at CHR ''/'' s)) = None \<Longrightarrow> init_from_string env t s v = (-1, t)"
  "parse_prefix_len (snd (cut_at CHR ''/'' s)) = Some n \<Longrightarrow>
     inet_aton env (fst (cut_at CHR ''/'' s)) = None \<Longrightarrow>
     getaddrinfo env (fst (cut_at CHR ''/'' s)) = Some res \<Longrightarrow>
     init_from_string env t s v = add_addrinfo t n v res (-1)"
  by (simp_all add: init_from_string_def case_prod_beta)

lemma string_cases:
  obtains "parse_prefix_len (snd (cut_at CHR ''/'' s)) = None"
  | n a where "parse_prefix_len (snd (cut_at CHR ''/'' s)) = Some n"
      "inet_aton env (fst (cut_at CHR ''/'' s)) = Some a"
  | n where "parse_prefix_len (snd (cut_at CHR ''/'' s)) = Some n"
      "inet_aton env (fst (cut_at CHR ''/'' s)) = None"
      "getaddrinfo env (fst (cut_at CHR ''/'' s)) = None"
  | n res where "parse_prefix_len (snd (cut_at CHR ''/'' s)) = Some n"
      "inet_aton env (fst (cut_at CHR ''/'' s)) = None"
      "getaddrinfo env (fst (cut_at CHR ''/'' s)) = Some res"
  by (meson not_None_eq)

lemma resolve_range: "pn \<in> set (resolve env s) \<Longrightarrow> snd pn \<le> 256"
  by (rule string_cases [where s = s and env = env]) (auto simp: resolve_simps dest!: parse_prefix_len_range)

lemma entries_of_range: "e \<in> set (entries_of env v ss) \<Longrightarrow> fst (snd e) \<le> 256"
  by (auto simp: entries_of_def dest: resolve_range)

lemma entries_of_append: "entries_of env v (xs @ ys) = entries_of env v xs @ entries_of env v ys"
  by (simp add: entries_of_def)

lemma entries_of_Cons: "entries_of env v (x # ys) = entries_of env v [x] @ entries_of env v ys"
  by (simp add: entries_of_def)

lemma entries_of_Nil [simp]: "entries_of env v [] = []"
  by (simp add: entries_of_def)

lemma add_addrinfo_fold:
  "0 \<le> n \<Longrightarrow> snd (add_addrinfo t n v res ret) =
     fold add_entry (map (\<lambda>fa. (ntohl (snd fa), nat n, v)) (filter (\<lambda>fa. fst fa = AF_INET) res)) t"
  by (induction res arbitrary: t ret) (auto simp: add_iptree_def)

lemma init_from_string_fold:
  "snd (init_from_string env t s v) = fold add_entry (entries_of env v [s]) t"
  by (rule string_cases [where s = s and env = env])
    (auto simp: resolve_simps init_from_string_simps entries_of_def o_def add_iptree_def
      add_addrinfo_fold dest!: parse_prefix_len_range)

lemma init_from_array_fold: "init_from_array env t ss v = fold add_entry (entries_of env v ss) t"
proof (induction ss arbitrary: t)
  case (Cons s ss)
  then show ?case
    by (simp add: init_from_array_def init_from_string_fold entries_of_Cons [of env v s ss])
qed (simp add: init_from_array_def)

definition overlong :: "string list \<Rightarrow> bool" where
  "overlong ws \<longleftrightarrow> (\<exists>w \<in> set ws. 256 \<le> length w)"

lemma file_lines_fold:
  "file_lines env v ls t =
     (let ws = List.map_filter (\<lambda>l. sscanf_word 256 (fst (cut_at CHR ''#'' l))) ls
      in if overlong ws then None else Some (fold add_entry (entries_of env v ws) t))"
proof (induction ls arbitrary: t)
  case (Cons l ls)
  show ?case
  proof (cases "sscanf_word 256 (fst (cut_at CHR ''#'' l))")
    case None
    then show ?thesis using Cons by (simp add: file_line_def map_filter_simps)
  next
    case (Some w)
    then show ?thesis
      using Cons by (auto simp: file_line_def map_filter_simps overlong_def Let_def
        init_from_string_fold
        entries_of_Cons [of env v w "List.map_filter (\<lambda>l. sscanf_word 256 (fst (cut_at CHR ''#'' l))) ls"])
  qed
qed (simp add: map_filter_simps overlong_def)

lemma init_optional_file_fold:
  "init_optional_file env file v t =
     (if overlong (words_of env file) then None
      else Some (fold add_entry (entries_of env v (words_of env file)) t))"
  by (auto simp: init_optional_file_def init_from_file_def file_lines_fold words_of_def
    file_words_def overlong_def Let_def split: option.splits)

lemma init_optional_array_fold:
  "init_optional_array env entries v t = fold add_entry (entries_of env v (array_of entries)) t"
  by (auto simp: init_optional_array_def array_of_def init_from_array_fold split: option.splits)

lemma words_of_None [simp]: "words_of env None = []"
  by (simp add: words_of_def)

lemma overlong_Nil [simp]: "\<not> overlong []"
  by (simp add: overlong_def)

lemma array_of_nonempty: "0 < entries_len es \<longleftrightarrow> array_of es \<noteq> []"
  by (auto simp: entries_len_def array_of_def split: option.splits)

lemma wblist_trees_fold:
  "Option.bind (whitelist_tree env wfile we) (blacklist_tree env bfile be) =
     (if overlong (words_of env wfile) \<or> overlong (words_of env bfile) then None
      else Some (fold add_entry
        (entries_of env ADDR_ALLOWED (words_of env wfile @ array_of we)
         @ entries_of env ADDR_DISALLOWED (words_of env bfile @ array_of be))
        (xm_iptree_create (list_default wfile we))))"
  by (auto simp: whitelist_tree_def blacklist_tree_def init_optional_file_fold list_default_def
    init_optional_array_fold entries_of_append array_of_nonempty)

definition list_tree ::
  "environment \<Rightarrow> string option \<Rightarrow> string option \<Rightarrow> string list option \<Rightarrow> string list option \<Rightarrow> xm_iptree" where
  "list_tree env wfile bfile we be =
     fold add_entry (list_entries env wfile bfile we be) (xm_iptree_create (list_default wfile we))"

text \<open>The outcome of \<open>xm_wblist_create\<close> in terms of the additions it performs.\<close>

lemma wblist_create_cases:
  "xm_wblist_create env wfile bfile we be =
     (if overlong (words_of env wfile) \<or> overlong (words_of env bfile) then Inl BufferOverflow
      else let wb = \<lparr>wb_iptree = xm_iptree_paint_value (list_tree env wfile bfile we be) ADDR_ALLOWED\<rparr>
        in if xm_wblist_count_allowed wb = 0 then Inl NoneAllowed else Inr wb)"
  unfolding xm_wblist_create_def wblist_trees_fold
  by (simp add: Let_def init_from_string_fold list_tree_def list_entries_def entries_of_append)

lemma list_tree_inv: "iptree_inv (list_tree env wfile bfile we be)"
  by (simp add: list_tree_def fold_add_inv iptree_inv_create)

lemma list_entries_range: "e \<in> set (list_entries env wfile bfile we be) \<Longrightarrow> fst (snd e) \<le> 256"
  by (auto simp: list_entries_def dest: entries_of_range)

lemma wblist_create_tree:
  assumes "xm_wblist_create env wfile bfile we be = Inr wb"
  shows "wb_iptree wb = xm_iptree_paint_value (list_tree env wfile bfile we be) ADDR_ALLOWED"
    and "xm_wblist_count_allowed wb \<noteq> 0"
  using assms by (auto simp: wblist_create_cases Let_def split: if_splits)

section \<open>The target list as an indexed set\<close>

text \<open>
  What the shards rely on: a list whose indexes below the count give distinct allowed
  targets, fewer than \<open>2 ^ 32\<close> of them, and whose lookup leaves the list as it is.
\<close>

locale target_list =
  fixes lookup :: "'s \<Rightarrow> u64 \<Rightarrow> u32 \<times> 's"
    and count :: "'s \<Rightarrow> u64"
    and allowed :: "'s \<Rightarrow> u32 \<Rightarrow> bool"
    and ready :: "'s \<Rightarrow> bool"
  assumes lookup_state: "ready s \<Longrightarrow> snd (lookup s i) = s"
    and lookup_allowed: "ready s \<Longrightarrow> i < count s \<Longrightarrow> allowed s (fst (lookup s i))"
    and lookup_inj: "ready s \<Longrightarrow> i < count s \<Longrightarrow> j < count s \<Longrightarrow>
      fst (lookup s i) = fst (lookup s j) \<Longrightarrow> i = j"
    and count_bound: "ready s \<Longrightarrow> unat (count s) < 2 ^ 32"
begin

definition targets :: "'s \<Rightarrow> u64 list \<Rightarrow> u32 list" where
  "targets s idxs = map (\<lambda>i. fst (lookup s i)) idxs"

lemma targets_allowed:
  "ready s \<Longrightarrow> \<forall>i \<in> set idxs. i < count s \<Longrightarrow> a \<in> set (targets s idxs) \<Longrightarrow> allowed s a"
  by (auto simp: targets_def intro: lookup_allowed)

lemma targets_distinct:
  "ready s \<Longrightarrow> \<forall>i \<in> set idxs. i < count s \<Longrightarrow> distinct idxs \<Longrightarrow> distinct (targets s idxs)"
  by (auto simp: targets_def distinct_map inj_on_def intro: lookup_inj)

end

definition wblist_ready :: "xm_wblist \<Rightarrow> bool" where
  "wblist_ready wb \<longleftrightarrow> iptree_inv (wb_iptree wb) \<and> painted (wb_iptree wb)
     \<and> paint_value (wb_iptree wb) = ADDR_ALLOWED \<and> \<not> xm_wblist_is_allowed wb 0"

lemma wblist_lookup_bij:
  assumes "iptree_inv (wb_iptree wb)"
  shows "bij_betw (\<lambda>i. fst (xm_wblist_lookup_index wb (of_nat i)))
     {..<unat (xm_wblist_count_allowed wb)} (ntohl ` indexed_addrs (wb_iptree wb) ADDR_ALLOWED)"
proof -
  have "bij_betw ntohl (indexed_addrs (wb_iptree wb) ADDR_ALLOWED)
      (ntohl ` indexed_addrs (wb_iptree wb) ADDR_ALLOWED)"
    by (rule inj_on_imp_bij_betw) (simp add: inj_on_def)
  from bij_betw_trans [OF lookup_index_bij [OF assms] this]
  show ?thesis
    by (simp add: comp_def xm_wblist_lookup_index_def xm_wblist_count_allowed_def case_prod_beta)
qed

lemma indexed_is_allowed: "a \<in> indexed_addrs (wb_iptree wb) ADDR_ALLOWED \<Longrightarrow> xm_wblist_is_allowed wb (ntohl a)"
  by (simp add: indexed_addrs_def xm_wblist_is_allowed_def)

lemma lookup_index_at:
  assumes "iptree_inv (wb_iptree wb)" "i < xm_wblist_count_allowed wb"
  shows "fst (xm_wblist_lookup_index wb i) \<in> ntohl ` indexed_addrs (wb_iptree wb) ADDR_ALLOWED"
  using bij_betw_apply [OF wblist_lookup_bij [OF assms(1)], of "unat i"] assms(2)
  by (simp add: word_less_nat_alt)

lemma indexed_card_bound:
  assumes "\<not> xm_wblist_is_allowed wb 0" "iptree_inv (wb_iptree wb)"
  shows "unat (xm_wblist_count_allowed wb) < 2 ^ 32"
proof -
  have "indexed_addrs (wb_iptree wb) ADDR_ALLOWED \<subseteq> UNIV - {0}"
    using assms(1) indexed_is_allowed [of 0 wb] by auto
  then have "card (indexed_addrs (wb_iptree wb) ADDR_ALLOWED) \<le> card (UNIV - {0 :: u32})"
    by (intro card_mono) auto
  also have "\<dots> < 2 ^ 32" by (simp add: card_Diff_singleton card_word)
  finally show ?thesis
    by (simp add: xm_wblist_count_allowed_def count_ips_card [OF assms(2)])
qed

interpretation wbl: target_list xm_wblist_lookup_index xm_wblist_count_allowed
  xm_wblist_is_allowed wblist_ready
proof unfold_locales
  fix s i assume "wblist_ready s"
  then show "snd (xm_wblist_lookup_index s i) = s"
    by (simp add: wblist_ready_def xm_wblist_lookup_index_def case_prod_beta lookup_index_painted)
next
  fix s i assume "wblist_ready s" "i < xm_wblist_count_allowed s"
  then show "xm_wblist_is_allowed s (fst (xm_wblist_lookup_index s i))"
    using lookup_index_at [of s i] indexed_is_allowed by (auto simp: wblist_ready_def)
next
  fix s i j
  assume "wblist_ready s" "i < xm_wblist_count_allowed s" "j < xm_wblist_count_allowed s"
    "fst (xm_wblist_lookup_index s i) = fst (xm_wblist_lookup_index s j)"
  then have "unat i = unat j"
    using bij_betw_imp_inj_on [OF wblist_lookup_bij [of s]]
    by (auto simp: wblist_ready_def inj_on_def word_less_nat_alt)
  then show "i = j" by (rule word_eqI_unat)
next
  fix s assume "wblist_ready s"
  then show "unat (xm_wblist_count_allowed s) < 2 ^ 32"
    by (intro indexed_card_bound) (auto simp: wblist_ready_def)
qed

section \<open>Properties of a created list\<close>

lemma wblist_is_allowed_tree:
  assumes "xm_wblist_create env wfile bfile we be = Inr wb"
  shows "xm_wblist_is_allowed wb s \<longleftrightarrow>
    xm_iptree_lookup_ip (list_tree env wfile bfile we be) (ntohl s) = ADDR_ALLOWED"
  by (simp add: xm_wblist_is_allowed_def wblist_create_tree(1) [OF assms] lookup_ip_paint_value list_tree_inv)

text \<open>The addresses that have an index: those allowed by a leaf of the first 32 levels.  Only
  whitelist entries without a slash, whose prefix length becomes 256, allow others.\<close>

definition numbered :: "xm_wblist \<Rightarrow> u32 \<Rightarrow> bool" where
  "numbered wb s \<longleftrightarrow> xm_wblist_is_allowed wb s \<and> IS_LEAF (lookup_node (root (wb_iptree wb)) (ntohl s) 0x80000000 32)"

lemma numbered_indexed: "{s. numbered wb s} = ntohl ` indexed_addrs (wb_iptree wb) ADDR_ALLOWED"
  by (force simp: indexed_addrs_def xm_wblist_is_allowed_def numbered_def image_iff)

lemma allowed_not_numbered:
  assumes "xm_wblist_create env wfile bfile we be = Inr wb" "xm_wblist_is_allowed wb s" "\<not> numbered wb s"
  shows "\<exists>len > 32. (ntohl s, len, ADDR_ALLOWED) \<in> set (list_entries env wfile bfile we be)"
proof -
  let ?t = "list_tree env wfile bfile we be"
  have "xm_iptree_lookup_ip ?t (ntohl s) = ADDR_ALLOWED" using assms(1,2) wblist_is_allowed_tree by blast
  moreover have "ntohl s \<notin> indexed_addrs (wb_iptree wb) ADDR_ALLOWED"
    using assms(2,3) by (simp add: indexed_addrs_def numbered_def xm_wblist_is_allowed_def)
  then have "ntohl s \<notin> indexed_addrs ?t ADDR_ALLOWED"
    by (simp add: wblist_create_tree(1) [OF assms(1)] list_tree_inv)
  ultimately have "\<not> IS_LEAF (lookup_node (root ?t) (ntohl s) 0x80000000 32)" by (simp add: indexed_addrs_def)
  with \<open>xm_iptree_lookup_ip ?t (ntohl s) = ADDR_ALLOWED\<close> show ?thesis
    unfolding list_tree_def by (intro fold_add_host) (auto dest: list_entries_range)
qed

lemma zero_entry:
  "inet_aton env ''0.0.0.0'' = Some 0 \<Longrightarrow> entries_of env v [''0.0.0.0''] = [(0, 256, v)]"
  by (simp add: entries_of_def resolve_def cut_at_def parse_prefix_len_def)

lemma list_tree_zero:
  assumes "inet_aton env ''0.0.0.0'' = Some 0"
  shows "xm_iptree_lookup_ip (list_tree env wfile bfile we be) 0 = ADDR_DISALLOWED"
proof -
  let ?es = "entries_of env ADDR_ALLOWED (words_of env wfile @ array_of we)
     @ entries_of env ADDR_DISALLOWED (words_of env bfile @ array_of be)"
  let ?t = "fold add_entry ?es (xm_iptree_create (list_default wfile we))"
  have "list_tree env wfile bfile we be = xm_iptree_add ?t 0 (int 256) ADDR_DISALLOWED"
    by (simp add: list_tree_def list_entries_def zero_entry [OF assms] entries_of_append)
  moreover have "IS_LEAF (lookup_node (root ?t) 0 0x80000000 256)"
    by (rule fold_add_full_leaf) (auto dest: entries_of_range)
  ultimately show ?thesis
    using iptree_lookup_add [of 256 ?t 0 ADDR_DISALLOWED 0] by (simp del: fold_append)
qed

lemma wblist_create_ready:
  assumes "xm_wblist_create env wfile bfile we be = Inr wb" "inet_aton env ''0.0.0.0'' = Some 0"
  shows "wblist_ready wb"
proof -
  have "length (radix (list_tree env wfile bfile we be)) = 2 ^ RADIX_LENGTH"
    using list_tree_inv by (simp add: iptree_inv_def)
  from paint_value_fields [OF this]
  show ?thesis
    using list_tree_zero [OF assms(2)]
    by (simp add: wblist_ready_def wblist_create_tree(1) [OF assms(1)]
      wblist_is_allowed_tree [OF assms(1)] ADDR_ALLOWED_def ADDR_DISALLOWED_def)
qed

lemma wblist_create_ok:
  assumes "\<not> overlong (words_of env wfile)" "\<not> overlong (words_of env bfile)"
    "a \<in> indexed_addrs (list_tree env wfile bfile we be) ADDR_ALLOWED"
  shows "xm_wblist_create env wfile bfile we be =
    Inr \<lparr>wb_iptree = xm_iptree_paint_value (list_tree env wfile bfile we be) ADDR_ALLOWED\<rparr>"
proof -
  let ?t = "xm_iptree_paint_value (list_tree env wfile bfile we be) ADDR_ALLOWED"
  have "a \<in> indexed_addrs ?t ADDR_ALLOWED" using assms(3) by (simp add: list_tree_inv)
  then have "card (indexed_addrs ?t ADDR_ALLOWED) \<noteq> 0" by (auto simp: card_eq_0_iff)
  then have "unat (xm_wblist_count_allowed \<lparr>wb_iptree = ?t\<rparr>) \<noteq> 0"
    using count_ips_card [OF iptree_inv_paint [OF list_tree_inv]]
    by (simp add: xm_wblist_count_allowed_def)
  then have "xm_wblist_count_allowed \<lparr>wb_iptree = ?t\<rparr> \<noteq> 0" by auto
  then show ?thesis using assms(1,2) by (simp add: wblist_create_cases Let_def)
qed

text \<open>Two libc environments for the concrete runs: dotted addresses resolve, nothing else.\<close>

definition demo_env :: environment where
  "demo_env = \<lparr>inet_aton = (\<lambda>s. if s = ''10.0.0.0'' then Some 0x0000000A
       else if s = ''10.1.0.0'' then Some 0x0000010A
       else if s = ''1.2.3.4'' then Some 0x04030201
       else if s = ''0.0.0.0'' then Some 0 else None),
     getaddrinfo = (\<lambda>s. None), fopen = (\<lambda>s. None)\<rparr>"

lemma demo_zero: "inet_aton demo_env ''0.0.0.0'' = Some 0"
  by (simp add: demo_env_def)

lemma demo_entries:
  "list_entries demo_env None None (Some [''10.0.0.0/8'']) (Some [''10.1.0.0/16'']) =
     [(0x0A000000, 8, 1), (0x0A010000, 16, 0), (0, 256, 0)]"
  by code_simp

lemma not_covers_demo:
  "sorted_wrt (\<lambda>e' e. \<not> covers e e') [(0x0A000000, 8, 1), (0x0A010000, 16, 0), (0, 256, 0)]"
  by (simp add: covers_def prefix_match_code)

lemma demo_indexed:
  "0x0A020001 \<in> indexed_addrs
     (list_tree demo_env None None (Some [''10.0.0.0/8'']) (Some [''10.1.0.0/16''])) ADDR_ALLOWED"
proof -
  let ?es = "[(0x0A000000, 8, 1), (0x0A010000, 16, 0), (0, 256, 0)] :: entry list"
  have "IS_LEAF (lookup_node (root (fold add_entry ?es (xm_iptree_create 0))) 0x0A020001 0x80000000 32)"
    using fold_add_internal [of ?es "xm_iptree_create 0" "0x0A020001" 32] by (auto simp: prefix_match_32)
  moreover have "xm_iptree_lookup_ip (fold add_entry ?es (xm_iptree_create 0)) 0x0A020001 = 1"
    using fold_add_lookup [OF _ not_covers_demo, of "xm_iptree_create 0" "0x0A020001"]
    by (simp add: entry_match_def prefix_match_code prefix_match_32)
  ultimately show ?thesis
    unfolding list_tree_def demo_entries
    by (simp add: indexed_addrs_def list_default_def array_of_def ADDR_ALLOWED_def ADDR_DISALLOWED_def)
qed

lemmas demo_created =
  wblist_create_ok [of demo_env None None "0x0A020001" "Some [''10.0.0.0/8'']" "Some [''10.1.0.0/16'']",
    OF _ _ demo_indexed, simplified]

section \<open>Properties\<close>

text \<open>Property C13. Creating the list performs the additions of all entries in order: when no
  entry strictly contains an earlier one, an address is allowed exactly when the last entry
  that contains it is a whitelist entry, or no entry contains it and there is no whitelist.\<close>

theorem wblist_last_entry_wins:
  assumes "xm_wblist_create env wfile bfile we be = Inr wb"
    "sorted_wrt (\<lambda>e' e. \<not> covers e e') (list_entries env wfile bfile we be)"
  shows "xm_wblist_is_allowed wb s \<longleftrightarrow>
    last_match (list_default wfile we) (list_entries env wfile bfile we be) (ntohl s) = ADDR_ALLOWED"
  unfolding wblist_is_allowed_tree [OF assms(1)] list_tree_def
  using fold_add_lookup [OF _ assms(2), of "xm_iptree_create (list_default wfile we)" "ntohl s"]
    list_entries_range by (metis xm_iptree_create_simps(1,2) IS_LEAF.simps(1))

theorem wblist_last_entry_wins_witness:
  "\<exists>wb. xm_wblist_create demo_env None None (Some [''10.0.0.0/8'']) (Some [''10.1.0.0/16'']) = Inr wb
     \<and> xm_wblist_is_allowed wb 0x0500020A \<and> \<not> xm_wblist_is_allowed wb 0x0500010A"
proof -
  have "last_match 0 [(0x0A000000, 8, 1), (0x0A010000, 16, 0), (0, 256, 0)] (ntohl 0x0500020A) = 1"
    "last_match 0 [(0x0A000000, 8, 1), (0x0A010000, 16, 0), (0, 256, 0)] (ntohl 0x0500010A) = 0"
    by (simp_all add: bswap32_def push_bit_of_1 entry_match_def prefix_match_code prefix_match_32)
  moreover obtain wb where wb: "xm_wblist_create demo_env None None (Some [''10.0.0.0/8'']) (Some [''10.1.0.0/16'']) = Inr wb"
    using demo_created by blast
  moreover have "xm_wblist_is_allowed wb s \<longleftrightarrow>
      last_match 0 [(0x0A000000, 8, 1), (0x0A010000, 16, 0), (0, 256, 0)] (ntohl s) = 1" for s
    using wblist_last_entry_wins [OF wb, unfolded demo_entries, OF not_covers_demo]
    by (simp add: list_default_def array_of_def ADDR_ALLOWED_def ADDR_DISALLOWED_def del: last_match.simps)
  ultimately show ?thesis by (simp del: last_match.simps)
qed

text \<open>Property C9. On a created list the index lookup is a bijection from the indexes below the count onto the
  addresses that are allowed within 32 levels of the tree, and it leaves the list unchanged.  An
  allowed address that is left out is that of a whitelist entry without a slash (more than 32
  bits); 0.0.0.0 is never allowed, and there is at least one target.\<close>

theorem wblist_targets:
  assumes "xm_wblist_create env wfile bfile we be = Inr wb" "inet_aton env ''0.0.0.0'' = Some 0"
  shows "bij_betw (\<lambda>i. fst (xm_wblist_lookup_index wb (of_nat i))) {..<unat (xm_wblist_count_allowed wb)} {s. numbered wb s}
    \<and> (\<forall>s. numbered wb s \<longrightarrow> xm_wblist_is_allowed wb s)
    \<and> (\<forall>s. xm_wblist_is_allowed wb s \<and> \<not> numbered wb s \<longrightarrow>
          (\<exists>len > 32. (ntohl s, len, ADDR_ALLOWED) \<in> set (list_entries env wfile bfile we be)))
    \<and> snd (xm_wblist_lookup_index wb j) = wb
    \<and> \<not> xm_wblist_is_allowed wb 0
    \<and> 0 < xm_wblist_count_allowed wb \<and> unat (xm_wblist_count_allowed wb) < 2 ^ 32"
proof -
  note ready = wblist_create_ready [OF assms]
  show ?thesis
    using ready wblist_lookup_bij [of wb] wbl.lookup_state [OF ready] wbl.count_bound [OF ready]
      wblist_create_tree(2) [OF assms(1)] allowed_not_numbered [OF assms(1)]
    by (simp add: wblist_ready_def word_neq_0_conv numbered_indexed) (simp add: numbered_def)
qed

theorem wblist_targets_witness:
  "\<exists>wb. xm_wblist_create demo_env None None (Some [''10.0.0.0/8'']) (Some [''10.1.0.0/16'']) = Inr wb
     \<and> \<not> xm_wblist_is_allowed wb 0 \<and> 0 < xm_wblist_count_allowed wb"
  using demo_created wblist_targets [OF demo_created demo_zero] by blast

text \<open>A whitelist of single addresses (entries without a slash, or with a prefix
  longer than 32) allows nothing: the creation fails although the addresses are valid.\<close>

theorem single_address_whitelist_fails:
  assumes "ss \<noteq> []" "\<forall>s \<in> set ss. \<forall>pn \<in> set (resolve env s). 32 < snd pn"
    "inet_aton env ''0.0.0.0'' = Some 0"
  shows "xm_wblist_create env None None (Some ss) None = Inl NoneAllowed"
proof -
  let ?t = "list_tree env None None (Some ss) None"
  have "\<forall>e \<in> set (list_entries env None None (Some ss) None). 32 < fst (snd e)"
    using assms(2) by (auto simp: list_entries_def entries_of_append array_of_def zero_entry [OF assms(3)])
      (auto simp: entries_of_def)
  then have "\<forall>e \<in> set (list_entries env None None (Some ss) None). 32 < fst (snd e) \<and> fst (snd e) \<le> 256"
    using list_entries_range by blast
  then have "indexed_addrs ?t ADDR_ALLOWED \<subseteq> indexed_addrs (xm_iptree_create ADDR_DISALLOWED) ADDR_ALLOWED"
    using indexed_addrs_hosts assms(1) by (simp add: list_tree_def list_default_def array_of_def)
  also have "\<dots> = {}"
    by (simp add: indexed_addrs_def ADDR_ALLOWED_def ADDR_DISALLOWED_def)
  finally have "unat (xm_iptree_count_ips (xm_iptree_paint_value ?t ADDR_ALLOWED) ADDR_ALLOWED) = 0"
    by (simp add: count_ips_card iptree_inv_paint list_tree_inv)
  then have "xm_iptree_count_ips (xm_iptree_paint_value ?t ADDR_ALLOWED) ADDR_ALLOWED = 0"
    by (simp only: unat_eq_zero)
  then show ?thesis by (simp add: wblist_create_cases Let_def xm_wblist_count_allowed_def)
qed

theorem single_address_whitelist_fails_witness:
  "xm_wblist_create demo_env None None (Some [''1.2.3.4'']) None = Inl NoneAllowed"
proof (rule single_address_whitelist_fails)
  have "resolve demo_env ''1.2.3.4'' = [(0x01020304, 256)]"
    by code_simp
  then show "\<forall>s \<in> set [''1.2.3.4'']. \<forall>pn \<in> set (resolve demo_env s). 32 < snd pn" by simp
qed (simp_all add: demo_zero)

text \<open>Reading a list file writes past the 256-byte word buffer exactly when some
  line has a first word of 256 characters or more before any comment; all other files are
  read to their end.\<close>

theorem wblist_file_overflow:
  "init_from_file env t file value = None \<longleftrightarrow>
     (\<exists>content. fopen env file = Some content \<and> (\<exists>line \<in> set (fgets_loop 998 content).
        \<exists>w. sscanf_word 256 (fst (cut_at CHR ''#'' line)) = Some w \<and> length w = 256))"
proof -
  have *: "sscanf_word 256 l = Some w \<Longrightarrow> 256 \<le> length w \<longleftrightarrow> length w = 256" for l w
    using sscanf_word_bound [of 256 l w] by auto
  show ?thesis
    by (auto simp: init_from_file_def file_lines_fold overlong_def map_filter_def Let_def *
      split: option.splits) (force simp: *)+
qed

end
