(* ===== verification/Shard.thy ===== *)
theory Shard
  imports Cyclic Wblist
begin

text \<open>
  The shards of \<open>src/xm_shard.c\<close>: a contiguous range of exponents of the cycle's generator,
  walked by repeated multiplication; an element that fits the list of targets is an index
  into it.  The loops of \<open>shard_get_next_elem\<close> and \<open>xm_shard_get_next_ip\<close> have no bound in
  the code, so not returning is the value \<open>None\<close>.
\<close>

unbundle bit_operations_syntax

section \<open>State\<close>

definition XM_SHARD_DONE :: u32 where "XM_SHARD_DONE = 0"

record shard_state =
  sent :: u32
  tried_sent :: u32
  blacklisted :: u32
  whitelisted :: u32
  failures :: u32
  first_scanned :: u32
  max_targets :: u32

record shard_params =
  first :: u64
  last_elem :: u64
  factor :: u64
  modulus :: u64

record xm_shard =
  state :: shard_state
  params :: shard_params
  current :: u64
  max_index :: u64
  wblist :: xm_wblist

section \<open>Operations\<close>

text \<open>The do-while loop of \<open>shard_get_next_elem\<close>.\<close>

partial_function (option) next_elem :: "u64 \<Rightarrow> u64 \<Rightarrow> u64 \<Rightarrow> u64 option" where
  "next_elem fac m c =
     (let c' = (c * fac) mod m
      in if c' \<ge> 0x100000000 then next_elem fac m c' else Some c')"

definition shard_lookup :: "xm_shard \<Rightarrow> u64 \<Rightarrow> u32 \<times> xm_shard" where
  "shard_lookup s i = (let (ip, wb) = xm_wblist_lookup_index (wblist s) i in (ip, s\<lparr>wblist := wb\<rparr>))"

partial_function (option) get_next_ip_loop :: "xm_shard \<Rightarrow> (u32 \<times> xm_shard) option" where
  "get_next_ip_loop s =
     Option.bind (next_elem (factor (params s)) (modulus (params s)) (current s)) (\<lambda>c.
       let s = s\<lparr>current := c\<rparr>; candidate = (ucast c :: u32)
       in if ucast candidate = last_elem (params s)
          then Some (XM_SHARD_DONE, s\<lparr>current := ucast XM_SHARD_DONE\<rparr>)
          else if ucast (candidate - 1) < max_index s
          then Some (shard_lookup (s\<lparr>state := (state s)\<lparr>whitelisted := whitelisted (state s) + 1\<rparr>\<rparr>)
                 (ucast (candidate - 1)))
          else get_next_ip_loop (s\<lparr>state := (state s)\<lparr>blacklisted := blacklisted (state s) + 1\<rparr>\<rparr>))"

definition xm_shard_get_next_ip :: "xm_shard \<Rightarrow> (u32 \<times> xm_shard) option" where
  "xm_shard_get_next_ip s =
     (if current s = ucast XM_SHARD_DONE then Some (XM_SHARD_DONE, s) else get_next_ip_loop s)"

definition shard_roll_to_valid :: "xm_shard \<Rightarrow> (u32 \<times> xm_shard) option" where
  "shard_roll_to_valid s =
     (if current s - 1 < max_index s then Some (ucast (current s), s) else xm_shard_get_next_ip s)"

definition xm_shard_get_cur_ip :: "xm_shard \<Rightarrow> u32 \<times> xm_shard" where
  "xm_shard_get_cur_ip s = shard_lookup s (current s - 1)"

text \<open>
  \<open>xm_shard_create\<close>: \<open>None\<close> also stands for the division by zero without shards or threads.
  The memory of the new shard is not zeroed: \<open>mem\<close> is the state it starts from.
\<close>

definition sub_index :: "u16 \<Rightarrow> u8 \<Rightarrow> u8 \<Rightarrow> u32" where
  "sub_index shard_idx num_threads thread_idx =
     ucast shard_idx * ucast num_threads + ucast thread_idx"

definition exponent_begin :: "u64 \<Rightarrow> u32 \<Rightarrow> u32 \<Rightarrow> u32 \<Rightarrow> u64" where
  "exponent_begin num_elts num_subshards sub_idx off =
     ((num_elts div ucast num_subshards) * ucast sub_idx + ucast off) mod num_elts"

definition exponent_end :: "u64 \<Rightarrow> u32 \<Rightarrow> u32 \<Rightarrow> u32 \<Rightarrow> u64" where
  "exponent_end num_elts num_subshards sub_idx off =
     ((num_elts div ucast num_subshards) * ucast ((sub_idx + 1) mod num_subshards) + ucast off) mod num_elts"

definition targets_of_shard :: "u32 \<Rightarrow> u32 \<Rightarrow> u32 \<Rightarrow> u32" where
  "targets_of_shard max_total_targets num_subshards sub_idx =
     (let m = max_total_targets div num_subshards
      in if sub_idx < max_total_targets mod num_subshards then m + 1 else m)"

definition xm_shard_create ::
  "(nat \<Rightarrow> nat \<Rightarrow> nat \<Rightarrow> nat) \<Rightarrow> shard_state \<Rightarrow> u16 \<Rightarrow> u16 \<Rightarrow> u8 \<Rightarrow> u8 \<Rightarrow> u32 \<Rightarrow> u64 \<Rightarrow> xm_cycle
   \<Rightarrow> xm_wblist \<Rightarrow> xm_shard option" where
  "xm_shard_create powm mem shard_idx num_shards thread_idx num_threads max_total_targets max_idx
     cycle wb =
     (let num_subshards = ucast num_shards * ucast num_threads :: u32;
          num_elts = order cycle;
          sub_idx = sub_index shard_idx num_threads thread_idx
      in if num_subshards = 0 \<or> num_elts = 0 then None
         else
           let eb = exponent_begin num_elts num_subshards sub_idx (offset cycle);
               ee = exponent_end num_elts num_subshards sub_idx (offset cycle);
               start = of_nat (powm (unat (generator cycle)) (unat eb) (unat (prime (cgroup cycle))));
               stop = of_nat (powm (unat (generator cycle)) (unat ee) (unat (prime (cgroup cycle))));
               st = (if max_total_targets > 0
                     then mem\<lparr>max_targets := targets_of_shard max_total_targets num_subshards sub_idx\<rparr>
                     else mem)
           in map_option snd (shard_roll_to_valid
                \<lparr>state = st,
                 params = \<lparr>first = start, last_elem = stop, factor = generator cycle,
                   modulus = prime (cgroup cycle)\<rparr>,
                 current = start, max_index = max_idx, wblist = wb\<rparr>))"

text \<open>
  The client loop of \<open>xiterate.c\<close> after its first address: ask for addresses until the shard
  is done; \<open>n\<close> bounds the number of calls, and \<open>None\<close> is a loop that needs more.
\<close>

fun shard_ips :: "nat \<Rightarrow> xm_shard \<Rightarrow> u32 list option" where
  "shard_ips 0 s = None"
| "shard_ips (Suc n) s =
     (case xm_shard_get_next_ip s of
        None \<Rightarrow> None
      | Some (ip, s') \<Rightarrow> if ip = XM_SHARD_DONE then Some [] else map_option (Cons ip) (shard_ips n s'))"

section \<open>Walking the cycle\<close>

text \<open>\<open>walk fac m c xs\<close>: the multiplications starting at \<open>c\<close> produce the elements \<open>xs\<close> in order.\<close>

fun walk :: "u64 \<Rightarrow> u64 \<Rightarrow> u64 \<Rightarrow> u64 list \<Rightarrow> bool" where
  "walk fac m c [] \<longleftrightarrow> True"
| "walk fac m c (x # xs) \<longleftrightarrow> x = (c * fac) mod m \<and> walk fac m x xs"

definition fits :: "u64 \<Rightarrow> bool" where
  "fits c \<longleftrightarrow> c < 0x100000000"

lemma fits_ucast: "fits c \<Longrightarrow> ucast (ucast c :: u32) = c"
proof (rule word_eqI_unat)
  assume "fits c"
  then have "unat (ucast c :: u32) = unat c"
    by (intro unat_ucast_small) (simp add: fits_def word_less_nat_alt)
  then show "unat (ucast (ucast c :: u32) :: u64) = unat c" by (simp only: unat_ucast_up)
qed

lemma fits_minus_one: "fits c \<Longrightarrow> c \<noteq> 0 \<Longrightarrow> (ucast ((ucast c :: u32) - 1) :: u64) = c - 1"
proof -
  assume f: "fits c" and nz: "c \<noteq> 0"
  have u: "unat (ucast c :: u32) = unat c"
    using f by (intro unat_ucast_small) (simp add: fits_def word_less_nat_alt)
  have c1: "1 \<le> unat c" using nz by (simp add: Suc_le_eq unat_gt_0)
  have "unat ((ucast c :: u32) - 1) = unat c - 1" using u c1 unat_sub_small [of 1 "ucast c :: u32"] by simp
  moreover have "unat (c - 1) = unat c - 1" using c1 unat_sub_small [of 1 c] by simp
  ultimately show ?thesis by (intro word_eqI_unat) simp
qed

text \<open>An element the shard turns into a target.\<close>

definition valid_elem :: "u64 \<Rightarrow> u64 \<Rightarrow> bool" where
  "valid_elem mx c \<longleftrightarrow> fits c \<and> c - 1 < mx"

definition count_black :: "nat \<Rightarrow> xm_shard \<Rightarrow> xm_shard" where
  "count_black n s = s\<lparr>state := (state s)\<lparr>blacklisted := blacklisted (state s) + of_nat n\<rparr>\<rparr>"

definition count_white :: "xm_shard \<Rightarrow> xm_shard" where
  "count_white s = s\<lparr>state := (state s)\<lparr>whitelisted := whitelisted (state s) + 1\<rparr>\<rparr>"

lemma count_fields [simp]:
  "params (count_black n s) = params s" "current (count_black n s) = current s"
  "max_index (count_black n s) = max_index s" "wblist (count_black n s) = wblist s"
  "params (count_white s) = params s" "current (count_white s) = current s"
  "max_index (count_white s) = max_index s" "wblist (count_white s) = wblist s"
  "count_black n (s\<lparr>current := c\<rparr>) = (count_black n s)\<lparr>current := c\<rparr>"
  "count_white (s\<lparr>current := c\<rparr>) = (count_white s)\<lparr>current := c\<rparr>"
  by (simp_all add: count_black_def count_white_def)

lemma count_black_0 [simp]: "count_black 0 s = s"
  by (simp add: count_black_def)

lemma count_black_Suc: "count_black n (count_black (Suc 0) s) = count_black (Suc n) s"
  by (simp add: count_black_def add.assoc)

lemma shard_lookup_ready:
  "wblist_ready (wblist s) \<Longrightarrow> shard_lookup s i = (fst (xm_wblist_lookup_index (wblist s) i), s)"
  using wbl.lookup_state [of "wblist s" i] by (simp add: shard_lookup_def case_prod_beta)

text \<open>One step of the loop: on an element that does not fit, on the last one, on a target and
  on an element that is no index.\<close>

lemma loop_cases:
  assumes "y = current s * factor (params s) mod modulus (params s)" "y \<noteq> 0" "fits (last_elem (params s))"
  shows "\<not> fits y \<Longrightarrow> get_next_ip_loop s = get_next_ip_loop (s\<lparr>current := y\<rparr>)"
    and "y = last_elem (params s) \<Longrightarrow> get_next_ip_loop s = Some (0, s\<lparr>current := 0\<rparr>)"
    and "y \<noteq> last_elem (params s) \<Longrightarrow> valid_elem (max_index s) y \<Longrightarrow> wblist_ready (wblist s) \<Longrightarrow>
      get_next_ip_loop s = Some (fst (xm_wblist_lookup_index (wblist s) (y - 1)), count_white (s\<lparr>current := y\<rparr>))"
    and "y \<noteq> last_elem (params s) \<Longrightarrow> fits y \<Longrightarrow> \<not> valid_elem (max_index s) y \<Longrightarrow>
      get_next_ip_loop s = get_next_ip_loop (count_black 1 (s\<lparr>current := y\<rparr>))"
proof -
  let ?n = "next_elem (factor (params s)) (modulus (params s))"
  have n1: "fits y \<Longrightarrow> ?n (current s) = Some y"
    by (subst next_elem.simps) (auto simp: assms(1) [symmetric] fits_def Let_def not_le)
  have n2: "\<not> fits y \<Longrightarrow> ?n (current s) = ?n y"
    by (subst next_elem.simps) (simp add: assms(1) [symmetric] fits_def Let_def not_less)
  show "\<not> fits y \<Longrightarrow> get_next_ip_loop s = get_next_ip_loop (s\<lparr>current := y\<rparr>)"
    by (subst (1 2) get_next_ip_loop.simps) (simp add: n2)
  show "y = last_elem (params s) \<Longrightarrow> get_next_ip_loop s = Some (0, s\<lparr>current := 0\<rparr>)"
    using assms(3) by (subst get_next_ip_loop.simps) (simp add: n1 fits_ucast XM_SHARD_DONE_def)
  show "y \<noteq> last_elem (params s) \<Longrightarrow> valid_elem (max_index s) y \<Longrightarrow> wblist_ready (wblist s) \<Longrightarrow>
      get_next_ip_loop s = Some (fst (xm_wblist_lookup_index (wblist s) (y - 1)), count_white (s\<lparr>current := y\<rparr>))"
    using assms(2) by (subst get_next_ip_loop.simps)
      (simp add: n1 fits_ucast fits_minus_one valid_elem_def shard_lookup_ready count_white_def)
  show "y \<noteq> last_elem (params s) \<Longrightarrow> fits y \<Longrightarrow> \<not> valid_elem (max_index s) y \<Longrightarrow>
      get_next_ip_loop s = get_next_ip_loop (count_black 1 (s\<lparr>current := y\<rparr>))"
    using assms(2) by (subst get_next_ip_loop.simps)
      (simp add: n1 fits_ucast fits_minus_one valid_elem_def count_black_def)
qed

text \<open>Elements on the way that are no targets are skipped and counted.\<close>

lemma loop_skip:
  assumes "walk (factor (params s)) (modulus (params s)) (current s) (ys @ zs)"
    "\<forall>y \<in> set ys. y \<noteq> 0 \<and> y \<noteq> last_elem (params s) \<and> \<not> valid_elem (max_index s) y"
    "fits (last_elem (params s))"
  shows "get_next_ip_loop s =
      get_next_ip_loop (count_black (length (filter fits ys)) (s\<lparr>current := last (current s # ys)\<rparr>)) \<and>
    walk (factor (params s)) (modulus (params s)) (last (current s # ys)) zs"
  using assms
proof (induction ys arbitrary: s)
  case (Cons y ys)
  have y: "y = current s * factor (params s) mod modulus (params s)" "y \<noteq> 0" "y \<noteq> last_elem (params s)"
    "\<not> valid_elem (max_index s) y" using Cons.prems by auto
  show ?case
  proof (cases "fits y")
    case True
    then have "get_next_ip_loop s = get_next_ip_loop (count_black 1 (s\<lparr>current := y\<rparr>))"
      using loop_cases(4) [OF y(1,2) Cons.prems(3) y(3)] y(4) by simp
    then show ?thesis
      using Cons.IH [of "count_black 1 (s\<lparr>current := y\<rparr>)"] Cons.prems True
      by (cases "ys = []") (auto simp: count_black_Suc)
  next
    case False
    then have "get_next_ip_loop s = get_next_ip_loop (s\<lparr>current := y\<rparr>)"
      using loop_cases(1) [OF y(1,2) Cons.prems(3)] by simp
    then show ?thesis
      using Cons.IH [of "s\<lparr>current := y\<rparr>"] Cons.prems False by (cases "ys = []") auto
  qed
qed simp

text \<open>Calling the shard until it is done gives the targets on the way to the last element.\<close>

definition target_of :: "xm_wblist \<Rightarrow> u64 \<Rightarrow> u32" where
  "target_of wb x = fst (xm_wblist_lookup_index wb (x - 1))"

lemma target_nonzero:
  assumes "wblist_ready wb" "valid_elem mx x" "mx \<le> xm_wblist_count_allowed wb"
  shows "target_of wb x \<noteq> 0"
proof -
  have "x - 1 < xm_wblist_count_allowed wb" using assms(2,3) by (auto simp: valid_elem_def intro: less_le_trans)
  then have "xm_wblist_is_allowed wb (target_of wb x)"
    using wbl.lookup_allowed [OF assms(1)] by (simp add: target_of_def)
  then show ?thesis using assms(1) by (auto simp: wblist_ready_def)
qed

lemma get_next_ip_walk:
  assumes "walk (factor (params s)) (modulus (params s)) (current s) (ys @ x # zs)" "current s \<noteq> 0"
    "\<forall>y \<in> set ys. y \<noteq> 0 \<and> y \<noteq> last_elem (params s) \<and> \<not> valid_elem (max_index s) y"
    "fits (last_elem (params s))" "x \<noteq> 0" "wblist_ready (wblist s)"
  shows "x = last_elem (params s) \<Longrightarrow> \<exists>s'. xm_shard_get_next_ip s = Some (0, s') \<and> current s' = 0 \<and> wblist s' = wblist s"
    and "x \<noteq> last_elem (params s) \<Longrightarrow> valid_elem (max_index s) x \<Longrightarrow>
      \<exists>s'. xm_shard_get_next_ip s = Some (target_of (wblist s) x, s') \<and> current s' = x \<and>
        params s' = params s \<and> max_index s' = max_index s \<and> wblist s' = wblist s \<and>
        walk (factor (params s)) (modulus (params s)) x zs"
proof -
  let ?s = "count_black (length (filter fits ys)) (s\<lparr>current := last (current s # ys)\<rparr>)"
  have skip: "get_next_ip_loop s = get_next_ip_loop ?s"
    and w: "walk (factor (params s)) (modulus (params s)) (last (current s # ys)) (x # zs)"
    using loop_skip [OF assms(1,3,4)] by (simp_all del: last.simps walk.simps)
  have x: "x = current ?s * factor (params ?s) mod modulus (params ?s)" "fits (last_elem (params ?s))"
    using w assms(4) by simp_all
  have next_ip: "xm_shard_get_next_ip s = get_next_ip_loop ?s"
    using skip assms(2) by (simp add: xm_shard_get_next_ip_def XM_SHARD_DONE_def)
  show "x = last_elem (params s) \<Longrightarrow> \<exists>s'. xm_shard_get_next_ip s = Some (0, s') \<and> current s' = 0 \<and> wblist s' = wblist s"
    unfolding next_ip by (subst loop_cases(2) [OF x(1) assms(5) x(2)]) simp_all
  assume "x \<noteq> last_elem (params s)" "valid_elem (max_index s) x"
  then have "get_next_ip_loop ?s = Some (target_of (wblist s) x, count_white (?s\<lparr>current := x\<rparr>))"
    using loop_cases(3) [OF x(1) assms(5) x(2)] assms(6) by (simp add: target_of_def)
  then show "\<exists>s'. xm_shard_get_next_ip s = Some (target_of (wblist s) x, s') \<and> current s' = x \<and>
      params s' = params s \<and> max_index s' = max_index s \<and> wblist s' = wblist s \<and>
      walk (factor (params s)) (modulus (params s)) x zs"
    unfolding next_ip using w by (cases "ys = []") auto
qed

lemma shard_ips_walk:
  assumes "walk (factor (params s)) (modulus (params s)) (current s) (xs @ [last_elem (params s)])"
    "current s \<noteq> 0" "0 \<notin> set xs" "last_elem (params s) \<notin> set xs" "last_elem (params s) \<noteq> 0"
    "fits (last_elem (params s))" "wblist_ready (wblist s)"
    "max_index s \<le> xm_wblist_count_allowed (wblist s)"
  shows "shard_ips (Suc (length (filter (valid_elem (max_index s)) xs))) s =
    Some (map (target_of (wblist s)) (filter (valid_elem (max_index s)) xs))"
  using assms
proof (induction "length xs" arbitrary: xs s rule: less_induct)
  case less
  show ?case
  proof (cases "\<exists>x \<in> set xs. valid_elem (max_index s) x")
    case False
    then have "filter (valid_elem (max_index s)) xs = []" by (auto simp: filter_empty_conv)
    moreover have "\<exists>s'. xm_shard_get_next_ip s = Some (0, s') \<and> current s' = 0"
      using less.prems False get_next_ip_walk(1) [of s xs "last_elem (params s)" "[]"] by auto
    ultimately show ?thesis by (auto simp: XM_SHARD_DONE_def)
  next
    case True
    then obtain ys x zs where xs: "xs = ys @ x # zs" "valid_elem (max_index s) x"
      "\<forall>y \<in> set ys. \<not> valid_elem (max_index s) y"
      using split_list_first_prop by metis
    obtain s' where s': "xm_shard_get_next_ip s = Some (target_of (wblist s) x, s')" "current s' = x"
      "params s' = params s" "max_index s' = max_index s" "wblist s' = wblist s"
      "walk (factor (params s)) (modulus (params s)) x (zs @ [last_elem (params s)])"
      using less.prems xs get_next_ip_walk(2) [of s ys x "zs @ [last_elem (params s)]"] by auto
    have "shard_ips (Suc (length (filter (valid_elem (max_index s')) zs))) s' =
        Some (map (target_of (wblist s')) (filter (valid_elem (max_index s')) zs))"
      using less.prems s' by (intro less.hyps) (auto simp: xs)
    moreover have "filter (valid_elem (max_index s)) xs = x # filter (valid_elem (max_index s)) zs"
      using xs by (simp add: filter_empty_conv)
    ultimately show ?thesis
      using s' target_nonzero [OF less.prems(7) xs(2) less.prems(8)] by (simp add: XM_SHARD_DONE_def)
  qed
qed

section \<open>The cycle and its division into shards\<close>

definition elem :: "xm_cycle \<Rightarrow> nat \<Rightarrow> u64" where
  "elem cy k = of_nat (unat (generator cy) ^ k mod unat (prime (cgroup cy)))"

text \<open>A cycle whose generator is one, with products that fit 64 bits.\<close>

definition cycle_ok :: "xm_cycle \<Rightarrow> bool" where
  "cycle_ok cy \<longleftrightarrow> 2 < unat (prime (cgroup cy)) \<and>
     has_order (unat (generator cy)) (unat (prime (cgroup cy))) (unat (prime (cgroup cy)) - 1) \<and>
     unat (order cy) = unat (prime (cgroup cy)) - 1 \<and>
     unat (generator cy) * unat (prime (cgroup cy)) \<le> 2 ^ 64"

lemma unat_elem:
  assumes "cycle_ok cy"
  shows "unat (elem cy k) = unat (generator cy) ^ k mod unat (prime (cgroup cy))"
proof -
  have "unat (generator cy) ^ k mod unat (prime (cgroup cy)) < unat (prime (cgroup cy))"
    using assms by (simp add: cycle_ok_def)
  also have "\<dots> < 18446744073709551616" by (rule unat_lt_u64)
  finally show ?thesis by (simp add: elem_def)
qed

lemma elem_Suc:
  assumes "cycle_ok cy"
  shows "elem cy (Suc k) = elem cy k * generator cy mod prime (cgroup cy)"
proof (rule word_eqI_unat)
  let ?p = "unat (prime (cgroup cy))" and ?g = "unat (generator cy)"
  have "0 < ?g"
    using assms by (cases "?g = 0") (auto simp: cycle_ok_def has_order_def power_0_left split: if_splits)
  then have "(?g ^ k mod ?p) * ?g < ?p * ?g" using assms by (simp add: cycle_ok_def)
  also have "\<dots> \<le> 2 ^ 64" using assms by (simp add: cycle_ok_def mult.commute)
  finally have "unat (elem cy k * generator cy) = (?g ^ k mod ?p) * ?g"
    by (subst unat_mult_small) (simp_all add: unat_elem [OF assms])
  then show "unat (elem cy (Suc k)) = unat (elem cy k * generator cy mod prime (cgroup cy))"
    by (simp add: unat_elem [OF assms] unat_mod mod_mult_right_eq mult.commute)
qed

lemma walk_elems:
  assumes "cycle_ok cy"
  shows "walk (generator cy) (prime (cgroup cy)) (elem cy b) (map (elem cy) [Suc b..<Suc b + n])"
proof (induction n arbitrary: b)
  case (Suc n)
  show ?case using Suc [of "Suc b"] by (simp add: upt_conv_Cons elem_Suc [OF assms] del: upt_Suc)
qed simp

lemma elem_cong:
  assumes "cycle_ok cy" "i mod unat (order cy) = j mod unat (order cy)"
  shows "elem cy i = elem cy j"
proof -
  let ?p = "unat (prime (cgroup cy))" and ?g = "unat (generator cy)" and ?q = "unat (order cy)"
  have "elem cy k = elem cy (k mod ?q)" for k
  proof -
    have one: "?g ^ (?q * (k div ?q)) mod ?p = 1 mod ?p"
      using assms(1) unfolding cycle_ok_def has_order_def by (metis dvd_triv_left)
    have "?g ^ k mod ?p = ?g ^ (?q * (k div ?q)) * ?g ^ (k mod ?q) mod ?p"
      by (simp flip: power_add)
    also have "\<dots> = ?g ^ (k mod ?q) mod ?p" by (metis one mod_mult_left_eq mult_1)
    finally show ?thesis by (simp add: elem_def)
  qed
  then show ?thesis using assms(2) by metis
qed

lemma elem_bij: "cycle_ok cy \<Longrightarrow> bij_betw (\<lambda>k. unat (elem cy k)) {..<unat (order cy)} {1..<unat (prime (cgroup cy))}"
  using generates [of "unat (generator cy)" "unat (prime (cgroup cy))"] by (simp add: unat_elem cycle_ok_def)

lemma elem_nonzero: "cycle_ok cy \<Longrightarrow> elem cy k \<noteq> 0"
proof -
  assume ok: "cycle_ok cy"
  then have "0 < unat (order cy)" by (simp add: cycle_ok_def)
  then have "unat (elem cy (k mod unat (order cy))) \<in> {1..<unat (prime (cgroup cy))}"
    by (intro bij_betw_apply [OF elem_bij [OF ok]]) simp
  moreover have "elem cy (k mod unat (order cy)) = elem cy k" by (rule elem_cong [OF ok]) simp
  ultimately show ?thesis by auto
qed

lemma elem_inj:
  assumes "cycle_ok cy" "elem cy i = elem cy j" "i \<le> j" "j < i + unat (order cy)"
  shows "i = j"
proof -
  let ?q = "unat (order cy)"
  have q: "0 < ?q" using assms(1) by (simp add: cycle_ok_def)
  have "elem cy (i mod ?q) = elem cy (j mod ?q)"
    using assms(2) elem_cong [OF assms(1), of "i mod ?q" i] elem_cong [OF assms(1), of "j mod ?q" j] by simp
  then have "i mod ?q = j mod ?q"
    using bij_betw_imp_inj_on [OF elem_bij [OF assms(1)]] q by (auto simp: inj_on_def)
  then have "?q dvd j - i" using assms(3) by (metis mod_eq_dvd_iff_nat)
  then show ?thesis using assms(3,4) q dvd_imp_le [of ?q "j - i"] by fastforce
qed

lemma elems_distinct: "cycle_ok cy \<Longrightarrow> n \<le> unat (order cy) \<Longrightarrow> distinct (map (elem cy) [b..<b + n])"
proof -
  assume a: "cycle_ok cy" "n \<le> unat (order cy)"
  have "inj_on (elem cy) {b..<b + n}"
    using a(2) by (intro linorder_inj_onI) (auto dest!: elem_inj [OF a(1)])
  then show ?thesis by (simp add: distinct_map)
qed

text \<open>Subshard \<open>i\<close> of \<open>S\<close> starts at exponent \<open>(Q div S) * i\<close>; the last one takes the rest.\<close>

definition shard_len :: "xm_cycle \<Rightarrow> nat \<Rightarrow> nat \<Rightarrow> nat" where
  "shard_len cy S i = (if Suc i = S then unat (order cy) - unat (order cy) div S * i
     else unat (order cy) div S)"

definition shard_elems :: "xm_cycle \<Rightarrow> nat \<Rightarrow> nat \<Rightarrow> u64 list" where
  "shard_elems cy S i =
     (let b = unat (offset cy) + unat (order cy) div S * i
      in map (elem cy) [b..<b + shard_len cy S i])"

lemma shard_elems_concat:
  assumes "0 < S"
  shows "concat (map (shard_elems cy S) [0..<S]) =
    map (elem cy) [unat (offset cy)..<unat (offset cy) + unat (order cy)]"
proof -
  let ?E = "unat (order cy) div S" and ?o = "unat (offset cy)"
  have "concat (map (shard_elems cy S) [0..<n]) = map (elem cy) [?o..<?o + ?E * n]" if "n < S" for n
    using that
  proof (induction n)
    case (Suc n)
    have "[?o..<?o + ?E * Suc n] = [?o..<?o + ?E * n] @ [?o + ?E * n..<?o + ?E * n + ?E]"
      using upt_add_eq_append [of ?o "?o + ?E * n" ?E] by (simp add: algebra_simps)
    then show ?case using Suc by (simp add: shard_elems_def shard_len_def Let_def)
  qed simp
  from this [of "S - 1"] obtain m where m: "S = Suc m"
    "concat (map (shard_elems cy S) [0..<m]) = map (elem cy) [?o..<?o + ?E * m]"
    using assms by (cases S) auto
  have "?E * m \<le> unat (order cy)" using mult_le_mono2 [of m S ?E] div_times_less_eq_dividend [of "unat (order cy)" S]
    by (simp add: m(1) mult.commute)
  then have "[?o..<?o + unat (order cy)] = [?o..<?o + ?E * m] @ [?o + ?E * m..<?o + unat (order cy)]"
    using upt_add_eq_append [of ?o "?o + ?E * m" "unat (order cy) - ?E * m"] by simp
  then show ?thesis
    using m(2) \<open>?E * m \<le> unat (order cy)\<close> by (simp add: m(1) shard_elems_def shard_len_def Let_def)
qed

section \<open>What a created shard emits\<close>

lemma unat_sub_index:
  "unat (sub_index sh nt th) = unat sh * unat nt + unat th"
proof -
  have "unat sh < 65536" "unat nt < 256" "unat th < 256"
    using unsigned_less [of sh] unsigned_less [of nt] unsigned_less [of th] by simp_all
  then have "unat sh \<le> 65535" "unat nt \<le> 255" and th: "unat th \<le> 255" by linarith+
  then have b: "unat sh * unat nt \<le> 65535 * 255" by (intro mult_le_mono)
  have u: "unat (ucast sh :: u32) = unat sh" "unat (ucast nt :: u32) = unat nt" "unat (ucast th :: u32) = unat th"
    using \<open>unat sh < 65536\<close> \<open>unat nt < 256\<close> \<open>unat th < 256\<close> by (simp_all add: unat_ucast_small)
  show ?thesis
    unfolding sub_index_def using b th u by (simp add: unat_add_small unat_mult_small)
qed

lemma unat_num_subshards: "unat (ucast (ns :: u16) * ucast (nt :: u8) :: u32) = unat ns * unat nt"
proof -
  have "unat ns < 65536" "unat nt < 256"
    using unsigned_less [of ns] unsigned_less [of nt] by simp_all
  then have "unat ns \<le> 65535" "unat nt \<le> 255" by linarith+
  then have b: "unat ns * unat nt \<le> 65535 * 255" by (intro mult_le_mono)
  have "unat (ucast ns :: u32) = unat ns" "unat (ucast nt :: u32) = unat nt"
    using \<open>unat ns < 65536\<close> \<open>unat nt < 256\<close> by (simp_all add: unat_ucast_small)
  then show ?thesis using b by (simp add: unat_mult_small)
qed

lemma unat_exponent:
  assumes "unat (order cy) < 2 ^ 33" "unat i \<le> unat S" "unat S < 2 ^ 31" "S \<noteq> 0"
  shows "unat (exponent_begin (order cy) S i (offset cy)) =
      (unat (offset cy) + unat (order cy) div unat S * unat i) mod unat (order cy)"
    and "unat (exponent_end (order cy) S i (offset cy)) =
      (unat (offset cy) + unat (order cy) div unat S * (Suc (unat i) mod unat S)) mod unat (order cy)"
proof -
  let ?Q = "unat (order cy)" and ?S = "unat S"
  have E: "unat (order cy div ucast S) = ?Q div ?S" by (simp add: unat_div)
  have main: "unat ((order cy div ucast S * ucast j + ucast (offset cy)) mod order cy) =
      (unat (offset cy) + ?Q div ?S * unat j) mod ?Q" if "unat j \<le> ?S" for j :: u32
  proof -
    have "?Q div ?S * unat j \<le> ?Q div ?S * ?S" using that by (rule mult_le_mono2)
    also have "\<dots> \<le> ?Q" by simp
    finally have b: "?Q div ?S * unat j < 2 ^ 33" using assms(1) by simp
    have m: "unat (order cy div ucast S * ucast j) = ?Q div ?S * unat j"
      using b E by (subst unat_mult_small) simp_all
    have "unat (order cy div ucast S * ucast j + ucast (offset cy)) = unat (offset cy) + ?Q div ?S * unat j"
      using b m unat_lt_u32 [of "offset cy"] by (subst unat_add_small) simp_all
    then show ?thesis by (simp add: unat_mod)
  qed
  show "unat (exponent_begin (order cy) S i (offset cy)) =
      (unat (offset cy) + ?Q div ?S * unat i) mod ?Q"
    unfolding exponent_begin_def using assms(2) by (intro main) simp
  have "unat (i + 1) = Suc (unat i)" using assms(2,3) unat_add_small [of i 1] by simp
  then have "unat ((i + 1) mod S) = Suc (unat i) mod ?S" by (simp add: unat_mod)
  then show "unat (exponent_end (order cy) S i (offset cy)) =
      (unat (offset cy) + ?Q div ?S * (Suc (unat i) mod ?S)) mod ?Q"
    unfolding exponent_end_def using main [of "(i + 1) mod S"] assms(4)
    by (metis less_imp_le mod_less_divisor unat_gt_0 word_neq_0_conv)
qed

lemma shard_bounds:
  assumes "i < S"
  shows "unat (order cy) div S * i + shard_len cy S i \<le> unat (order cy)"
    and "shard_len cy S i \<le> unat (order cy)"
proof -
  let ?Q = "unat (order cy)"
  have "?Q div S * Suc i \<le> ?Q div S * S" using assms by (intro mult_le_mono2) simp
  also have "\<dots> \<le> ?Q" by simp
  finally show "?Q div S * i + shard_len cy S i \<le> ?Q" by (simp add: shard_len_def)
  then show "shard_len cy S i \<le> ?Q" by simp
qed

lemma shard_len_pos: "i < S \<Longrightarrow> S \<le> unat (order cy) \<Longrightarrow> 0 < shard_len cy S i"
proof -
  assume a: "i < S" "S \<le> unat (order cy)"
  then have e: "0 < unat (order cy) div S" by (simp add: div_greater_zero_iff)
  have "unat (order cy) div S * Suc i \<le> unat (order cy) div S * S" using a(1) by (intro mult_le_mono2) simp
  also have "\<dots> \<le> unat (order cy)" by simp
  finally show ?thesis using e by (simp add: shard_len_def)
qed

text \<open>A range of exponents splits into its start and a walk to the element behind it.\<close>

lemma range_walk:
  assumes "cycle_ok cy" "0 < n" "n \<le> unat (order cy)"
  shows "map (elem cy) [b..<b + n] = elem cy b # map (elem cy) [Suc b..<b + n]"
    and "walk (generator cy) (prime (cgroup cy)) (elem cy b) (map (elem cy) [Suc b..<b + n] @ [elem cy (b + n)])"
    and "elem cy (b + n) \<notin> set (map (elem cy) [Suc b..<b + n])"
    and "0 \<notin> set (map (elem cy) [Suc b..<b + n])"
proof -
  show "map (elem cy) [b..<b + n] = elem cy b # map (elem cy) [Suc b..<b + n]" using assms(2) by (simp add: upt_conv_Cons)
  have "[Suc b..<Suc b + n] = [Suc b..<b + n] @ [b + n]" using assms(2) by simp
  then show "walk (generator cy) (prime (cgroup cy)) (elem cy b) (map (elem cy) [Suc b..<b + n] @ [elem cy (b + n)])"
    using walk_elems [OF assms(1), of b n] by simp
  show "elem cy (b + n) \<notin> set (map (elem cy) [Suc b..<b + n])"
    using assms(3) elem_inj [OF assms(1), of _ "b + n"] by fastforce
  show "0 \<notin> set (map (elem cy) [Suc b..<b + n])" using elem_nonzero [OF assms(1)] by auto
qed

lemma valid_elem_small: "x - 1 < mx \<Longrightarrow> unat mx < 2 ^ 32 \<Longrightarrow> x \<noteq> 0 \<Longrightarrow> valid_elem mx x"
proof -
  assume a: "x - 1 < mx" "unat mx < 2 ^ 32" "x \<noteq> 0"
  then have "unat (x - 1) = unat x - 1" "1 \<le> unat x"
    by (simp_all add: unat_sub_small unat_gt_0 Suc_le_eq)
  then have "unat x < 2 ^ 32" using a(1,2) by (simp add: word_less_nat_alt)
  then show ?thesis using a(1) by (simp add: valid_elem_def fits_def word_less_nat_alt)
qed

text \<open>A shard that starts at the first of its elements and rolls to the first target.\<close>

lemma roll_walk:
  assumes "walk (factor (params s)) (modulus (params s)) (current s) (xs @ [last_elem (params s)])"
    "current s \<noteq> 0" "0 \<notin> set xs" "last_elem (params s) \<notin> set xs" "last_elem (params s) \<noteq> 0"
    "fits (last_elem (params s))" "wblist_ready (wblist s)"
    "max_index s \<le> xm_wblist_count_allowed (wblist s)"
    and T: "T = filter (valid_elem (max_index s)) (current s # xs)"
  shows "\<exists>s'. map_option snd (shard_roll_to_valid s) = Some s' \<and> wblist s' = wblist s \<and>
    (if T = [] then current s' = 0
     else fst (xm_shard_get_cur_ip s') = target_of (wblist s) (hd T) \<and>
       shard_ips (length T) s' = Some (map (target_of (wblist s)) (tl T)))"
proof -
  have mx: "unat (max_index s) < 2 ^ 32"
    using wbl.count_bound [OF assms(7)] assms(8) by (simp add: word_le_nat_alt)
  have cur: "fst (xm_shard_get_cur_ip s') = target_of (wblist s') (current s')" if "wblist_ready (wblist s')" for s'
    using shard_lookup_ready [OF that] by (simp add: xm_shard_get_cur_ip_def target_of_def)
  show ?thesis
  proof (cases "valid_elem (max_index s) (current s)")
    case True
    then show ?thesis
      using shard_ips_walk [OF assms(1-8)] cur [OF assms(7)] True
      by (simp add: shard_roll_to_valid_def T valid_elem_def del: shard_ips.simps)
  next
    case False
    then have roll: "shard_roll_to_valid s = xm_shard_get_next_ip s"
      using valid_elem_small [OF _ mx assms(2)] by (auto simp: shard_roll_to_valid_def)
    show ?thesis
    proof (cases "T = []")
      case True
      then have "\<exists>s'. xm_shard_get_next_ip s = Some (0, s') \<and> current s' = 0 \<and> wblist s' = wblist s"
        using assms by (intro get_next_ip_walk(1) [of s xs "last_elem (params s)" "[]"])
          (auto simp: filter_empty_conv split: if_splits)
      then show ?thesis using True roll by auto
    next
      case nonempty: False
      then have "\<exists>x \<in> set xs. valid_elem (max_index s) x" using False by (auto simp: T filter_empty_conv)
      then obtain ys x zs where xs: "xs = ys @ x # zs" "valid_elem (max_index s) x"
        "\<forall>y \<in> set ys. \<not> valid_elem (max_index s) y"
        using split_list_first_prop by metis
      obtain s' where s': "xm_shard_get_next_ip s = Some (target_of (wblist s) x, s')" "current s' = x"
        "params s' = params s" "max_index s' = max_index s" "wblist s' = wblist s"
        "walk (factor (params s)) (modulus (params s)) x (zs @ [last_elem (params s)])"
        using assms(1-7) xs get_next_ip_walk(2) [of s ys x "zs @ [last_elem (params s)]"] by auto
      have "T = x # filter (valid_elem (max_index s)) zs"
        using xs False by (simp add: T filter_empty_conv)
      moreover have "shard_ips (Suc (length (filter (valid_elem (max_index s')) zs))) s' =
          Some (map (target_of (wblist s')) (filter (valid_elem (max_index s')) zs))"
        using assms(1-8) s' xs by (intro shard_ips_walk) auto
      ultimately show ?thesis
        using roll s' cur [of s'] assms(7) by (simp del: shard_ips.simps)
    qed
  qed
qed

lemma unat_elem_lt: "cycle_ok cy \<Longrightarrow> unat (elem cy k) < unat (prime (cgroup cy))"
  by (simp add: unat_elem cycle_ok_def)

lemma of_nat_powm:
  assumes "cycle_ok cy" "\<And>b e m. powm b e m = b ^ e mod m" "k mod unat (order cy) = j mod unat (order cy)"
  shows "of_nat (powm (unat (generator cy)) k (unat (prime (cgroup cy)))) = elem cy j"
  using elem_cong [OF assms(1,3)] by (simp add: assms(2) elem_def)

definition shard_targets :: "xm_cycle \<Rightarrow> nat \<Rightarrow> u64 \<Rightarrow> nat \<Rightarrow> u64 list" where
  "shard_targets cy S mx i = filter (valid_elem mx) (shard_elems cy S i)"

text \<open>The indexes that all shards of one cycle draw.\<close>

lemma shard_indices:
  assumes "cycle_ok cy" "0 < S" "unat mx < unat (prime (cgroup cy))" "unat mx < 2 ^ 32"
  shows "distinct (map (\<lambda>x. x - 1) (concat (map (shard_targets cy S mx) [0..<S])))"
    and "set (map (\<lambda>x. x - 1) (concat (map (shard_targets cy S mx) [0..<S]))) = {..<mx}"
proof -
  let ?all = "map (elem cy) [unat (offset cy)..<unat (offset cy) + unat (order cy)]"
  have all: "concat (map (shard_targets cy S mx) [0..<S]) = filter (valid_elem mx) ?all"
    unfolding shard_targets_def shard_elems_concat [OF assms(2), symmetric]
    by (simp add: filter_concat comp_def)
  have d: "distinct ?all" by (rule elems_distinct [OF assms(1)]) simp
  have "inj_on (\<lambda>x. x - 1) (set (filter (valid_elem mx) ?all))" by (auto simp: inj_on_def)
  with d show "distinct (map (\<lambda>x. x - 1) (concat (map (shard_targets cy S mx) [0..<S])))"
    unfolding all by (simp add: distinct_map)
  have "unat ` set ?all \<subseteq> {1..<unat (prime (cgroup cy))}"
    using unat_elem_lt [OF assms(1)] elem_nonzero [OF assms(1)] by (auto simp: Suc_le_eq unat_gt_0)
  moreover have "card (unat ` set ?all) = card {1..<unat (prime (cgroup cy))}"
  proof -
    have "card (unat ` set ?all) = card (set ?all)" by (intro card_image inj_onI, erule word_eqI_unat)
    also have "\<dots> = length ?all" by (rule distinct_card [OF d])
    also have "\<dots> = unat (prime (cgroup cy)) - 1" using assms(1) by (simp add: cycle_ok_def)
    finally show ?thesis by simp
  qed
  ultimately have u: "unat ` set ?all = {1..<unat (prime (cgroup cy))}"
    by (intro card_subset_eq) auto
  have mem: "x \<in> set ?all" if "1 \<le> unat x" "unat x < unat (prime (cgroup cy))" for x
  proof -
    have "unat x \<in> unat ` set ?all" unfolding u using that by simp
    then show ?thesis by (metis imageE word_unat_eq_iff)
  qed
  show "set (map (\<lambda>x. x - 1) (concat (map (shard_targets cy S mx) [0..<S]))) = {..<mx}"
  proof
    show "set (map (\<lambda>x. x - 1) (concat (map (shard_targets cy S mx) [0..<S]))) \<subseteq> {..<mx}"
      unfolding all by (auto simp: valid_elem_def)
    show "{..<mx} \<subseteq> set (map (\<lambda>x. x - 1) (concat (map (shard_targets cy S mx) [0..<S])))"
    proof
      fix i assume "i \<in> {..<mx}"
      then have i: "i < mx" by simp
      then have s: "unat (i + 1) = unat i + 1"
        using assms(4) unat_add_small [of i 1] by (simp add: word_less_nat_alt)
      then have "i + 1 \<noteq> 0" by (metis add_is_0 unat_0 zero_neq_one)
      have "i + 1 \<in> set ?all" using s i assms(3) by (intro mem) (simp_all add: word_less_nat_alt)
      moreover have "valid_elem mx (i + 1)"
        using valid_elem_small [of "i + 1" mx] i assms(4) \<open>i + 1 \<noteq> 0\<close> by simp
      ultimately have "i + 1 \<in> set (filter (valid_elem mx) ?all)" by simp
      then have "i + 1 - 1 \<in> (\<lambda>x. x - 1) ` set (filter (valid_elem mx) ?all)" by (rule imageI)
      then show "i \<in> set (map (\<lambda>x. x - 1) (concat (map (shard_targets cy S mx) [0..<S])))"
        unfolding all by simp
    qed
  qed
qed

text \<open>What a created shard emits, when its exponents are those of a range of the cycle.\<close>

lemma created_emits:
  assumes "cycle_ok cy" "\<And>b e m. powm b e m = b ^ e mod m" "unat ns * unat nt \<noteq> 0"
    "unat (exponent_begin (order cy) (ucast ns * ucast nt) (sub_index sh nt th) (offset cy)) = b mod unat (order cy)"
    "unat (exponent_end (order cy) (ucast ns * ucast nt) (sub_index sh nt th) (offset cy)) = (b + n) mod unat (order cy)"
    "0 < n" "n \<le> unat (order cy)" "wblist_ready wb" "mx \<le> xm_wblist_count_allowed wb" "fits (elem cy (b + n))"
    and T: "T = filter (valid_elem mx) (map (elem cy) [b..<b + n])"
  shows "\<exists>s. xm_shard_create powm mem sh ns th nt max_total mx cy wb = Some s \<and> wblist s = wb \<and>
    (if T = [] then current s = 0
     else fst (xm_shard_get_cur_ip s) = target_of wb (hd T) \<and>
       shard_ips (length T) s = Some (map (target_of wb) (tl T)))"
proof -
  let ?Sw = "ucast ns * ucast nt :: u32" and ?i = "sub_index sh nt th"
  have nz: "?Sw \<noteq> 0" using assms(3) unat_num_subshards [of ns nt] by auto
  have start: "of_nat (powm (unat (generator cy)) (unat (exponent_begin (order cy) ?Sw ?i (offset cy)))
      (unat (prime (cgroup cy)))) = elem cy b"
    by (rule of_nat_powm [OF assms(1,2)]) (simp add: assms(4))
  have stop: "of_nat (powm (unat (generator cy)) (unat (exponent_end (order cy) ?Sw ?i (offset cy)))
      (unat (prime (cgroup cy)))) = elem cy (b + n)"
    by (rule of_nat_powm [OF assms(1,2)]) (simp add: assms(5))
  define s0 where "s0 = \<lparr>state = (if max_total > 0 then mem\<lparr>max_targets := targets_of_shard max_total ?Sw ?i\<rparr> else mem),
     params = \<lparr>first = elem cy b, last_elem = elem cy (b + n), factor = generator cy,
       modulus = prime (cgroup cy)\<rparr>,
     current = elem cy b, max_index = mx, wblist = wb\<rparr>"
  have create: "xm_shard_create powm mem sh ns th nt max_total mx cy wb = map_option snd (shard_roll_to_valid s0)"
    using nz assms(1) by (auto simp: xm_shard_create_def Let_def start stop s0_def cycle_ok_def)
  note w = range_walk [OF assms(1,6,7), of b]
  have "\<exists>s'. map_option snd (shard_roll_to_valid s0) = Some s' \<and> wblist s' = wblist s0 \<and>
    (if T = [] then current s' = 0
     else fst (xm_shard_get_cur_ip s') = target_of (wblist s0) (hd T) \<and>
       shard_ips (length T) s' = Some (map (target_of (wblist s0)) (tl T)))"
    by (rule roll_walk [of s0 "map (elem cy) [Suc b..<b + n]" T])
      (use w(2-4) assms(8-10) elem_nonzero [OF assms(1)] T w(1) in \<open>simp_all add: s0_def\<close>)
  moreover have "wblist s0 = wb" by (simp add: s0_def)
  ultimately show ?thesis unfolding create by (simp only:)
qed

text \<open>The ranges of the subshards.\<close>

lemma unat_subshard_exponents:
  fixes ns :: u16
  assumes "unat (order cy) < 2 ^ 33" "unat (sub_index sh nt th) \<le> unat ns * unat nt" "unat ns * unat nt \<noteq> 0"
  shows "unat (exponent_begin (order cy) (ucast ns * ucast nt) (sub_index sh nt th) (offset cy)) =
      (unat (offset cy) + unat (order cy) div (unat ns * unat nt) * unat (sub_index sh nt th)) mod unat (order cy)"
    and "unat (exponent_end (order cy) (ucast ns * ucast nt) (sub_index sh nt th) (offset cy)) =
      (unat (offset cy) + unat (order cy) div (unat ns * unat nt) *
        (Suc (unat (sub_index sh nt th)) mod (unat ns * unat nt))) mod unat (order cy)"
proof -
  let ?Sw = "ucast ns * ucast nt :: u32"
  have S: "unat ?Sw = unat ns * unat nt" by (rule unat_num_subshards)
  have "unat ns < 2 ^ 16" "unat nt < 2 ^ 8" using unsigned_less [of ns] unsigned_less [of nt] by simp_all
  then have "unat ns * unat nt \<le> (2 ^ 16 - 1) * (2 ^ 8 - 1)" by (intro mult_le_mono) auto
  then have lt: "unat ?Sw < 2 ^ 31" by (simp add: S)
  have nz: "?Sw \<noteq> 0" using assms(3) S by auto
  note ex = unat_exponent [OF assms(1) _ lt nz, of "sub_index sh nt th", unfolded S, OF assms(2)]
  show "unat (exponent_begin (order cy) (ucast ns * ucast nt) (sub_index sh nt th) (offset cy)) =
      (unat (offset cy) + unat (order cy) div (unat ns * unat nt) * unat (sub_index sh nt th)) mod unat (order cy)"
    and "unat (exponent_end (order cy) (ucast ns * ucast nt) (sub_index sh nt th) (offset cy)) =
      (unat (offset cy) + unat (order cy) div (unat ns * unat nt) *
        (Suc (unat (sub_index sh nt th)) mod (unat ns * unat nt))) mod unat (order cy)"
    by (fact ex)+
qed

lemma shard_end:
  assumes "i < S"
  shows "(unat (offset cy) + unat (order cy) div S * i + shard_len cy S i) mod unat (order cy) =
    (unat (offset cy) + unat (order cy) div S * (Suc i mod S)) mod unat (order cy)"
proof (cases "Suc i = S")
  case True
  then have "unat (order cy) div S * i + shard_len cy S i = unat (order cy)"
    using shard_bounds(1) [OF assms, of cy] by (simp add: shard_len_def)
  then show ?thesis using True by (simp add: add.assoc)
next
  case False
  then show ?thesis using assms by (simp add: shard_len_def algebra_simps)
qed

section \<open>Properties\<close>

text \<open>What a subshard emits.\<close>

lemma subshard_emits:
  assumes "cycle_ok cy" "unat (order cy) < 2 ^ 33" "\<And>b e m. powm b e m = b ^ e mod m"
    "unat (sub_index sh nt th) < unat ns * unat nt" "unat ns * unat nt \<le> unat (order cy)"
    "wblist_ready wb" "mx \<le> xm_wblist_count_allowed wb"
    "fits (elem cy (unat (offset cy) + unat (order cy) div (unat ns * unat nt) *
       (Suc (unat (sub_index sh nt th)) mod (unat ns * unat nt))))"
  defines "T \<equiv> shard_targets cy (unat ns * unat nt) mx (unat (sub_index sh nt th))"
  shows "\<exists>s. xm_shard_create powm mem sh ns th nt max_total mx cy wb = Some s \<and> wblist s = wb \<and>
    (if T = [] then current s = 0
     else fst (xm_shard_get_cur_ip s) = target_of wb (hd T) \<and>
       shard_ips (length T) s = Some (map (target_of wb) (tl T)))"
proof -
  define S where "S = unat ns * unat nt"
  define i where "i = unat (sub_index sh nt th)"
  define b where "b = unat (offset cy) + unat (order cy) div S * i"
  have i: "i < S" "S \<le> unat (order cy)" using assms(4,5) by (simp_all add: S_def i_def)
  have e: "(b + shard_len cy S i) mod unat (order cy) =
      (unat (offset cy) + unat (order cy) div S * (Suc i mod S)) mod unat (order cy)"
    using shard_end [OF i(1)] by (simp add: b_def add.assoc)
  then have "fits (elem cy (b + shard_len cy S i))"
    using assms(8) elem_cong [OF assms(1) e] by (simp add: S_def i_def)
  moreover have "T = filter (valid_elem mx) (map (elem cy) [b..<b + shard_len cy S i])"
    by (simp add: T_def shard_targets_def shard_elems_def b_def i_def S_def Let_def)
  moreover have "unat ns * unat nt \<noteq> 0" "unat (sub_index sh nt th) \<le> unat ns * unat nt"
    using assms(4) by (linarith, simp)
  note ex = unat_subshard_exponents [OF assms(2) this(2,1), folded S_def i_def] and nz = this(1)
  have "unat (exponent_begin (order cy) (ucast ns * ucast nt) (sub_index sh nt th) (offset cy)) = b mod unat (order cy)"
    "unat (exponent_end (order cy) (ucast ns * ucast nt) (sub_index sh nt th) (offset cy)) =
      (b + shard_len cy S i) mod unat (order cy)"
    using ex e by (simp_all add: b_def)
  note created_emits [OF assms(1,3) nz this shard_len_pos [OF i] shard_bounds(2) [OF i(1)] assms(6,7)]
  ultimately show ?thesis by blast
qed

text \<open>Property C6. A shard of a cycle with a true generator emits the addresses of exactly the
  targets in its range of exponents, in order, and then reports that it is done: the first
  one as its current address, the others by \<open>xm_shard_get_next_ip\<close>.  Without a target in its
  range it is done at once.\<close>

theorem shard_emits_targets:
  assumes "cycle_ok cy" "unat (order cy) < 2 ^ 33" "\<And>b e m. powm b e m = b ^ e mod m"
    "unat (sub_index sh nt th) < unat ns * unat nt" "unat ns * unat nt \<le> unat (order cy)"
    "wblist_ready wb" "mx \<le> xm_wblist_count_allowed wb"
    "fits (elem cy (unat (offset cy) + unat (order cy) div (unat ns * unat nt) *
       (Suc (unat (sub_index sh nt th)) mod (unat ns * unat nt))))"
  shows "\<exists>s. xm_shard_create powm mem sh ns th nt max_total mx cy wb = Some s \<and>
    (let T = shard_targets cy (unat ns * unat nt) mx (unat (sub_index sh nt th))
     in if T = [] then current s = 0
        else fst (xm_shard_get_cur_ip s) = target_of wb (hd T) \<and>
          shard_ips (length T) s = Some (map (target_of wb) (tl T)))"
  unfolding Let_def using subshard_emits [OF assms, of mem max_total] by blast


text \<open>The smallest group with its root 3, a cycle for the concrete runs.\<close>

definition demo_cycle :: xm_cycle where
  "demo_cycle = \<lparr>cgroup = groups ! 0, generator = 3, order = 256, offset = 7\<rparr>"

lemma demo_cycle_ok: "cycle_ok demo_cycle" "unat (order demo_cycle) = 256" "unat (prime (cgroup demo_cycle)) = 257"
  using root_order(1) by (simp_all add: demo_cycle_def cycle_ok_def groups_def)

lemma demo_fits: "fits (elem demo_cycle k)"
  using unat_elem_lt [OF demo_cycle_ok(1), of k] by (simp add: fits_def word_less_nat_alt demo_cycle_ok)

lemma demo_list_ready:
  "\<exists>wb. xm_wblist_create demo_env None None (Some [''10.0.0.0/8'']) (Some [''10.1.0.0/16'']) = Inr wb \<and>
    wblist_ready wb \<and> 1 \<le> xm_wblist_count_allowed wb"
proof -
  obtain wb where wb: "xm_wblist_create demo_env None None (Some [''10.0.0.0/8'']) (Some [''10.1.0.0/16'']) = Inr wb"
    using demo_created by blast
  then have "wblist_ready wb" "1 \<le> xm_wblist_count_allowed wb"
    using wblist_create_ready [OF wb demo_zero] wblist_create_tree(2) [OF wb] word_less_1 [of "xm_wblist_count_allowed wb"]
    by (auto simp: word_le_nat_alt Suc_le_eq unat_gt_0 word_neq_0_conv)
  with wb show ?thesis by blast
qed


theorem shard_emits_targets_witness:
  "\<exists>wb s. xm_wblist_create demo_env None None (Some [''10.0.0.0/8'']) (Some [''10.1.0.0/16'']) = Inr wb \<and>
    xm_shard_create modpow (\<lparr>sent = 0, tried_sent = 0, blacklisted = 0, whitelisted = 0, failures = 0,
      first_scanned = 0, max_targets = 0\<rparr>) 1 2 1 3 0 1 demo_cycle wb = Some s \<and>
    (let T = shard_targets demo_cycle 6 1 4
     in if T = [] then current s = 0
        else fst (xm_shard_get_cur_ip s) = target_of wb (hd T) \<and>
          shard_ips (length T) s = Some (map (target_of wb) (tl T)))"
proof -
  obtain wb where wb: "xm_wblist_create demo_env None None (Some [''10.0.0.0/8'']) (Some [''10.1.0.0/16'']) = Inr wb"
    and ready: "wblist_ready wb" "1 \<le> xm_wblist_count_allowed wb" using demo_list_ready by blast
  show ?thesis
    using wb shard_emits_targets [OF demo_cycle_ok(1) _ modpow_power _ _ ready, of 1 3 1 2]
    by (fastforce simp: demo_cycle_ok unat_sub_index demo_fits)
qed

end
