(* ===== verification/Iterate.thy ===== *)
theory Iterate
  imports Shard
begin

text \<open>
  The program \<open>xiterate\<close> (\<open>src/xiterate.c\<close>): the addresses of one shard in the order in which a
  scan with the same seed visits them, one per line.  Its shards are whole scans (one thread
  each), so that the runs of all shards with one seed divide the targets between them.
\<close>

unbundle bit_operations_syntax

section \<open>State\<close>

text \<open>The options of the generated parser, \<open>Some\<close> for one that is given.  The number of
  \<open>--max-targets\<close> is what \<open>_parse_max_hosts\<close> makes of its text with \<open>strtod\<close>.\<close>

record iter_options =
  it_blacklist_file :: "string option"
  it_whitelist_file :: "string option"
  it_inputs :: "string list"
  it_max_targets :: "u32 option"
  it_seed :: "int option"
  it_shard :: "int option"
  it_shards :: "int option"

record xit_conf =
  it_shard_num :: u16
  it_total_shards :: u16
  it_conf_seed :: u64
  it_wblist :: xm_wblist
  it_max_hosts :: u32

datatype iter_error =
  Unreadable | NoList wblist_error | SeedForShards | BothShards | ShardOutOfRange | NoRandomBytes | NullPointer

section \<open>Operations\<close>

text \<open>\<open>access(fname, R_OK) == -1\<close>: a file that cannot be opened.\<close>

definition unreadable :: "environment \<Rightarrow> string option \<Rightarrow> bool" where
  "unreadable env file = (case file of None \<Rightarrow> False | Some f \<Rightarrow> fopen env f = None)"

text \<open>The configuration, with the checks of \<open>main\<close> in their order; \<open>random\<close> are the bytes the
  system gives when there is no seed.\<close>

definition iter_configure :: "environment \<Rightarrow> u64 option \<Rightarrow> iter_options \<Rightarrow> iter_error + xit_conf" where
  "iter_configure env random args =
     (let max_hosts = (case it_max_targets args of None \<Rightarrow> 0 | Some n \<Rightarrow> n);
          given = (\<lambda>opt. opt \<noteq> None)
      in if unreadable env (it_blacklist_file args) then Inl Unreadable
         else if unreadable env (it_whitelist_file args) then Inl Unreadable
         else case xm_wblist_create env (it_whitelist_file args) (it_blacklist_file args)
                (Some (it_inputs args)) None of
                Inl e \<Rightarrow> Inl (NoList e)
              | Inr wb \<Rightarrow>
                  (if (given (it_shard args) \<or> given (it_shards args)) \<and> \<not> given (it_seed args) then Inl SeedForShards
                   else if given (it_shard args) \<noteq> given (it_shards args) then Inl BothShards
                   else
                     let num = (case it_shard args of None \<Rightarrow> 0 | Some v \<Rightarrow> word_of_int v);
                         total = (case it_shards args of None \<Rightarrow> 1 | Some v \<Rightarrow> word_of_int v)
                     in if num \<ge> total then Inl ShardOutOfRange
                        else case (case it_seed args of Some s \<Rightarrow> Some (word_of_int s) | None \<Rightarrow> random) of
                               None \<Rightarrow> Inl NoRandomBytes
                             | Some s \<Rightarrow> Inr \<lparr>it_shard_num = num, it_total_shards = total, it_conf_seed = s,
                                 it_wblist = wb, it_max_hosts = max_hosts\<rparr>))"

text \<open>\<open>_create_shard\<close>; the group and the cycle are used unchecked, and the outer \<open>None\<close> is a call
  that does not return.\<close>

definition iter_create_shard ::
  "(nat \<Rightarrow> nat \<Rightarrow> nat \<Rightarrow> nat) \<Rightarrow> shard_state \<Rightarrow> xm_aesrand \<Rightarrow> xit_conf \<Rightarrow> (iter_error + xm_shard) option" where
  "iter_create_shard powm mem aes conf =
     (let num_addrs = xm_wblist_count_allowed (it_wblist conf)
      in case xm_get_cyclic_group num_addrs of
           None \<Rightarrow> Some (Inl NullPointer)
         | Some g \<Rightarrow>
             (case fst (xm_make_cycle powm g aes) of
                None \<Rightarrow> None
              | Some None \<Rightarrow> Some (Inl NullPointer)
              | Some (Some cycle) \<Rightarrow>
                  map_option Inr (xm_shard_create powm mem (it_shard_num conf) (it_total_shards conf) 0 1
                    (ucast num_addrs) num_addrs cycle (it_wblist conf))))"

text \<open>The loop that prints; the result is the list of addresses printed.\<close>

partial_function (option) iter_print :: "u32 \<Rightarrow> u32 \<Rightarrow> u32 \<Rightarrow> xm_shard \<Rightarrow> u32 list option" where
  "iter_print max_hosts count next_int shard =
     (if next_int = 0 then Some []
      else if max_hosts \<noteq> 0 \<and> count \<ge> max_hosts then Some []
      else Option.bind (xm_shard_get_next_ip shard) (\<lambda>(ip, shard').
        Option.bind (iter_print max_hosts (count + 1) ip shard') (\<lambda>ips. Some (next_int # ips))))"

definition xiterate ::
  "(nat \<Rightarrow> nat \<Rightarrow> nat \<Rightarrow> nat) \<Rightarrow> environment \<Rightarrow> u64 option \<Rightarrow> u32 list \<Rightarrow> shard_state \<Rightarrow> iter_options
   \<Rightarrow> (iter_error + u32 list) option" where
  "xiterate powm env random pool mem args =
     (case iter_configure env random args of
        Inl e \<Rightarrow> Some (Inl e)
      | Inr conf \<Rightarrow>
          (case xm_aesrand_create_from_seed pool (it_conf_seed conf) of
             None \<Rightarrow> Some (Inl NullPointer)
           | Some aes \<Rightarrow>
               Option.bind (iter_create_shard powm mem aes conf) (\<lambda>r.
                 case r of
                   Inl e \<Rightarrow> Some (Inl e)
                 | Inr shard \<Rightarrow>
                     map_option Inr (iter_print (it_max_hosts conf) 0 (fst (xm_shard_get_cur_ip shard))
                       (snd (xm_shard_get_cur_ip shard))))))"

section \<open>Past the end of a list\<close>

lemma lookup_unpainted: "\<exists>ip'. lookup_index (paint_node n v 0) idx ip msk = ucast (ucast (ip' :: u32) OR idx)"
  by (induction n arbitrary: idx ip msk) (auto simp: Let_def case_prod_beta count_size_0)

lemma lookup_past_end:
  assumes "h \<le> 32" "length (leaf_list True v n h b) \<le> unat idx"
  shows "\<exists>ip' k. lookup_index (paint_node n v (push_bit h 1)) idx ip msk = ucast (ucast (ip' :: u32) OR (idx - of_nat k)) \<and>
    k \<le> length (leaf_list True v n h b)"
  using assms
proof (induction n arbitrary: h b idx ip msk)
  case (NLeaf x c)
  show ?case by (intro exI [of _ ip] exI [of _ 0]) (simp add: Let_def)
next
  case (NInner l r x c)
  show ?case
  proof (cases h)
    case 0
    obtain ip' where "lookup_index (paint_node r v 0) idx (ip OR msk) (drop_bit (Suc 0) msk) = ucast (ucast (ip' :: u32) OR idx)"
      using lookup_unpainted by blast
    then show ?thesis using 0 by (intro exI [of _ ip'] exI [of _ 0]) (simp add: Let_def case_prod_beta count_size_0)
  next
    case (Suc k)
    let ?L = "leaf_list True v l k b" and ?R = "leaf_list True v r k (b + 2 ^ k)"
    let ?l = "paint_node l v (push_bit k 1)"
    have cl: "unat (ncount ?l) = length ?L"
      using count_leaf_list [of k l v True True b] NInner.prems Suc by simp
    have unfold: "paint_node (NInner l r x c) v (push_bit h 1) =
        NInner ?l (paint_node r v (push_bit k 1)) x
          (fst (count_ips_recurse (NInner l r x c) v (push_bit h 1) True True))"
      using Suc NInner.prems by (simp add: Let_def case_prod_beta drop_push_u64)
    have le: "length ?L + length ?R \<le> unat idx" using NInner.prems Suc by simp
    then have sub: "unat (idx - ncount ?l) = unat idx - length ?L" using cl by (simp add: unat_sub_small)
    have "k \<le> 32" "length ?R \<le> unat (idx - ncount ?l)" using NInner.prems Suc le sub by simp_all
    from NInner.IH(2) [OF this, of "ip OR msk" "drop_bit 1 msk"]
    obtain ip' j where j: "lookup_index (paint_node r v (push_bit k 1)) (idx - ncount ?l) (ip OR msk) (drop_bit 1 msk) =
        ucast (ucast (ip' :: u32) OR (idx - ncount ?l - of_nat j))" "j \<le> length ?R"
      by blast
    have "ncount ?l = of_nat (length ?L)" using cl by (metis word_of_unat)
    moreover have "\<not> idx < ncount ?l" using le cl by (simp add: word_less_nat_alt)
    ultimately show ?thesis
      unfolding unfold using j Suc
      by (intro exI [of _ ip'] exI [of _ "length ?L + j"]) (simp add: algebra_simps)
  qed
qed

text \<open>The address of the index before the first, that of a shard that has ended.\<close>

definition past_end :: "xm_wblist \<Rightarrow> u32" where
  "past_end wb = fst (xm_wblist_lookup_index wb (- 1))"

lemma ucast_or_not: "ucast (ucast (ip :: u32) OR NOT (of_nat n :: u64)) = ip OR NOT (of_nat n :: u32)"
  by (rule bit_word_eqI) (simp add: bit_simps)

lemma past_end_high:
  assumes "wblist_ready wb"
  shows "2 ^ 32 - 1 - unat (xm_wblist_count_allowed wb) \<le> unat (ntohl (past_end wb))"
proof -
  let ?t = "wb_iptree wb"
  have t: "iptree_inv ?t" "painted ?t" "paint_value ?t = ADDR_ALLOWED" using assms(1) by (simp_all add: wblist_ready_def)
  have rt: "root ?t = paint_node (root ?t) ADDR_ALLOWED (push_bit 32 1)"
    "unat (radix_len ?t) = length (radix_hits (root ?t) ADDR_ALLOWED)"
    using t by (auto simp: iptree_inv_def)
  let ?L = "leaf_list True ADDR_ALLOWED (root ?t) 32 0" and ?R = "unat (radix_len ?t) * 4096"
  have n: "?R + length ?L = unat (xm_wblist_count_allowed wb)"
    using count_ips_index_list [OF t(1)] t rt(2)
    by (simp add: xm_wblist_count_allowed_def index_list_def length_blocks)
  then have lt: "?R + length ?L < 2 ^ 32" using wbl.count_bound [OF assms] by simp
  then have R: "unat (radix_len ?t * 4096) = ?R" by (simp add: unat_mult_small)
  have "unat (- 1 :: u64) = 2 ^ 64 - 1" by (simp add: unsigned_minus_1_eq_mask mask_eq_exp_minus_1)
  then have "unat (- 1 - radix_len ?t * 4096) = 2 ^ 64 - 1 - ?R"
    using lt unat_sub_small [of "radix_len ?t * 4096" "- 1"] by (simp add: R)
  then have "length ?L \<le> unat (- 1 - radix_len ?t * 4096)" using lt by simp
  from lookup_past_end [OF _ this, of 0 "mask_at 0"] rt(1)
  obtain ip' k where k: "lookup_index (root ?t) (- 1 - radix_len ?t * 4096) 0 (mask_at 0) =
      ucast (ucast (ip' :: u32) OR (- 1 - radix_len ?t * 4096 - of_nat k))" "k \<le> length ?L"
    by auto
  have "radix_len ?t * 4096 + of_nat k = of_nat (?R + k)" by simp
  then have "- 1 - radix_len ?t * 4096 - of_nat k = NOT (of_nat (?R + k) :: u64)"
    by (simp add: not_eq_complement diff_diff_eq)
  moreover have "\<not> (- 1) div 4096 < radix_len ?t" using lt by (simp add: word_less_nat_alt unat_div)
  ultimately have "ntohl (past_end wb) = ucast (ucast ip' OR NOT (of_nat (?R + k) :: u64))"
    using t k(1) by (simp add: past_end_def xm_wblist_lookup_index_def xm_iptree_lookup_index_def Let_def
      case_prod_beta RADIX_LENGTH_def push_bit_of_1 top_mask)
  also have "\<dots> = ip' OR NOT (of_nat (?R + k))" by (rule ucast_or_not)
  finally have "NOT (of_nat (?R + k) :: u32) \<le> ntohl (past_end wb)" by (simp only: le_word_or1)
  moreover have "unat (NOT (of_nat (?R + k) :: u32)) = 2 ^ 32 - 1 - (?R + k)"
  proof -
    have "unat (of_nat (?R + k) :: u32) = ?R + k" using lt k(2) by (intro unat_of_nat_small) simp
    moreover have "unat (- 1 :: u32) = 2 ^ 32 - 1" by (simp add: unsigned_minus_1_eq_mask mask_eq_exp_minus_1)
    ultimately show ?thesis
      unfolding not_eq_complement minus_diff_commute [of _ 1] using lt k(2) unat_sub_small [of "of_nat (?R + k) :: u32" "- 1"]
      by (simp del: of_nat_add of_nat_mult)
  qed
  ultimately show ?thesis using n k(2) by (simp add: word_le_nat_alt)
qed

section \<open>What is printed\<close>

definition capped :: "u32 \<Rightarrow> 'a list \<Rightarrow> 'a list" where
  "capped mx xs = (if mx = 0 then xs else take (unat mx) xs)"

lemma iter_print_ips:
  assumes "shard_ips n s = Some ips" "ip \<noteq> 0" "mx = 0 \<or> c \<le> mx"
  shows "iter_print mx c ip s = Some (if mx = 0 then ip # ips else take (unat (mx - c)) (ip # ips))"
  using assms
proof (induction n arbitrary: s ips ip c)
  case (Suc n)
  show ?case
  proof (cases "mx \<noteq> 0 \<and> c \<ge> mx")
    case True
    then show ?thesis using Suc.prems by (subst iter_print.simps) auto
  next
    case False
    obtain ip' s' where next_ip: "xm_shard_get_next_ip s = Some (ip', s')"
      using Suc.prems(1) by (auto split: option.splits)
    have le: "mx = 0 \<or> c + 1 \<le> mx" using False by (auto simp: not_le inc_le)
    have m: "unat (mx - c) = Suc (unat (mx - (c + 1)))" if "mx \<noteq> 0"
    proof -
      have "unat c < unat mx" using False that by (simp add: word_less_nat_alt not_le)
      then have "unat (c + 1) = unat c + 1" using unsigned_less [of mx, where ?'a = nat] by (intro trans [OF unat_add_small]) simp_all
      then show ?thesis using False that le by (simp add: word_le_nat_alt unat_sub_small)
    qed
    have tail: "iter_print mx (c + 1) ip' s' =
      Some (if ip' = 0 then [] else let ips' = the (shard_ips n s') in if mx = 0 then ip' # ips' else take (unat (mx - (c + 1))) (ip' # ips'))"
    proof (cases "ip' = 0")
      case True
      then show ?thesis by (subst iter_print.simps) simp
    next
      case False
      then obtain ips' where ips': "shard_ips n s' = Some ips'"
        using Suc.prems(1) next_ip by (auto simp: XM_SHARD_DONE_def)
      show ?thesis using Suc.IH [OF ips' False le] ips' False by simp
    qed
    show ?thesis
      using Suc.prems False next_ip m
      by (subst iter_print.simps) (auto simp: tail XM_SHARD_DONE_def split: if_splits)
  qed
qed simp

lemma seed_gives_aes: "\<exists>aes. xm_aesrand_create_from_seed mem seed = Some aes"
proof -
  have "fst (rijndaelKeySetupEnc mem key 128) = 10" for key
    using KeySetupEnc_rounds [of mem key 128] by (simp add: rounds_of_def)
  then show ?thesis
    by (simp add: xm_aesrand_create_from_seed_def aesrand_init_def Let_def case_prod_beta AES_KEY_BITS_def AES_ROUNDS_def
      AES_KEY_BYTES_def)
qed

text \<open>A run for one shard of \<open>N\<close>, of the whole list.\<close>

definition shard_args :: "iter_options \<Rightarrow> nat \<Rightarrow> nat \<Rightarrow> iter_options" where
  "shard_args args N i = args\<lparr>it_shard := Some (int i), it_shards := Some (int N)\<rparr>"

definition max_of :: "iter_options \<Rightarrow> u32" where
  "max_of args = (case it_max_targets args of None \<Rightarrow> 0 | Some n \<Rightarrow> n)"

definition iter_list :: "environment \<Rightarrow> iter_options \<Rightarrow> wblist_error + xm_wblist" where
  "iter_list env args = xm_wblist_create env (it_whitelist_file args) (it_blacklist_file args) (Some (it_inputs args)) None"

lemma configure_shard:
  assumes "iter_list env args = Inr wb" "\<not> unreadable env (it_blacklist_file args)"
    "\<not> unreadable env (it_whitelist_file args)" "it_seed args = Some sd" "i < N" "N < 2 ^ 16"
  shows "iter_configure env random (shard_args args N i) =
    Inr \<lparr>it_shard_num = of_nat i, it_total_shards = of_nat N, it_conf_seed = word_of_int sd, it_wblist = wb,
      it_max_hosts = max_of args\<rparr>"
proof -
  have "unat (of_nat i :: u16) = i" "unat (of_nat N :: u16) = N" using assms(5,6) by (simp_all add: unat_of_nat_small)
  then have "\<not> (of_nat N :: u16) \<le> of_nat i" using assms(5) by (simp add: word_le_nat_alt)
  then show ?thesis using assms(1-4)
    by (simp add: iter_configure_def shard_args_def iter_list_def max_of_def Let_def)
qed

lemma past_end_nonzero: "wblist_ready wb \<Longrightarrow> xm_wblist_count_allowed wb < 0xFFFFFFFF \<Longrightarrow> past_end wb \<noteq> 0"
  using past_end_high [of wb] by (auto simp: word_less_nat_alt)

text \<open>What the shards of one seed print: all walk the same cycle.\<close>

lemma small_group:
  assumes "xm_get_cyclic_group n = Some g" "unat (prime g) < 2 ^ 32"
  shows "g \<in> set groups" "g = groups ! 0 \<or> g = groups ! 1 \<or> g = groups ! 2 \<or> g = groups ! 3" "n < prime g"
    "unat (prime g) < 2 ^ 29"
  using assms by (auto simp: xm_get_cyclic_group_def groups_def not_less split: if_splits)

lemma small_cycle_ok:
  assumes "g \<in> set groups" "unat (prime g) < 2 ^ 32" "\<And>b e m. powm b e m = b ^ e mod m"
    "xm_make_cycle powm g aes = (Some (Some cy), aes')"
  shows "cycle_ok cy"
proof -
  note parts = make_cycle_parts [OF assms(1,3,4)]
  obtain root where root: "root < unat (prime g)" "unat (generator cy) = root mod 2 ^ 32"
    "has_order root (unat (prime g)) (unat (prime g) - 1)" using parts(4) by blast
  have "2 < unat (prime g)" using groups_good [OF assms(1)] by (simp add: good_group_def)
  moreover have "unat (generator cy) = root" using root(1,2) assms(2) by simp
  moreover have "root * unat (prime g) \<le> 2 ^ 32 * 2 ^ 32" using root(1) assms(2) by (intro mult_le_mono) simp_all
  ultimately show ?thesis using parts(1,2) root(3) by (simp add: cycle_ok_def)
qed

text \<open>The largest group has a prime above 32 bits.  A seed walks it when the search for its root
  ends with one that is not cut to 32 bits (the roots from \<open>2 ^ 32\<close> on become numbers below 15),
  its multiplications stay in 64 bits, and no shard ends at one of the 15 elements above 32 bits, which
  the walk skips: then it would miss its end.  In the other groups every seed walks.\<close>

definition cycle_walks :: "xm_cycle \<Rightarrow> nat \<Rightarrow> bool" where
  "cycle_walks cy N \<longleftrightarrow> 15 \<le> unat (generator cy) \<and> unat (generator cy) * unat (prime (cgroup cy)) \<le> 2 ^ 64 \<and>
     (\<forall>i < N. fits (elem cy (unat (offset cy) + unat (order cy) div N * (Suc i mod N))))"

definition aes_walks :: "(nat \<Rightarrow> nat \<Rightarrow> nat \<Rightarrow> nat) \<Rightarrow> xm_aesrand \<Rightarrow> xm_cyclic_group \<Rightarrow> nat \<Rightarrow> bool" where
  "aes_walks powm aes g N \<longleftrightarrow> (\<exists>cy. fst (xm_make_cycle powm g aes) = Some (Some cy) \<and> cycle_walks cy N)"

definition seed_walks :: "(nat \<Rightarrow> nat \<Rightarrow> nat \<Rightarrow> nat) \<Rightarrow> u32 list \<Rightarrow> u64 \<Rightarrow> xm_cyclic_group \<Rightarrow> nat \<Rightarrow> bool" where
  "seed_walks powm pool sd g N \<longleftrightarrow> (\<exists>aes. xm_aesrand_create_from_seed pool sd = Some aes \<and> aes_walks powm aes g N)"

lemma list_group:
  assumes "xm_get_cyclic_group n = Some g"
  shows "g \<in> set groups" "n < prime g" "unat (prime g) \<le> 2 ^ 32 + 15"
  using assms by (auto simp: xm_get_cyclic_group_def groups_def not_less split: if_splits)

lemma walking_cycle_ok:
  assumes "g \<in> set groups" "unat (prime g) \<le> 2 ^ 32 + 15" "\<And>b e m. powm b e m = b ^ e mod m"
    "xm_make_cycle powm g aes = (Some (Some cy), aes')" "cycle_walks cy N"
  shows "cycle_ok cy"
proof -
  note parts = make_cycle_parts [OF assms(1,3,4)]
  obtain root where root: "root < unat (prime g)" "unat (generator cy) = root mod 2 ^ 32"
    "has_order root (unat (prime g)) (unat (prime g) - 1)" using parts(4) by blast
  have "root < 2 ^ 32"
  proof (rule ccontr)
    assume "\<not> root < 2 ^ 32"
    then have "root mod 2 ^ 32 = (root - 2 ^ 32) mod 2 ^ 32" by (intro le_mod_geq) simp
    also have "\<dots> = root - 2 ^ 32" using root(1) assms(2) by (intro mod_less) simp
    finally have "unat (generator cy) < 15" using root(1,2) assms(2) by linarith
    then show False using assms(5) by (simp add: cycle_walks_def)
  qed
  then have "unat (generator cy) = root" using root(2) by simp
  moreover have "2 < unat (prime g)" using groups_good [OF assms(1)] by (simp add: good_group_def)
  ultimately show ?thesis using parts(1,2) root(3) assms(5) by (simp add: cycle_ok_def cycle_walks_def)
qed

text \<open>The random words 7 and 0 walk the largest group, with the root \<open>3 ^ 7\<close>.\<close>

lemma largest_group_walks:
  assumes "xm_aesrand_getword aes = (7, aes')" "fst (xm_aesrand_getword aes') = 0" "\<And>b e m. powm b e m = b ^ e mod m"
  shows "aes_walks powm aes (groups ! 4) 1"
proof -
  have "first_candidate (groups ! 4) 7 = 7" by (simp add: first_candidate_def groups_def)
  moreover have "primroot_loop (groups ! 4) 7 = Some (Some 7)"
    by (subst primroot_loop.simps) (simp add: check_coprime_def groups_def)
  moreover have "xm_isomorphism powm 7 (groups ! 4) = 2187"
    by (simp add: xm_isomorphism_def assms(3) groups_def)
  ultimately have "fst (xm_make_cycle powm (groups ! 4) aes) =
      Some (Some \<lparr>cgroup = groups ! 4, generator = 2187, order = prime (groups ! 4) - 1, offset = 0\<rparr>)"
    using assms(1,2) by (simp add: xm_make_cycle_def find_primroot_def case_prod_beta Let_def)
  moreover have "cycle_walks \<lparr>cgroup = groups ! 4, generator = 2187, order = prime (groups ! 4) - 1, offset = 0\<rparr> 1"
    by (simp add: cycle_walks_def groups_def elem_def fits_def)
  ultimately show ?thesis by (auto simp: aes_walks_def)
qed

lemma aes_cycle:
  assumes "xm_get_cyclic_group n = Some g" "unat (prime g) < 2 ^ 32 \<or> aes_walks powm aes g N"
    "\<And>b e m. powm b e m = b ^ e mod m"
  shows "\<exists>cy. fst (xm_make_cycle powm g aes) = Some (Some cy) \<and> cycle_ok cy \<and> cgroup cy = g \<and>
    unat (order cy) = unat (prime g) - 1 \<and>
    (\<forall>i < N. fits (elem cy (unat (offset cy) + unat (order cy) div N * (Suc i mod N))))"
proof -
  note g = list_group [OF assms(1)]
  show ?thesis
  proof (cases "unat (prime g) < 2 ^ 32")
    case True
    obtain cy aes' where c: "xm_make_cycle powm g aes = (Some (Some cy), aes')"
      using make_cycle_returns [OF small_group(2) [OF assms(1) True]] by blast
    have ok: "cycle_ok cy" by (rule small_cycle_ok [OF g(1) True assms(3) c])
    have "fits (elem cy k)" for k
      using unat_elem_lt [OF ok, of k] make_cycle_parts(1) [OF g(1) assms(3) c] True
      by (simp add: fits_def word_less_nat_alt)
    then show ?thesis using c ok make_cycle_parts(1,2) [OF g(1) assms(3) c] by auto
  next
    case False
    then obtain cy aes' where c: "xm_make_cycle powm g aes = (Some (Some cy), aes')" "cycle_walks cy N"
      using assms(2) by (auto simp: aes_walks_def) (metis prod.collapse)
    then show ?thesis
      using walking_cycle_ok [OF g(1,3) assms(3) c] make_cycle_parts(1,2) [OF g(1) assms(3) c(1)]
      by (simp add: cycle_walks_def)
  qed
qed

text \<open>With the longest list no shard is without targets: fewer than 16 elements of the cycle are none.\<close>

lemma full_list_targets:
  assumes "cycle_ok cy" "unat (prime (cgroup cy)) \<le> 2 ^ 32 + 15" "2 ^ 32 \<le> unat (order cy)" "i < N" "N < 2 ^ 16"
    "unat mx = 2 ^ 32 - 1"
  shows "shard_targets cy N mx i \<noteq> []"
proof
  assume "shard_targets cy N mx i = []"
  then have none: "\<not> valid_elem mx x" if "x \<in> set (shard_elems cy N i)" for x
    using that by (simp add: shard_targets_def filter_empty_conv)
  have "set (map unat (shard_elems cy N i)) \<subseteq> {2 ^ 32..<2 ^ 32 + 15}"
  proof
    fix y assume "y \<in> set (map unat (shard_elems cy N i))"
    then obtain x k where x: "x \<in> set (shard_elems cy N i)" "y = unat x" "x = elem cy k"
      by (auto simp: shard_elems_def Let_def)
    have "unat x < 2 ^ 32 + 15" using unat_elem_lt [OF assms(1), of k] assms(2) x(3) by simp
    moreover have "x \<noteq> 0" using elem_nonzero [OF assms(1)] x(3) by simp
    have "2 ^ 32 \<le> unat x"
    proof (rule ccontr)
      assume "\<not> ?thesis"
      then have "unat (x - 1) < 2 ^ 32 - 1" using \<open>x \<noteq> 0\<close> by (simp add: unat_sub_small unat_gt_0 Suc_le_eq)
      then have "x - 1 < mx" using assms(6) by (simp add: word_less_nat_alt)
      then show False using valid_elem_small [of x mx] none [OF x(1)] assms(6) \<open>x \<noteq> 0\<close> by simp
    qed
    ultimately show "y \<in> {2 ^ 32..<2 ^ 32 + 15}" using x(2) by simp
  qed
  then have "card (set (map unat (shard_elems cy N i))) \<le> card {2 ^ 32..<2 ^ 32 + 15 :: nat}"
    by (rule card_mono [rotated]) simp
  moreover have "distinct (map unat (shard_elems cy N i))"
    using elems_distinct [OF assms(1) shard_bounds(2) [OF assms(4)]]
    by (simp add: shard_elems_def Let_def distinct_map inj_on_def word_unat_eq_iff)
  ultimately have "length (map unat (shard_elems cy N i)) \<le> 15" by (simp only: distinct_card card_atLeastLessThan)
  then have len: "shard_len cy N i \<le> 15" by (simp add: shard_elems_def Let_def)
  have "65536 \<le> unat (order cy) div N"
  proof -
    have "65536 * N \<le> unat (order cy)" using assms(3,5) by simp
    then show ?thesis using assms(4) by (simp add: less_eq_div_iff_mult_less_eq)
  qed
  moreover have "unat (order cy) div N \<le> shard_len cy N i"
  proof (cases "Suc i = N")
    case True
    have "unat (order cy) div N * Suc i \<le> unat (order cy)" using True by simp
    then have "unat (order cy) div N + unat (order cy) div N * i \<le> unat (order cy)" by (simp only: mult_Suc_right)
    moreover have "shard_len cy N i = unat (order cy) - unat (order cy) div N * i" using True by (simp add: shard_len_def)
    ultimately show ?thesis by linarith
  qed (simp add: shard_len_def)
  ultimately show False using len by simp
qed

text \<open>The addresses that a new shard gives: the current one and those of the calls that follow.\<close>

definition shard_gives :: "xm_shard \<Rightarrow> u32 list \<Rightarrow> bool" where
  "shard_gives shard T \<longleftrightarrow> T \<noteq> [] \<and> hd T \<noteq> 0 \<and> xm_shard_get_cur_ip shard = (hd T, shard) \<and>
     shard_ips (length T) shard = Some (tl T)"

definition listed_or_outside :: "xm_wblist \<Rightarrow> u32 list \<Rightarrow> u32 list" where
  "listed_or_outside wb T = (if T = [] then [past_end wb] else T)"

lemma shard_made:
  assumes "wblist_ready wb" "xm_get_cyclic_group (xm_wblist_count_allowed wb) = Some g"
    "unat (prime g) < 2 ^ 32 \<or> seed_walks powm pool sd g N" "\<And>b e m. powm b e m = b ^ e mod m"
    "xm_aesrand_create_from_seed pool sd = Some aes" "N < 2 ^ 16" "N < unat (prime g)"
  shows "\<exists>cy. cycle_ok cy \<and> cgroup cy = g \<and>
    (\<forall>i < N. \<forall>mx mem. \<exists>shard. iter_create_shard powm mem aes \<lparr>it_shard_num = of_nat i, it_total_shards = of_nat N,
          it_conf_seed = sd, it_wblist = wb, it_max_hosts = mx\<rparr> = Some (Inr shard) \<and>
        shard_gives shard (listed_or_outside wb
          (map (target_of wb) (shard_targets cy N (xm_wblist_count_allowed wb) i))))"
proof -
  let ?n = "xm_wblist_count_allowed wb"
  note g = list_group [OF assms(2)]
  obtain cy where c: "fst (xm_make_cycle powm g aes) = Some (Some cy)" and ok: "cycle_ok cy" and cg: "cgroup cy = g"
    and ord: "unat (order cy) = unat (prime g) - 1"
    and fit: "\<forall>i < N. fits (elem cy (unat (offset cy) + unat (order cy) div N * (Suc i mod N)))"
    using aes_cycle [OF assms(2) _ assms(4), of aes N] assms(3,5) by (auto simp: seed_walks_def)
  have order: "unat (order cy) < 2 ^ 33" using ord g(3) by simp
  have "\<exists>shard. iter_create_shard powm mem aes \<lparr>it_shard_num = of_nat i, it_total_shards = of_nat N,
          it_conf_seed = sd, it_wblist = wb, it_max_hosts = mx\<rparr> = Some (Inr shard) \<and>
        shard_gives shard (listed_or_outside wb (map (target_of wb) (shard_targets cy N ?n i)))"
    if i: "i < N" for i mx mem
  proof -
    let ?T = "shard_targets cy N ?n i"
    have N: "unat (of_nat N :: u16) * unat (1 :: u8) = N" "unat (sub_index (of_nat i) 1 0) = i"
      using i assms(6) by (simp_all add: unat_sub_index unat_of_nat_small)
    have le: "N \<le> unat (order cy)" using assms(7) ord by simp
    obtain s where s: "xm_shard_create powm mem (of_nat i) (of_nat N) 0 1 (ucast ?n) ?n cy wb = Some s" "wblist s = wb"
      "if ?T = [] then current s = 0 else fst (xm_shard_get_cur_ip s) = target_of wb (hd ?T) \<and>
         shard_ips (length ?T) s = Some (map (target_of wb) (tl ?T))"
      using subshard_emits [OF ok order assms(4), of "of_nat i" 1 0 "of_nat N" wb ?n mem "ucast ?n", unfolded N,
        OF i le assms(1) order_refl fit [rule_format, OF i]] by blast
    have cur: "xm_shard_get_cur_ip s = (fst (xm_wblist_lookup_index wb (current s - 1)), s)"
      using shard_lookup_ready [of s] assms(1) s(2) by (simp add: xm_shard_get_cur_ip_def)
    have "shard_gives s (listed_or_outside wb (map (target_of wb) ?T))"
    proof (cases "?T = []")
      case True
      then have "current s = 0" using s(3) by simp
      moreover have "past_end wb \<noteq> 0"
      proof (rule past_end_nonzero [OF assms(1)], rule ccontr)
        assume "\<not> ?n < 0xFFFFFFFF"
        then have "unat ?n = 2 ^ 32 - 1" using wbl.count_bound [OF assms(1)] by (simp add: word_less_nat_alt)
        moreover have "2 ^ 32 \<le> unat (order cy)"
        proof -
          have "2 ^ 32 - 1 < unat (prime g)" using g(2) calculation by (simp add: word_less_nat_alt)
          moreover have "unat (prime g) < 2 ^ 29 \<or> 2 ^ 32 + 15 \<le> unat (prime g)"
            using g(1) by (auto simp: groups_def)
          ultimately show ?thesis using ord by auto
        qed
        ultimately show False
          using full_list_targets [OF ok _ _ i assms(6)] g(3) cg True by simp
      qed
      ultimately show ?thesis
        using True by (simp add: shard_gives_def listed_or_outside_def cur past_end_def xm_shard_get_next_ip_def XM_SHARD_DONE_def)
    next
      case False
      then have "valid_elem ?n (hd ?T)" using hd_in_set [of ?T] by (auto simp: shard_targets_def)
      then have "target_of wb (hd ?T) \<noteq> 0" using target_nonzero [OF assms(1)] by blast
      then show ?thesis
        using False s(3) cur by (simp add: shard_gives_def listed_or_outside_def hd_map map_tl)
    qed
    then show ?thesis using s(1) assms(2) c by (simp add: iter_create_shard_def)
  qed
  then show ?thesis using ok cg by blast
qed

lemma iter_print_gives:
  assumes "shard_gives shard T"
  shows "iter_print mx 0 (fst (xm_shard_get_cur_ip shard)) (snd (xm_shard_get_cur_ip shard)) = Some (capped mx T)"
  using assms iter_print_ips [of "length T" shard "tl T" "hd T" mx 0] by (auto simp: shard_gives_def capped_def)

lemma xiterate_shards:
  assumes "iter_list env args = Inr wb" "\<not> unreadable env (it_blacklist_file args)"
    "\<not> unreadable env (it_whitelist_file args)" "it_seed args = Some sd" "inet_aton env ''0.0.0.0'' = Some 0"
    "xm_get_cyclic_group (xm_wblist_count_allowed wb) = Some g"
    "unat (prime g) < 2 ^ 32 \<or> seed_walks powm pool (word_of_int sd) g N"
    "\<And>b e m. powm b e m = b ^ e mod m" "N < 2 ^ 16" "N < unat (prime g)"
  shows "\<exists>cy. cycle_ok cy \<and> cgroup cy = g \<and> (\<forall>i < N.
    xiterate powm env random pool mem (shard_args args N i) = Some (Inr (capped (max_of args) (listed_or_outside wb
      (map (target_of wb) (shard_targets cy N (xm_wblist_count_allowed wb) i))))))"
proof -
  have ready: "wblist_ready wb" using wblist_create_ready [OF _ assms(5)] assms(1) by (simp add: iter_list_def)
  obtain aes where aes: "xm_aesrand_create_from_seed pool (word_of_int sd) = Some aes" using seed_gives_aes by blast
  obtain cy where cy: "cycle_ok cy" "cgroup cy = g"
    "\<forall>i < N. \<forall>mx mem. \<exists>shard. iter_create_shard powm mem aes \<lparr>it_shard_num = of_nat i, it_total_shards = of_nat N,
          it_conf_seed = word_of_int sd, it_wblist = wb, it_max_hosts = mx\<rparr> = Some (Inr shard) \<and>
        shard_gives shard (listed_or_outside wb (map (target_of wb) (shard_targets cy N (xm_wblist_count_allowed wb) i)))"
    using shard_made [OF ready assms(6-8) aes assms(9,10)] by blast
  have "xiterate powm env random pool mem (shard_args args N i) = Some (Inr (capped (max_of args)
      (listed_or_outside wb (map (target_of wb) (shard_targets cy N (xm_wblist_count_allowed wb) i)))))" if "i < N" for i
    using cy(3) [rule_format, OF that, of mem "max_of args"]
    by (auto simp: xiterate_def configure_shard [OF assms(1-4) that assms(9)] aes iter_print_gives)
  then show ?thesis using cy(1,2) by blast
qed

text \<open>The targets that the shards of a cycle give are those of the list, once each.\<close>

lemma shards_give_targets:
  assumes "wblist_ready wb" "cycle_ok cy" "0 < N" "unat (xm_wblist_count_allowed wb) < unat (prime (cgroup cy))"
  shows "distinct (concat (map (\<lambda>i. map (target_of wb) (shard_targets cy N (xm_wblist_count_allowed wb) i)) [0..<N]))"
    and "set (concat (map (\<lambda>i. map (target_of wb) (shard_targets cy N (xm_wblist_count_allowed wb) i)) [0..<N])) =
      {a. numbered wb a}"
proof -
  let ?n = "xm_wblist_count_allowed wb"
  let ?at = "\<lambda>i. fst (xm_wblist_lookup_index wb i)" and ?idx = "map (\<lambda>x. x - 1) (concat (map (shard_targets cy N ?n) [0..<N]))"
  have all: "concat (map (\<lambda>i. map (target_of wb) (shard_targets cy N ?n i)) [0..<N]) = map ?at ?idx"
    unfolding target_of_def [abs_def] by (simp add: map_concat comp_def)
  note idx = shard_indices [OF assms(2,3,4) wbl.count_bound [OF assms(1)]]
  have "inj_on ?at {..<?n}" using wbl.lookup_inj [OF assms(1)] by (auto simp: inj_on_def)
  then show "distinct (concat (map (\<lambda>i. map (target_of wb) (shard_targets cy N ?n i)) [0..<N]))"
    unfolding all using idx by (simp only: distinct_map [of ?at] simp_thms)
  have "?at ` {..<?n} = ntohl ` indexed_addrs (wb_iptree wb) ADDR_ALLOWED"
  proof -
    have "x \<in> of_nat ` {..<unat ?n}" if "x < ?n" for x
      using that by (intro image_eqI [of _ _ "unat x"]) (simp_all add: word_less_nat_alt)
    moreover have "of_nat k < ?n" if "k < unat ?n" for k
      using that unat_of_nat_small [of k, where 'a = 64] unsigned_less [of ?n, where ?'a = nat]
      by (simp add: word_less_nat_alt)
    ultimately have "{..<?n} = of_nat ` {..<unat ?n}" by blast
    then show ?thesis
      using bij_betw_imp_surj_on [OF wblist_lookup_bij [of wb]] assms(1)
      by (simp add: image_image wblist_ready_def)
  qed
  also have "\<dots> = {a. numbered wb a}" by (simp only: numbered_indexed)
  finally show "set (concat (map (\<lambda>i. map (target_of wb) (shard_targets cy N ?n i)) [0..<N])) = {a. numbered wb a}"
    unfolding all using idx(2) by (simp only: set_map [of ?at])
qed

lemma unat_below: "unat ` {..<n} = {..<unat (n :: u64)}"
proof
  show "{..<unat n} \<subseteq> unat ` {..<n}"
  proof
    fix k assume "k \<in> {..<unat n}"
    then have "unat (of_nat k :: u64) = k" "k < unat n"
      using unsigned_less [of n, where ?'a = nat] by (auto intro!: unat_of_nat_small)
    then show "k \<in> unat ` {..<n}" by (intro image_eqI [of _ _ "of_nat k"]) (simp_all add: word_less_nat_alt)
  qed
qed (auto simp: word_less_nat_alt)

lemma shard_targets_length:
  assumes "wblist_ready wb" "cycle_ok cy" "0 < N" "unat (xm_wblist_count_allowed wb) < unat (prime (cgroup cy))"
  shows "length (concat (map (shard_targets cy N (xm_wblist_count_allowed wb)) [0..<N])) = unat (xm_wblist_count_allowed wb)"
proof -
  let ?n = "xm_wblist_count_allowed wb"
  let ?idx = "map (\<lambda>x. x - 1) (concat (map (shard_targets cy N ?n) [0..<N]))"
  note idx = shard_indices [OF assms(2-4) wbl.count_bound [OF assms(1)]]
  have "length ?idx = card {..<?n}" using distinct_card [OF idx(1)] unfolding idx(2) by (rule sym)
  also have "\<dots> = card (unat ` {..<?n})" by (simp add: card_image inj_on_def unsigned_word_eqI)
  also have "unat ` {..<?n} = {..<unat ?n}" by (rule unat_below)
  finally show ?thesis by (simp only: length_map card_lessThan)
qed

section \<open>Properties\<close>


text \<open>A list of the sixteen addresses of one prefix, for the concrete runs.\<close>

definition demo_args :: iter_options where
  "demo_args = \<lparr>it_blacklist_file = None, it_whitelist_file = None, it_inputs = [''10.0.0.0/28''],
     it_max_targets = None, it_seed = Some 42, it_shard = None, it_shards = None\<rparr>"

lemma demo_iter_entries:
  "list_entries demo_env None None (Some [''10.0.0.0/28'']) None = [(0x0A000000, 28, 1), (0, 256, 0)]"
  by code_simp

lemma demo_iter_tree:
  shows "xm_iptree_lookup_ip (list_tree demo_env None None (Some [''10.0.0.0/28'']) None) a = ADDR_ALLOWED \<longleftrightarrow>
      a \<noteq> 0 \<and> prefix_match 0x0A000000 28 a"
    and "0x0A000001 \<in> indexed_addrs (list_tree demo_env None None (Some [''10.0.0.0/28'']) None) ADDR_ALLOWED"
proof -
  let ?es = "[(0x0A000000, 28, 1), (0, 256, 0)] :: entry list"
  have tree: "list_tree demo_env None None (Some [''10.0.0.0/28'']) None = fold add_entry ?es (xm_iptree_create 0)"
    by (simp only: list_tree_def demo_iter_entries) (simp add: list_default_def array_of_def ADDR_DISALLOWED_def)
  have "sorted_wrt (\<lambda>e' e. \<not> covers e e') ?es" by (simp add: covers_def prefix_match_code)
  from fold_add_lookup [OF _ this, of "xm_iptree_create 0"]
  have lk: "xm_iptree_lookup_ip (fold add_entry ?es (xm_iptree_create 0)) a = last_match 0 ?es a" for a by simp
  then show "xm_iptree_lookup_ip (list_tree demo_env None None (Some [''10.0.0.0/28'']) None) a = ADDR_ALLOWED \<longleftrightarrow>
      a \<noteq> 0 \<and> prefix_match 0x0A000000 28 a" for a
    unfolding tree by (auto simp: entry_match_def prefix_match_32 ADDR_ALLOWED_def)
  have "IS_LEAF (lookup_node (root (fold add_entry ?es (xm_iptree_create 0))) 0x0A000001 0x80000000 32)"
    using fold_add_internal [of ?es "xm_iptree_create 0" "0x0A000001" 32] by (auto simp: prefix_match_32)
  then show "0x0A000001 \<in> indexed_addrs (list_tree demo_env None None (Some [''10.0.0.0/28'']) None) ADDR_ALLOWED"
    unfolding tree using lk [of "0x0A000001"]
    by (simp add: indexed_addrs_def entry_match_def prefix_match_32 prefix_match_code ADDR_ALLOWED_def)
qed

definition demo_iter_wb :: xm_wblist where
  "demo_iter_wb = \<lparr>wb_iptree =
     xm_iptree_paint_value (list_tree demo_env None None (Some [''10.0.0.0/28'']) None) ADDR_ALLOWED\<rparr>"

lemma demo_iter_list:
  shows "iter_list demo_env demo_args = Inr demo_iter_wb"
    and "unat (xm_wblist_count_allowed demo_iter_wb) \<le> 16"
    and "xm_get_cyclic_group (xm_wblist_count_allowed demo_iter_wb) = Some (groups ! 0)"
proof -
  let ?t = "list_tree demo_env None None (Some [''10.0.0.0/28'']) None"
  show "iter_list demo_env demo_args = Inr demo_iter_wb"
    using wblist_create_ok [OF _ _ demo_iter_tree(2)] by (simp add: iter_list_def demo_args_def demo_iter_wb_def)
  have "indexed_addrs ?t ADDR_ALLOWED \<subseteq> (\<lambda>n. 0x0A000000 OR of_nat n) ` {..<16}"
  proof
    fix a assume "a \<in> indexed_addrs ?t ADDR_ALLOWED"
    then have "prefix_match 0x0A000000 28 a" using demo_iter_tree(1) by (simp add: indexed_addrs_def)
    then have "drop_bit 4 a = drop_bit 4 0x0A000000" by (simp add: prefix_match_code)
    moreover have "a = push_bit 4 (drop_bit 4 a) OR take_bit 4 a"
      by (rule bit_word_eqI) (auto simp: bit_simps)
    ultimately have "a = 0x0A000000 OR take_bit 4 a" by simp
    moreover have "unat (take_bit 4 a) < 16" using take_bit_nat_less_exp [of 4 "unat a"] by (simp add: unsigned_take_bit_eq)
    ultimately show "a \<in> (\<lambda>n. 0x0A000000 OR of_nat n) ` {..<16}"
      by (intro image_eqI [of _ _ "unat (take_bit 4 a)"]) simp_all
  qed
  then have "card (indexed_addrs ?t ADDR_ALLOWED) \<le> card ((\<lambda>n. 0x0A000000 OR of_nat n :: u32) ` {..<16 :: nat})"
    by (intro card_mono) simp
  also have "\<dots> \<le> 16" using card_image_le [of "{..<16 :: nat}"] by fastforce
  finally show le: "unat (xm_wblist_count_allowed demo_iter_wb) \<le> 16"
    by (simp add: xm_wblist_count_allowed_def count_ips_card iptree_inv_paint list_tree_inv demo_iter_wb_def)
  then show "xm_get_cyclic_group (xm_wblist_count_allowed demo_iter_wb) = Some (groups ! 0)"
    by (simp add: xm_get_cyclic_group_def groups_def word_less_nat_alt)
qed




end
