(* ===== verification/Memory.thy ===== *)
theory Memory
  imports Prelude
begin

text \<open>
  Byte-addressed memory for the components that work through pointers: a memory is a function
  from 64-bit addresses, a pointer is an address, and pointer arithmetic is word arithmetic.
\<close>

lemma sint_small [word_arith]:
  assumes "unat (w :: 'a::len word) < 2 ^ (LENGTH('a) - 1)" shows "sint w = int (unat w)"
proof -
  have "int (unat w) < int (2 ^ (LENGTH('a) - 1))" using assms by (simp only: of_nat_less_iff)
  then have "uint w < 2 ^ (LENGTH('a) - 1)" by (simp only: uint_nat of_nat_power of_nat_numeral)
  then have "signed_take_bit (LENGTH('a) - 1) (uint w) = uint w"
    by (intro signed_take_bit_int_eq_self order_trans [OF _ uint_ge_0]) simp_all
  then show ?thesis by (simp only: sint_uint uint_nat One_nat_def)
qed

type_synonym mem = "u64 \<Rightarrow> u8"

primrec mem_bytes :: "mem \<Rightarrow> u64 \<Rightarrow> nat \<Rightarrow> u8 list" where
  "mem_bytes m a 0 = []"
| "mem_bytes m a (Suc n) = m a # mem_bytes m (a + 1) n"

fun mem_write :: "mem \<Rightarrow> u64 \<Rightarrow> u8 list \<Rightarrow> mem" where
  "mem_write m a [] = m"
| "mem_write m a (b # bs) = mem_write (m(a := b)) (a + 1) bs"

lemma length_mem_bytes [simp]: "length (mem_bytes m a n) = n"
  by (induction n arbitrary: a) auto

lemma nth_mem_bytes [seg_simps]: "i < n \<Longrightarrow> mem_bytes m a n ! i = m (a + of_nat i)"
  by (induction n arbitrary: a i) (auto simp: nth_Cons' algebra_simps of_nat_diff)

lemma mem_bytes_append [seg_simps]: "mem_bytes m a (n + k) = mem_bytes m a n @ mem_bytes m (a + of_nat n) k"
  by (induction n arbitrary: a) (auto simp: algebra_simps)

lemma mem_write_append [seg_simps]:
  "mem_write m a (xs @ ys) = mem_write (mem_write m a xs) (a + of_nat (length xs)) ys"
  by (induction xs arbitrary: m a) (auto simp: algebra_simps)

text \<open>What a write changes, by the offset of an address from the start.\<close>

lemma mem_write_at:
  "length bs \<le> 2 ^ 64 \<Longrightarrow>
   mem_write m a bs x = (if unat (x - a) < length bs then bs ! unat (x - a) else m x)"
proof (induction bs arbitrary: m a)
  case (Cons b bs)
  have IH: "mem_write m (a + 1) bs x = (if unat (x - (a + 1)) < length bs then bs ! unat (x - (a + 1)) else m x)" for m
    using Cons by simp
  show ?case
  proof (cases "x = a")
    case True
    have "unat (- 1 :: u64) = 2 ^ 64 - 1" by (simp add: unsigned_minus_1_eq_mask mask_eq_exp_minus_1)
    then have "\<not> unat (- 1 :: u64) < length bs" using Cons.prems by simp
    then show ?thesis using True IH [of "m(a := b)"] by simp
  next
    case False
    have "unat (x - a) = Suc (unat (x - (a + 1)))"
    proof -
      have "x - a \<noteq> 0" using False by simp
      then have "unat (x - a - 1) = unat (x - a) - 1" "0 < unat (x - a)"
        by (simp_all add: unat_minus_one unat_gt_0)
      then show ?thesis by (simp add: diff_diff_eq)
    qed
    then show ?thesis using False IH [of "m(a := b)"] by simp
  qed
qed simp

lemma mem_bytes_write [simp]:
  assumes "length bs \<le> 2 ^ 64"
  shows "mem_bytes (mem_write m a bs) a (length bs) = bs"
proof (rule nth_equalityI)
  fix i assume "i < length (mem_bytes (mem_write m a bs) a (length bs))"
  then have i: "i < length bs" by simp
  then have "unat (of_nat i :: u64) = i" using assms by simp
  then show "mem_bytes (mem_write m a bs) a (length bs) ! i = bs ! i"
    using i assms by (simp add: nth_mem_bytes mem_write_at)
qed simp

text \<open>Blocks that do not overlap and do not wrap around.\<close>

definition apart :: "u64 \<Rightarrow> nat \<Rightarrow> u64 \<Rightarrow> nat \<Rightarrow> bool" where
  "apart a n b k \<longleftrightarrow> unat a + n \<le> 2 ^ 64 \<and> unat b + k \<le> 2 ^ 64 \<and>
     (unat a + n \<le> unat b \<or> unat b + k \<le> unat a)"

lemma mem_write_apart:
  assumes "apart a 1 b (length bs)"
  shows "mem_write m b bs a = m a"
proof -
  have le: "length bs \<le> 2 ^ 64" using assms by (auto simp: apart_def)
  have "\<not> unat (a - b) < length bs"
  proof (cases "unat b \<le> unat a")
    case True
    then show ?thesis using assms unat_sub_small [of b a] by (auto simp: apart_def)
  next
    case False
    then have "unat (a - b) = 2 ^ 64 - (unat b - unat a)"
      using unat_lt_u64 [of a] unat_lt_u64 [of b] by (simp add: unat_sub_if_size word_size)
    then show ?thesis using assms False by (auto simp: apart_def)
  qed
  then show ?thesis using le by (simp add: mem_write_at)
qed

lemma mem_bytes_write_apart:
  assumes "apart a n b (length bs)"
  shows "mem_bytes (mem_write m b bs) a n = mem_bytes m a n"
proof (rule nth_equalityI)
  fix i assume "i < length (mem_bytes (mem_write m b bs) a n)"
  then have i: "i < n" by simp
  then have "unat (a + of_nat i) = unat a + i"
    using assms by (subst unat_add_small) (simp_all add: apart_def)
  then have "apart (a + of_nat i) 1 b (length bs)" using assms i by (auto simp: apart_def)
  then show "mem_bytes (mem_write m b bs) a n ! i = mem_bytes m a n ! i"
    using i by (simp add: nth_mem_bytes mem_write_apart)
qed simp

lemma mem_bytes_prefix:
  "mem_bytes m a n = bs @ cs \<Longrightarrow> mem_bytes m a (length bs) = bs \<and>
     mem_bytes m (a + of_nat (length bs)) (length cs) = cs"
proof -
  assume a: "mem_bytes m a n = bs @ cs"
  have "length (mem_bytes m a n) = length (bs @ cs)" by (simp only: a)
  then have "n = length bs + length cs" by simp
  then show ?thesis using a by (simp add: mem_bytes_append)
qed

end
