(* ===== verification/Javaiter.thy ===== *)
theory Javaiter
  imports Iterate Memory
begin

text \<open>
  The iterator of addresses for Java, \<open>api/java/jni/xm_ip_iterator.c\<close>: \<open>iterate\<close> writes the targets
  of a list of its own making into a file, \<open>prepareIterate\<close> and \<open>getNextIP\<close> give them one by one.
  The fields of \<open>java_xit_conf\<close> that are used are those of \<open>xit_conf\<close>, and its \<open>_create_shard\<close> is
  that of \<open>xiterate\<close>.
\<close>

unbundle bit_operations_syntax

section \<open>State and operations\<close>

record java_xit_context =
  jx_conf :: xit_conf
  jx_shard :: xm_shard
  jx_cur_ip :: u32

text \<open>An empty path stands for none, as \<open>NULL\<close> does.\<close>

definition path_of :: "string option \<Rightarrow> string option" where
  "path_of path = (case path of None \<Rightarrow> None | Some p \<Rightarrow> if p = [] then None else Some p)"

text \<open>The part that \<open>_prepare\<close> and \<open>_do_gen\<close> share; the paths are not checked, and \<open>random\<close> are the
  bytes of the system.\<close>

definition java_configure ::
  "environment \<Rightarrow> u64 option \<Rightarrow> string option \<Rightarrow> string option \<Rightarrow> iter_error + xit_conf" where
  "java_configure env random wlist_path blist_path =
     (case xm_wblist_create env (path_of wlist_path) (path_of blist_path) None None of
        Inl e \<Rightarrow> Inl (NoList e)
      | Inr wb \<Rightarrow>
          (case random of
             None \<Rightarrow> Inl NoRandomBytes
           | Some sd \<Rightarrow> Inr \<lparr>it_shard_num = 0, it_total_shards = 1, it_conf_seed = sd, it_wblist = wb,
               it_max_hosts = 0xFFFFFFFF\<rparr>))"

text \<open>The outer \<open>None\<close> is a call that does not return.\<close>

definition java_shard ::
  "(nat \<Rightarrow> nat \<Rightarrow> nat \<Rightarrow> nat) \<Rightarrow> u32 list \<Rightarrow> shard_state \<Rightarrow> xit_conf \<Rightarrow> (iter_error + xm_shard) option" where
  "java_shard powm pool mem conf =
     (case xm_aesrand_create_from_seed pool (it_conf_seed conf) of
        None \<Rightarrow> Some (Inl NullPointer)
      | Some aes \<Rightarrow> iter_create_shard powm mem aes conf)"

definition java_prepare ::
  "(nat \<Rightarrow> nat \<Rightarrow> nat \<Rightarrow> nat) \<Rightarrow> environment \<Rightarrow> u64 option \<Rightarrow> u32 list \<Rightarrow> shard_state \<Rightarrow> string option \<Rightarrow> string option
   \<Rightarrow> (iter_error + java_xit_context) option" where
  "java_prepare powm env random pool mem wlist_path blist_path =
     (case java_configure env random wlist_path blist_path of
        Inl e \<Rightarrow> Some (Inl e)
      | Inr conf \<Rightarrow> Option.bind (java_shard powm pool mem conf) (\<lambda>r.
          case r of
            Inl e \<Rightarrow> Some (Inl e)
          | Inr shard \<Rightarrow>
              (let (ip, shard) = xm_shard_get_cur_ip shard
               in Some (Inr \<lparr>jx_conf = conf, jx_shard = shard, jx_cur_ip = ip\<rparr>))))"

text \<open>The address is returned as a \<open>long\<close>.\<close>

definition get_next :: "java_xit_context \<Rightarrow> (int \<times> java_xit_context) option" where
  "get_next ctx =
     map_option (\<lambda>(ip, shard). (uint (jx_cur_ip ctx), ctx\<lparr>jx_shard := shard, jx_cur_ip := ip\<rparr>))
       (xm_shard_get_next_ip (jx_shard ctx))"

text \<open>\<open>fprintf\<close> of a line: \<open>inet_ntoa\<close> writes the bytes of the address in decimal.\<close>

fun decimal :: "nat \<Rightarrow> string" where
  "decimal n = (if n < 10 then [char_of (48 + n)] else decimal (n div 10) @ [char_of (48 + n mod 10)])"

declare decimal.simps [simp del]

definition dotted_quad :: "u32 \<Rightarrow> string" where
  "dotted_quad a = tl (concat (map (\<lambda>b. CHR ''.'' # decimal (unat b)) (le_bytes 4 a)))"

definition target_line :: "string \<Rightarrow> u32 \<Rightarrow> string" where
  "target_line ports a = dotted_quad a @ '':'' @ ports @ [char_of (10 :: nat)]"

text \<open>The loop is that of \<open>xiterate\<close>; the number of its turns is returned as an \<open>int\<close>.  The result is
  that number with the content of the file, which a failure leaves empty; there is no file when
  it cannot be opened.\<close>

definition do_gen ::
  "(nat \<Rightarrow> nat \<Rightarrow> nat \<Rightarrow> nat) \<Rightarrow> environment \<Rightarrow> u64 option \<Rightarrow> u32 list \<Rightarrow> shard_state \<Rightarrow> bool
   \<Rightarrow> string option \<Rightarrow> string option \<Rightarrow> string \<Rightarrow> (int \<times> string option) option" where
  "do_gen powm env random pool mem opened wlist_path blist_path ports =
     (if \<not> opened then Some (- 1, None)
      else case java_configure env random wlist_path blist_path of
        Inl e \<Rightarrow> Some (- 1, Some [])
      | Inr conf \<Rightarrow> Option.bind (java_shard powm pool mem conf) (\<lambda>r.
          case r of
            Inl e \<Rightarrow> None
          | Inr shard \<Rightarrow>
              map_option (\<lambda>ips. (sint (of_nat (length ips) :: u32), Some (concat (map (target_line ports) ips))))
                (iter_print (it_max_hosts conf) 0 (fst (xm_shard_get_cur_ip shard)) (snd (xm_shard_get_cur_ip shard)))))"

text \<open>The \<open>iterate\<close> that is given a port number.\<close>

definition int_text :: "int \<Rightarrow> string" where
  "int_text n = (if n < 0 then CHR ''-'' # decimal (nat (- n)) else decimal (nat n))"

definition iterate_port ::
  "(nat \<Rightarrow> nat \<Rightarrow> nat \<Rightarrow> nat) \<Rightarrow> environment \<Rightarrow> u64 option \<Rightarrow> u32 list \<Rightarrow> shard_state \<Rightarrow> bool
   \<Rightarrow> string option \<Rightarrow> string option \<Rightarrow> int \<Rightarrow> (int \<times> string option) option" where
  "iterate_port powm env random pool mem opened wlist_path blist_path port =
     do_gen powm env random pool mem opened wlist_path blist_path (int_text port)"

section \<open>A shard that has ended\<close>

lemma list_lookup_nonzero: "wblist_ready wb \<Longrightarrow> i < xm_wblist_count_allowed wb \<Longrightarrow> fst (xm_wblist_lookup_index wb i) \<noteq> 0"
  using wbl.lookup_allowed [of wb i] by (auto simp: wblist_ready_def)

definition listed_shard :: "xm_shard \<Rightarrow> bool" where
  "listed_shard s \<longleftrightarrow> wblist_ready (wblist s) \<and> max_index s \<le> xm_wblist_count_allowed (wblist s)"

lemma next_ip_loop_listed:
  assumes "get_next_ip_loop s = Some r" "listed_shard s"
  shows "listed_shard (snd r) \<and> (fst r = 0 \<longrightarrow> current (snd r) = 0)"
proof -
  have "listed_shard s \<longrightarrow> listed_shard (snd r) \<and> (fst r = 0 \<longrightarrow> current (snd r) = 0)"
  proof (rule get_next_ip_loop.raw_induct [OF _ assms(1), where P = "\<lambda>s r. listed_shard s \<longrightarrow>
      listed_shard (snd r) \<and> (fst r = 0 \<longrightarrow> current (snd r) = 0)"], intro impI)
    fix loop s r
    assume IH: "\<And>s r. loop s = Some r \<Longrightarrow> listed_shard s \<longrightarrow> listed_shard (snd r) \<and> (fst r = 0 \<longrightarrow> current (snd r) = 0)"
      and body: "Option.bind (next_elem (factor (params s)) (modulus (params s)) (current s)) (\<lambda>c.
         let s = s\<lparr>current := c\<rparr>; candidate = (ucast c :: u32)
         in if ucast candidate = last_elem (params s)
            then Some (XM_SHARD_DONE, s\<lparr>current := ucast XM_SHARD_DONE\<rparr>)
            else if ucast (candidate - 1) < max_index s
            then Some (shard_lookup (s\<lparr>state := (state s)\<lparr>whitelisted := whitelisted (state s) + 1\<rparr>\<rparr>)
                   (ucast (candidate - 1)))
            else loop (s\<lparr>state := (state s)\<lparr>blacklisted := blacklisted (state s) + 1\<rparr>\<rparr>)) = Some r"
      and s: "listed_shard s"
    obtain c where c: "next_elem (factor (params s)) (modulus (params s)) (current s) = Some c"
      using body by (cases "next_elem (factor (params s)) (modulus (params s)) (current s)") auto
    let ?i = "ucast (ucast c - 1 :: u32) :: u64"
    consider (last_one) "ucast (ucast c :: u32) = last_elem (params s)" "r = (0, s\<lparr>current := 0\<rparr>)"
      | (hit) s' where "?i < max_index s" "r = shard_lookup s' ?i" "wblist s' = wblist s" "max_index s' = max_index s"
      | (skip) s' where "loop s' = Some r" "wblist s' = wblist s" "max_index s' = max_index s"
      using body by (auto simp: c Let_def XM_SHARD_DONE_def split: if_splits)
    then show "listed_shard (snd r) \<and> (fst r = 0 \<longrightarrow> current (snd r) = 0)"
    proof cases
      case last_one then show ?thesis using s by (simp add: listed_shard_def)
    next
      case hit
      have "?i < xm_wblist_count_allowed (wblist s)" using hit(1) s by (auto simp: listed_shard_def intro: less_le_trans)
      then show ?thesis
        using hit(2-4) s list_lookup_nonzero [of "wblist s" ?i] by (auto simp: listed_shard_def shard_lookup_ready)
    next
      case skip then show ?thesis using s IH [OF skip(1)] by (simp add: listed_shard_def)
    qed
  qed
  then show ?thesis using assms(2) by blast
qed

lemma next_ip_listed:
  assumes "xm_shard_get_next_ip s = Some (ip, s')" "listed_shard s"
  shows "listed_shard s' \<and> (ip = 0 \<longrightarrow> current s' = 0)"
proof (cases "current s = 0")
  case True
  then show ?thesis using assms by (simp add: xm_shard_get_next_ip_def XM_SHARD_DONE_def)
next
  case False
  then show ?thesis
    using assms next_ip_loop_listed [of s "(ip, s')"] by (simp add: xm_shard_get_next_ip_def XM_SHARD_DONE_def)
qed

lemma create_listed:
  assumes "iter_create_shard powm mem aes conf = Some (Inr shard)" "wblist_ready (it_wblist conf)"
  shows "listed_shard shard"
proof -
  have roll: "listed_shard (snd r)" if "shard_roll_to_valid s = Some r" "listed_shard s" for s r
    using that next_ip_listed [of s "fst r" "snd r"] by (auto simp: shard_roll_to_valid_def split: if_splits)
  have made: "listed_shard s" if "xm_shard_create powm mem i n t ts mt (xm_wblist_count_allowed wb) cy wb = Some s"
    "wblist_ready wb" for i n t ts mt cy wb s
    using that by (auto simp: xm_shard_create_def Let_def listed_shard_def split: if_splits dest!: roll)
  show ?thesis using assms made by (auto simp: iter_create_shard_def Let_def split: option.splits prod.splits)
qed

section \<open>The calls of an iteration\<close>

fun next_ips :: "nat \<Rightarrow> java_xit_context \<Rightarrow> (int list \<times> java_xit_context) option" where
  "next_ips 0 ctx = Some ([], ctx)"
| "next_ips (Suc k) ctx =
     Option.bind (get_next ctx) (\<lambda>(ip, ctx). map_option (\<lambda>(ips, ctx). (ip # ips, ctx)) (next_ips k ctx))"

text \<open>A context whose calls will return the addresses of \<open>T\<close>.\<close>

definition still_gives :: "java_xit_context \<Rightarrow> u32 list \<Rightarrow> bool" where
  "still_gives ctx T \<longleftrightarrow> listed_shard (jx_shard ctx) \<and>
     (if T = [] then jx_cur_ip ctx = 0 \<and> current (jx_shard ctx) = 0
      else jx_cur_ip ctx = hd T \<and> shard_ips (length T) (jx_shard ctx) = Some (tl T))"

lemma get_next_gives:
  assumes "still_gives ctx T"
  shows "\<exists>ctx'. get_next ctx = Some (if T = [] then 0 else uint (hd T), ctx') \<and> still_gives ctx' (tl T)"
proof (cases T)
  case Nil
  then show ?thesis using assms
    by (simp add: still_gives_def get_next_def xm_shard_get_next_ip_def XM_SHARD_DONE_def)
next
  case (Cons a U)
  then obtain ip s where n: "xm_shard_get_next_ip (jx_shard ctx) = Some (ip, s)"
    using assms by (auto simp: still_gives_def split: option.splits)
  have "listed_shard s" "ip = 0 \<longrightarrow> current s = 0" using next_ip_listed [OF n] assms by (simp_all add: still_gives_def)
  then show ?thesis
    using assms Cons n by (cases U) (auto simp: still_gives_def get_next_def XM_SHARD_DONE_def split: if_splits)
qed

lemma next_ips_gives:
  "still_gives ctx T \<Longrightarrow>
   \<exists>ctx'. next_ips k ctx = Some (map uint (take k T) @ replicate (k - length T) 0, ctx')"
proof (induction k arbitrary: ctx T)
  case (Suc k)
  obtain ctx1 where "get_next ctx = Some (if T = [] then 0 else uint (hd T), ctx1)" "still_gives ctx1 (tl T)"
    using get_next_gives [OF Suc.prems] by blast
  then show ?case using Suc.IH by (cases T) fastforce+
qed simp

text \<open>The shard of a whole list: all its targets, no more than the largest \<open>max_hosts\<close>.\<close>

lemma int_of_count:
  assumes "n < 2 ^ 32"
  shows "sint (of_nat n :: u32) = (if n < 2 ^ 31 then int n else int n - 2 ^ 32)"
proof (cases "n < 2 ^ 31")
  case True
  then show ?thesis by (simp add: sint_small unat_of_nat_small)
next
  case False
  have "sint (of_nat n :: u32) = signed_take_bit 31 (int n)" by (simp add: signed_of_nat)
  also have "\<dots> = (int n + 2 ^ 31) mod 2 ^ 32 - 2 ^ 31"
    using signed_take_bit_eq_take_bit_shift [of 31 "int n"] by (simp add: take_bit_eq_mod)
  also have "(int n + 2 ^ 31) mod 2 ^ 32 = (int n + 2 ^ 31 - 2 ^ 32) mod 2 ^ 32" by (metis mod_diff_right_eq mod_self diff_zero)
  also have "\<dots> = int n + 2 ^ 31 - 2 ^ 32" using False assms by (intro mod_pos_pos_trivial) simp_all
  finally show ?thesis using False by simp
qed

lemma java_shard_made:
  assumes "xm_wblist_create env (path_of wlist_path) (path_of blist_path) None None = Inr wb"
    "inet_aton env ''0.0.0.0'' = Some 0"
    "xm_get_cyclic_group (xm_wblist_count_allowed wb) = Some g"
    "unat (prime g) < 2 ^ 32 \<or> seed_walks powm pool sd g 1" "\<And>b e m. powm b e m = b ^ e mod m"
  shows "\<exists>conf shard T. java_configure env (Some sd) wlist_path blist_path = Inr conf \<and>
    java_shard powm pool mem conf = Some (Inr shard) \<and> shard_gives shard T \<and> listed_shard shard \<and>
    it_max_hosts conf = 0xFFFFFFFF \<and> length T = unat (xm_wblist_count_allowed wb) \<and> distinct T \<and>
    set T = {a. numbered wb a}"
proof -
  let ?n = "xm_wblist_count_allowed wb"
  have ready: "wblist_ready wb" by (rule wblist_create_ready [OF assms(1,2)])
  obtain aes where aes: "xm_aesrand_create_from_seed pool sd = Some aes" using seed_gives_aes by blast
  let ?conf = "\<lparr>it_shard_num = of_nat 0, it_total_shards = of_nat 1, it_conf_seed = sd, it_wblist = wb, it_max_hosts = 0xFFFFFFFF\<rparr>"
  have conf: "java_configure env (Some sd) wlist_path blist_path = Inr ?conf" by (simp add: java_configure_def assms(1))
  note g = list_group [OF assms(3)]
  have n: "unat ?n < unat (prime g)" "0 < ?n"
    using g(2) wblist_create_tree(2) [OF assms(1)] by (simp_all add: word_less_nat_alt word_gt_0 unat_gt_0)
  have one: "0 < (1 :: nat)" "(1 :: nat) < 2 ^ 16" "1 < unat (prime g)"
    using groups_good [OF g(1)] by (simp_all add: good_group_def)
  obtain cy where cy: "cycle_ok cy" "cgroup cy = g" and made: "\<exists>shard. iter_create_shard powm mem aes ?conf = Some (Inr shard) \<and>
        shard_gives shard (listed_or_outside wb (map (target_of wb) (shard_targets cy 1 ?n 0)))"
    using shard_made [OF ready assms(3-5) aes one(2,3)] one(1) by blast
  let ?T = "map (target_of wb) (shard_targets cy 1 ?n 0)"
  note idx = shard_indices [OF cy(1) one(1) n(1) [folded cy(2)] wbl.count_bound [OF ready]]
  note targets = shards_give_targets [OF ready cy(1) one(1) n(1) [folded cy(2)]]
  have "?T \<noteq> []" using idx(2) n(2) by auto
  then obtain shard where shard: "iter_create_shard powm mem aes ?conf = Some (Inr shard)" "shard_gives shard ?T"
    using made by (auto simp: listed_or_outside_def)
  have "length ?T = unat ?n" using shard_targets_length [OF ready cy(1) one(1) n(1) [folded cy(2)]] by simp
  then show ?thesis
    using shard targets conf aes create_listed [OF shard(1)] ready
    by (intro exI [of _ ?conf] exI [of _ shard] exI [of _ ?T]) (simp add: java_shard_def)
qed

section \<open>Properties\<close>

text \<open>Property C5. With a list that can be made the Java iterator gives every address that the list
  numbers once: the calls of \<open>getNextIP\<close> return these targets in some order and zeros from then on,
  however many there are, and \<open>iterate\<close> writes one line for each target in the same order and
  returns their number as an \<open>int\<close>, which is negative from \<open>2 ^ 31\<close> targets on.  All targets are
  allowed; an allowed address that is never given is that of a whitelist entry without a slash,
  whose prefix is taken to be longer than 32 bits.  In the largest group, that of lists with more
  than \<open>2 ^ 28 + 2\<close> targets, this holds for the seeds that walk the group.\<close>

theorem java_iteration:
  assumes "xm_wblist_create env (path_of wlist_path) (path_of blist_path) None None = Inr wb"
    "inet_aton env ''0.0.0.0'' = Some 0"
    "xm_get_cyclic_group (xm_wblist_count_allowed wb) = Some g"
    "unat (prime g) < 2 ^ 32 \<or> seed_walks powm pool sd g 1" "\<And>b e m. powm b e m = b ^ e mod m"
  shows "\<exists>T. distinct T \<and> set T = {a. numbered wb a} \<and> length T = unat (xm_wblist_count_allowed wb) \<and>
    (\<exists>ctx. java_prepare powm env (Some sd) pool mem wlist_path blist_path = Some (Inr ctx) \<and>
      (\<forall>k. \<exists>ctx'. next_ips k ctx = Some (map uint (take k T) @ replicate (k - length T) 0, ctx'))) \<and>
    do_gen powm env (Some sd) pool mem True wlist_path blist_path ports =
      Some (if length T < 2 ^ 31 then int (length T) else int (length T) - 2 ^ 32,
        Some (concat (map (target_line ports) T))) \<and>
    (\<forall>a. numbered wb a \<longrightarrow> xm_wblist_is_allowed wb a) \<and>
    (\<forall>a. xm_wblist_is_allowed wb a \<and> \<not> numbered wb a \<longrightarrow> (\<exists>len > 32. (ntohl a, len, ADDR_ALLOWED) \<in>
       set (list_entries env (path_of wlist_path) (path_of blist_path) None None)))"
proof -
  obtain conf shard T where c: "java_configure env (Some sd) wlist_path blist_path = Inr conf"
    "java_shard powm pool mem conf = Some (Inr shard)" "shard_gives shard T" "listed_shard shard"
    "it_max_hosts conf = 0xFFFFFFFF" and T: "length T = unat (xm_wblist_count_allowed wb)" "distinct T"
    "set T = {a. numbered wb a}"
    using java_shard_made [OF assms] by blast
  let ?ctx = "\<lparr>jx_conf = conf, jx_shard = shard, jx_cur_ip = hd T\<rparr>"
  have "java_prepare powm env (Some sd) pool mem wlist_path blist_path = Some (Inr ?ctx)"
    using c(1-3) by (simp add: java_prepare_def shard_gives_def)
  moreover have "still_gives ?ctx T" using c(3,4) by (simp add: still_gives_def shard_gives_def)
  moreover have lt: "length T < 2 ^ 32" using T(1) wbl.count_bound [OF wblist_create_ready [OF assms(1,2)]] by simp
  then have "capped 0xFFFFFFFF T = T" by (simp add: capped_def)
  moreover note int_of_count [OF lt]
  ultimately show ?thesis
    using T c next_ips_gives [of ?ctx T] iter_print_gives [OF c(3), of "0xFFFFFFFF"] allowed_not_numbered [OF assms(1)]
    by (intro exI [of _ T]) (simp add: do_gen_def numbered_def)
qed

text \<open>A whitelist in a file, with the same sixteen addresses as that of the runs of \<open>xiterate\<close>.\<close>

definition demo_file_env :: environment where
  "demo_file_env = demo_env\<lparr>fopen := (\<lambda>s. if s = ''wl'' then Some ''10.0.0.0/28'' else None)\<rparr>"

lemma demo_file_tree:
  "list_tree demo_file_env (Some ''wl'') None None None = list_tree demo_env None None (Some [''10.0.0.0/28'']) None"
proof -
  have "list_entries demo_file_env (Some ''wl'') None None None = [(0x0A000000, 28, 1), (0, 256, 0)]" by code_simp
  then show ?thesis by (simp add: list_tree_def demo_iter_entries list_default_def array_of_def)
qed

lemma demo_file_list:
  "xm_wblist_create demo_file_env (path_of (Some ''wl'')) (path_of (Some [])) None None = Inr demo_iter_wb"
proof -
  have "\<not> overlong (words_of demo_file_env (Some ''wl''))" by code_simp
  then show ?thesis
    using wblist_create_ok [where env = demo_file_env and wfile = "Some ''wl''" and bfile = None and a = "0x0A000001"
      and we = None and be = None] demo_iter_tree(2)
    by (simp add: path_of_def demo_file_tree demo_iter_wb_def)
qed

theorem java_iteration_witness:
  "\<exists>T. distinct T \<and> do_gen modpow demo_file_env (Some 42) (replicate 44 0) \<lparr>sent = 0, tried_sent = 0, blacklisted = 0,
        whitelisted = 0, failures = 0, first_scanned = 0, max_targets = 0\<rparr> True (Some ''wl'') (Some []) ''80'' =
      Some (int (length T), Some (concat (map (target_line ''80'') T)))"
proof -
  have z: "inet_aton demo_file_env ''0.0.0.0'' = Some 0" by (simp add: demo_file_env_def demo_zero)
  have p: "unat (prime (groups ! 0)) < 2 ^ 32" by (simp add: groups_def)
  show ?thesis using java_iteration [OF demo_file_list z demo_iter_list(3) disjI1 [OF p] modpow_power] demo_iter_list(2) by fastforce
qed

text \<open>Unlike \<open>xiterate\<close>, which refuses to run, the Java iterator takes a blacklist that cannot be
  read for an empty one: it gives the addresses that it should have left out.\<close>

theorem java_unreadable_blacklist:
  assumes "fopen env b = None"
  shows "java_prepare powm env random pool mem w (Some b) = java_prepare powm env random pool mem w None \<and>
    do_gen powm env random pool mem opened w (Some b) ports = do_gen powm env random pool mem opened w None ports \<and>
    (it_blacklist_file args = Some b \<longrightarrow> xiterate powm env random pool mem args = Some (Inl Unreadable))"
proof -
  have "blacklist_tree env (path_of (Some b)) None = blacklist_tree env (path_of None) None"
    using assms by (simp add: fun_eq_iff blacklist_tree_def path_of_def init_optional_file_def init_from_file_def)
  then have "java_configure env random w (Some b) = java_configure env random w None"
    by (simp add: java_configure_def xm_wblist_create_def)
  then show ?thesis
    using assms by (simp add: java_prepare_def do_gen_def xiterate_def iter_configure_def unreadable_def)
qed

theorem java_unreadable_blacklist_witness:
  "java_prepare modpow demo_file_env (Some 1) (replicate 44 0) \<lparr>sent = 0, tried_sent = 0, blacklisted = 0,
     whitelisted = 0, failures = 0, first_scanned = 0, max_targets = 0\<rparr> (Some ''wl'') (Some ''bl'') =
   java_prepare modpow demo_file_env (Some 1) (replicate 44 0) \<lparr>sent = 0, tried_sent = 0, blacklisted = 0,
     whitelisted = 0, failures = 0, first_scanned = 0, max_targets = 0\<rparr> (Some ''wl'') None"
proof -
  have "fopen demo_file_env ''bl'' = None" by (simp add: demo_file_env_def)
  from java_unreadable_blacklist [OF this] show ?thesis by blast
qed

end
