(* ===== verification/Shm.thy ===== *)
theory Shm
  imports Memory
begin

text \<open>
  The ring of entries in shared memory of \<open>lib/shm/xm_shm_interface.[ch]\<close>, and its two
  providers \<open>xm_shm_mmap.c\<close> and \<open>xm_shm_memory.c\<close>.  One process writes entries, another one
  reads them; both work on the header at the start of the shared block.  The functions take
  the header they work on and return the changed one; times are arguments.
\<close>

unbundle bit_operations_syntax

section \<open>State\<close>

record xm_shm_header =
  shm_entries_start :: u64
  shm_entries_count :: u64
  shm_entry_size :: u64
  shm_entries_count_cur :: u64
  shm_write_entry_pos :: u64
  shm_read_entry_pos :: u64
  shm_priv_data_size :: u64
  shm_last_write_time :: u64
  shm_last_read_time :: u64
  shm_last_write_ok_time :: u64
  shm_last_read_ok_time :: u64

definition sizeof_shm_header :: u64 where "sizeof_shm_header = 88"

text \<open>\<open>shm_address_get\<close> is the provider's: the address of an offset, \<open>None\<close> for \<open>NULL\<close>; it
  reads the header it finds at the interface.\<close>

record xm_shm_interface =
  page_size :: u64
  shm_size :: u64
  is_write :: bool
  shm_address_get :: "xm_shm_header \<Rightarrow> u64 \<Rightarrow> u64 option"

record xm_shm_entry =
  entry_index :: u64
  entry_start :: u64
  entry_pos :: u64
  entry_end :: u64

section \<open>Operations\<close>

definition xm_align_up :: "u64 \<Rightarrow> u64 \<Rightarrow> u64" where
  "xm_align_up d a = (d + (a - 1)) AND NOT (a - 1)"

definition xm_shm_priv_data_address :: "u64 \<Rightarrow> xm_shm_header \<Rightarrow> u64 option" where
  "xm_shm_priv_data_address address mh =
     (if shm_priv_data_size mh = 0 then None else Some (address + sizeof_shm_header))"

definition xm_shm_entry_pos_offset :: "xm_shm_header \<Rightarrow> u64 \<Rightarrow> u64" where
  "xm_shm_entry_pos_offset mh indx = shm_entry_size mh * indx + shm_entries_start mh"

text \<open>A ring without entries never comes to the division: it is full and empty at once.\<close>

definition xm_shm_entry_pos_update :: "xm_shm_interface \<Rightarrow> xm_shm_header \<Rightarrow> int \<Rightarrow> int \<Rightarrow> xm_shm_header" where
  "xm_shm_entry_pos_update shm_int mh pos_c c =
     (let count = shm_entries_count mh;
          mh = (if is_write shm_int
                then mh\<lparr>shm_write_entry_pos := (shm_write_entry_pos mh + of_int pos_c) mod count\<rparr>
                else mh\<lparr>shm_read_entry_pos := (shm_read_entry_pos mh + of_int pos_c) mod count\<rparr>)
      in mh\<lparr>shm_entries_count_cur := shm_entries_count_cur mh + of_int c\<rparr>)"

definition xm_shm_empty :: "xm_shm_header \<Rightarrow> bool" where
  "xm_shm_empty mh \<longleftrightarrow> shm_entries_count_cur mh = 0"

definition xm_shm_full :: "xm_shm_header \<Rightarrow> bool" where
  "xm_shm_full mh \<longleftrightarrow> shm_entries_count_cur mh = shm_entries_count mh"

definition shm_entries_count_get :: "xm_shm_interface \<Rightarrow> u64 \<Rightarrow> u64 \<Rightarrow> u64" where
  "shm_entries_count_get shm_int hsize entry_size = (shm_size shm_int - hsize) div entry_size"

definition shm_header_init :: "xm_shm_interface \<Rightarrow> u64 \<Rightarrow> u64 \<Rightarrow> xm_shm_header" where
  "shm_header_init shm_int entry_size priv_data_size =
     (let hsize = xm_align_up (sizeof_shm_header + priv_data_size) (page_size shm_int)
      in \<lparr>shm_entries_start = hsize,
          shm_entries_count = shm_entries_count_get shm_int hsize entry_size,
          shm_entry_size = entry_size, shm_entries_count_cur = 0,
          shm_write_entry_pos = 0, shm_read_entry_pos = 0,
          shm_priv_data_size = priv_data_size,
          shm_last_write_time = 0, shm_last_read_time = 0,
          shm_last_write_ok_time = 0, shm_last_read_ok_time = 0\<rparr>)"

text \<open>\<open>xm_shm_init\<close>: a reader finds the header in the shared block, a writer sets it up.\<close>

definition xm_shm_init ::
  "(xm_shm_header \<Rightarrow> u64 \<Rightarrow> u64 option) \<Rightarrow> xm_shm_header \<Rightarrow> u64 \<Rightarrow> u64 \<Rightarrow> u64 \<Rightarrow> u64 \<Rightarrow> bool
   \<Rightarrow> xm_shm_interface \<times> xm_shm_header" where
  "xm_shm_init address_get mh sz entry_size priv_data_size pg_size w =
     (let shm_int = \<lparr>page_size = pg_size, shm_size = sz, is_write = w, shm_address_get = address_get\<rparr>
      in (shm_int, if w then shm_header_init shm_int entry_size priv_data_size else mh))"

definition shm_entry_can_get :: "xm_shm_interface \<Rightarrow> xm_shm_header \<Rightarrow> bool" where
  "shm_entry_can_get shm_int mh =
     (if is_write shm_int \<and> xm_shm_full mh then False
      else if \<not> is_write shm_int \<and> xm_shm_empty mh then False
      else True)"

definition shm_entry_index_get :: "xm_shm_interface \<Rightarrow> xm_shm_header \<Rightarrow> u64" where
  "shm_entry_index_get shm_int mh =
     (if is_write shm_int then shm_write_entry_pos mh else shm_read_entry_pos mh)"

definition shm_entry_init :: "xm_shm_interface \<Rightarrow> xm_shm_header \<Rightarrow> u64 \<Rightarrow> xm_shm_entry option" where
  "shm_entry_init shm_int mh indx =
     (case shm_address_get shm_int mh (xm_shm_entry_pos_offset mh indx) of
        None \<Rightarrow> None
      | Some addr \<Rightarrow> Some \<lparr>entry_index = indx, entry_start = addr, entry_pos = addr,
          entry_end = addr + shm_entry_size mh\<rparr>)"

text \<open>\<open>xm_shm_entry_get\<close>: \<open>None\<close> is the error return -1; the times are set on the way.\<close>

definition xm_shm_entry_get ::
  "u64 \<Rightarrow> xm_shm_interface \<Rightarrow> xm_shm_header \<Rightarrow> xm_shm_entry option \<times> xm_shm_header" where
  "xm_shm_entry_get time shm_int mh =
     (let mh = (if is_write shm_int then mh\<lparr>shm_last_write_time := time\<rparr>
                else mh\<lparr>shm_last_read_time := time\<rparr>)
      in if \<not> shm_entry_can_get shm_int mh then (None, mh)
         else let indx = shm_entry_index_get shm_int mh;
                  mh = (if is_write shm_int then mh\<lparr>shm_last_write_ok_time := time\<rparr>
                        else mh\<lparr>shm_last_read_ok_time := time\<rparr>)
              in (shm_entry_init shm_int mh indx, mh))"

text \<open>\<open>xm_shm_entry_commit\<close>: the entry is cleared as well.\<close>

definition xm_shm_entry_commit ::
  "xm_shm_interface \<Rightarrow> xm_shm_header \<Rightarrow> xm_shm_entry \<times> xm_shm_header" where
  "xm_shm_entry_commit shm_int mh =
     (let c = (if is_write shm_int then 1 else -1)
      in (\<lparr>entry_index = 0, entry_start = 0, entry_pos = 0, entry_end = 0\<rparr>,
          xm_shm_entry_pos_update shm_int mh 1 c))"

section \<open>The providers\<close>

text \<open>What the providers ask of the system: the page size, whether a file exists, file
  descriptors (negative on error), and the mapped address of a file or segment.  A failed
  \<open>mmap\<close> is \<open>MAP_FAILED\<close>, all ones; only the header's mapping is compared with it.\<close>

record shm_system =
  sys_page_size :: u64
  sys_existed :: "string \<Rightarrow> bool"
  sys_open_write :: "string \<Rightarrow> int"
  sys_open_read :: "string \<Rightarrow> int"
  sys_fallocate :: "int \<Rightarrow> u64 \<Rightarrow> bool"
  sys_mmap :: "int \<Rightarrow> u64 \<Rightarrow> u64 \<Rightarrow> u64"
  sys_shm_create :: "string \<Rightarrow> int \<Rightarrow> u64 \<Rightarrow> u64 option"
  sys_shm_open :: "string \<Rightarrow> int \<Rightarrow> u64 option"

definition MAP_FAILED :: u64 where "MAP_FAILED = - 1"

definition mmap_address_get :: "shm_system \<Rightarrow> int \<Rightarrow> xm_shm_header \<Rightarrow> u64 \<Rightarrow> u64 option" where
  "mmap_address_get sys fd mh offset =
     (let addr = sys_mmap sys fd (shm_entry_size mh) offset in if addr = 0 then None else Some addr)"

definition mmap_file_open_for_write :: "shm_system \<Rightarrow> string \<Rightarrow> bool \<Rightarrow> u64 \<Rightarrow> int" where
  "mmap_file_open_for_write sys fname existed fsize =
     (let fd = sys_open_write sys fname
      in if fd < 0 \<or> existed then fd
         else if \<not> sys_fallocate sys fd fsize then -1 else fd)"

definition mmap_header_attach :: "shm_system \<Rightarrow> int \<Rightarrow> u64 \<Rightarrow> u64 \<Rightarrow> u64 option" where
  "mmap_header_attach sys fd pg_size priv_data_size =
     (let sz = xm_align_up (sizeof_shm_header + priv_data_size) pg_size;
          addr = sys_mmap sys fd sz 0
      in if addr = MAP_FAILED then None else Some addr)"

text \<open>\<open>xm_shm_mmap_create\<close>: \<open>mh\<close> is the header found in the file.\<close>

definition xm_shm_mmap_create ::
  "shm_system \<Rightarrow> xm_shm_header \<Rightarrow> string \<Rightarrow> u64 \<Rightarrow> u64 \<Rightarrow> u64 \<Rightarrow> bool
   \<Rightarrow> (xm_shm_interface \<times> xm_shm_header) option" where
  "xm_shm_mmap_create sys mh fname fsize entry_size priv_data_size w =
     (let pg_size = sys_page_size sys; existed = sys_existed sys fname
      in if \<not> existed \<and> \<not> w then None
         else
           let r_fsize = xm_align_up fsize pg_size;
               r_entry_size = xm_align_up entry_size pg_size;
               r_priv_data_size = (if priv_data_size \<noteq> 0 then xm_align_up priv_data_size pg_size else 0);
               fd = (if w then mmap_file_open_for_write sys fname existed r_fsize
                     else sys_open_read sys fname)
           in if fd < 0 then None
              else case mmap_header_attach sys fd pg_size r_priv_data_size of
                     None \<Rightarrow> None
                   | Some address \<Rightarrow>
                       Some (xm_shm_init (mmap_address_get sys fd) mh
                         r_fsize r_entry_size r_priv_data_size pg_size w))"

definition memory_address_get :: "u64 \<Rightarrow> xm_shm_header \<Rightarrow> u64 \<Rightarrow> u64 option" where
  "memory_address_get start_address mh offset =
     (let addr = start_address + offset in if addr = 0 then None else Some addr)"

definition xm_shm_memory_create ::
  "shm_system \<Rightarrow> xm_shm_header \<Rightarrow> string \<Rightarrow> int \<Rightarrow> u64 \<Rightarrow> u64 \<Rightarrow> u64 \<Rightarrow> bool
   \<Rightarrow> (xm_shm_interface \<times> xm_shm_header) option" where
  "xm_shm_memory_create sys mh key proj_id sz entry_size priv_data_size w =
     (let pg_size = sys_page_size sys;
          r_size = xm_align_up sz pg_size;
          r_entry_size = xm_align_up entry_size pg_size;
          r_priv_data_size = (if priv_data_size \<noteq> 0 then xm_align_up priv_data_size pg_size else 0)
      in case (if w then sys_shm_create sys key proj_id r_size else sys_shm_open sys key proj_id) of
           None \<Rightarrow> None
         | Some start_address \<Rightarrow>
             Some (xm_shm_init (memory_address_get start_address) mh
               r_size r_entry_size r_priv_data_size pg_size w))"

section \<open>A queue\<close>

datatype 'a queue_op = Put 'a | Get

text \<open>Running a sequence of operations: the values that came out, the values that were accepted.\<close>

fun queue_run :: "('q \<Rightarrow> 'a \<Rightarrow> 'q option) \<Rightarrow> ('q \<Rightarrow> ('a \<times> 'q) option) \<Rightarrow> 'q \<Rightarrow> 'a queue_op list
    \<Rightarrow> 'a list \<times> 'a list \<times> 'q" where
  "queue_run enq deq q [] = ([], [], q)"
| "queue_run enq deq q (Put x # ops) =
     (case enq q x of
        None \<Rightarrow> queue_run enq deq q ops
      | Some q' \<Rightarrow> apsnd (apfst (Cons x)) (queue_run enq deq q' ops))"
| "queue_run enq deq q (Get # ops) =
     (case deq q of
        None \<Rightarrow> queue_run enq deq q ops
      | Some (x, q') \<Rightarrow> apfst (Cons x) (queue_run enq deq q' ops))"

locale bounded_queue =
  fixes enq :: "'q \<Rightarrow> 'a \<Rightarrow> 'q option" and deq :: "'q \<Rightarrow> ('a \<times> 'q) option"
    and abs :: "'q \<Rightarrow> 'a list" and inv :: "'q \<Rightarrow> bool" and ok :: "'q \<Rightarrow> 'a \<Rightarrow> bool" and cap :: "'q \<Rightarrow> nat"
  assumes abs_cap: "inv q \<Longrightarrow> length (abs q) \<le> cap q"
    and enq_full: "inv q \<Longrightarrow> length (abs q) = cap q \<Longrightarrow> enq q x = None"
    and enq_room: "inv q \<Longrightarrow> ok q x \<Longrightarrow> length (abs q) < cap q \<Longrightarrow>
      \<exists>q'. enq q x = Some q' \<and> inv q' \<and> abs q' = abs q @ [x] \<and> cap q' = cap q \<and> ok q' = ok q"
    and deq_empty: "inv q \<Longrightarrow> abs q = [] \<Longrightarrow> deq q = None"
    and deq_some: "inv q \<Longrightarrow> abs q = x # xs \<Longrightarrow>
      \<exists>q'. deq q = Some (x, q') \<and> inv q' \<and> abs q' = xs \<and> cap q' = cap q \<and> ok q' = ok q"
begin

lemma enq_cases:
  assumes "inv q" "ok q x"
  obtains "enq q x = None" "length (abs q) = cap q"
  | q' where "enq q x = Some q'" "inv q'" "abs q' = abs q @ [x]" "cap q' = cap q" "ok q' = ok q"
proof (cases "length (abs q) = cap q")
  case True
  then show ?thesis using enq_full [OF assms(1)] that(1) by simp
next
  case False
  then have "length (abs q) < cap q" using abs_cap [OF assms(1)] by simp
  then show ?thesis using enq_room [OF assms] that(2) by metis
qed

lemma run_fifo:
  "inv q \<Longrightarrow> \<forall>x. Put x \<in> set ops \<longrightarrow> ok q x \<Longrightarrow> queue_run enq deq q ops = (outs, ins, q') \<Longrightarrow>
   inv q' \<and> outs @ abs q' = abs q @ ins"
proof (induction ops arbitrary: q outs ins q')
  case (Cons op ops)
  show ?case
  proof (cases op)
    case (Put x)
    then have "ok q x" using Cons.prems(2) by simp
    with Cons.prems(1) show ?thesis
    proof (cases rule: enq_cases)
      case 1
      then show ?thesis using Cons.IH [of q outs ins q'] Cons.prems Put by simp
    next
      case (2 q1)
      obtain outs1 ins1 q2 where r: "queue_run enq deq q1 ops = (outs1, ins1, q2)" by (metis prod_cases3)
      then have "inv q2 \<and> outs1 @ abs q2 = abs q1 @ ins1" using 2 Cons.prems(2) by (intro Cons.IH) auto
      then show ?thesis using 2 Put Cons.prems(3) r by auto
    qed
  next
    case Get
    show ?thesis
    proof (cases "abs q")
      case Nil
      then show ?thesis
        using Cons.IH [of q outs ins q'] Cons.prems Get deq_empty [OF Cons.prems(1)] by simp
    next
      case abs: (Cons x xs)
      then obtain q1 where q1: "deq q = Some (x, q1)" "inv q1" "abs q1 = xs" "cap q1 = cap q" "ok q1 = ok q"
        using deq_some Cons.prems(1) by blast
      obtain outs1 ins1 q2 where r: "queue_run enq deq q1 ops = (outs1, ins1, q2)" by (metis prod_cases3)
      then have "inv q2 \<and> outs1 @ abs q2 = abs q1 @ ins1" using q1 Cons.prems(2) by (intro Cons.IH) auto
      then show ?thesis using q1 Get Cons.prems(3) abs r by auto
    qed
  qed
qed simp

end

section \<open>The ring is a queue of blocks\<close>

text \<open>The shared block with its header, and the clock.\<close>

record shm_ring =
  ring_base :: u64
  ring_hdr :: xm_shm_header
  ring_mem :: mem
  ring_time :: u64

definition writer_of :: "shm_ring \<Rightarrow> xm_shm_interface" where
  "writer_of q = \<lparr>page_size = 4096, shm_size = 0, is_write = True,
     shm_address_get = memory_address_get (ring_base q)\<rparr>"

definition reader_of :: "shm_ring \<Rightarrow> xm_shm_interface" where
  "reader_of q = \<lparr>page_size = 4096, shm_size = 0, is_write = False,
     shm_address_get = memory_address_get (ring_base q)\<rparr>"

text \<open>How the clients use the ring: get an entry, fill or read it, commit it.\<close>

definition ring_put :: "shm_ring \<Rightarrow> u8 list \<Rightarrow> shm_ring option" where
  "ring_put q bs =
     (case xm_shm_entry_get (ring_time q) (writer_of q) (ring_hdr q) of
        (None, mh) \<Rightarrow> None
      | (Some e, mh) \<Rightarrow> Some (q\<lparr>ring_hdr := snd (xm_shm_entry_commit (writer_of q) mh),
          ring_mem := mem_write (ring_mem q) (entry_start e) bs\<rparr>))"

definition ring_get :: "shm_ring \<Rightarrow> (u8 list \<times> shm_ring) option" where
  "ring_get q =
     (case xm_shm_entry_get (ring_time q) (reader_of q) (ring_hdr q) of
        (None, mh) \<Rightarrow> None
      | (Some e, mh) \<Rightarrow>
          Some (mem_bytes (ring_mem q) (entry_start e) (unat (entry_end e - entry_start e)),
            q\<lparr>ring_hdr := snd (xm_shm_entry_commit (reader_of q) mh)\<rparr>))"

definition ring_count :: "shm_ring \<Rightarrow> nat" where
  "ring_count q = unat (shm_entries_count (ring_hdr q))"

definition ring_size :: "shm_ring \<Rightarrow> nat" where
  "ring_size q = unat (shm_entry_size (ring_hdr q))"

definition ring_start :: "shm_ring \<Rightarrow> nat" where
  "ring_start q = unat (ring_base q) + unat (shm_entries_start (ring_hdr q))"

definition ring_inv :: "shm_ring \<Rightarrow> bool" where
  "ring_inv q \<longleftrightarrow>
     0 < ring_count q \<and> ring_count q < 2 ^ 63 \<and>
     unat (shm_entries_count_cur (ring_hdr q)) \<le> ring_count q \<and>
     unat (shm_read_entry_pos (ring_hdr q)) < ring_count q \<and>
     unat (shm_write_entry_pos (ring_hdr q)) =
       (unat (shm_read_entry_pos (ring_hdr q)) + unat (shm_entries_count_cur (ring_hdr q))) mod ring_count q \<and>
     0 < ring_start q \<and> ring_start q + ring_count q * ring_size q < 2 ^ 64"

definition slot :: "shm_ring \<Rightarrow> nat \<Rightarrow> u64" where
  "slot q i = of_nat (ring_start q + ring_size q * i)"

definition ring_queue :: "shm_ring \<Rightarrow> u8 list list" where
  "ring_queue q =
     map (\<lambda>i. mem_bytes (ring_mem q) (slot q ((unat (shm_read_entry_pos (ring_hdr q)) + i) mod ring_count q)) (ring_size q))
       [0..<unat (shm_entries_count_cur (ring_hdr q))]"

lemma slot_bound:
  assumes "ring_inv q" "i < ring_count q"
  shows "unat (slot q i) = ring_start q + ring_size q * i"
    and "ring_start q + ring_size q * i + ring_size q \<le> ring_start q + ring_count q * ring_size q"
    and "ring_start q + ring_count q * ring_size q < 2 ^ 64"
proof -
  have "Suc i * ring_size q \<le> ring_count q * ring_size q" using assms(2) by (intro mult_le_mono1) simp
  then show 1: "ring_start q + ring_size q * i + ring_size q \<le> ring_start q + ring_count q * ring_size q"
    by (simp add: algebra_simps)
  show "ring_start q + ring_count q * ring_size q < 2 ^ 64" using assms(1) by (simp add: ring_inv_def)
  with 1 show "unat (slot q i) = ring_start q + ring_size q * i"
    unfolding slot_def by (intro unat_of_nat_small) simp
qed

lemma slots_apart:
  assumes "ring_inv q" "i < ring_count q" "j < ring_count q" "i \<noteq> j"
  shows "apart (slot q i) (ring_size q) (slot q j) (ring_size q)"
proof -
  have "ring_size q * i + ring_size q \<le> ring_size q * j \<or> ring_size q * j + ring_size q \<le> ring_size q * i"
    using assms(4) mult_le_mono2 [of "Suc i" j "ring_size q"] mult_le_mono2 [of "Suc j" i "ring_size q"] by fastforce
  then show ?thesis
    using slot_bound [OF assms(1,2)] slot_bound [OF assms(1,3)] by (auto simp: apart_def)
qed

lemma entry_init_slot:
  assumes "ring_inv q" "unat indx < ring_count q" "shm_entry_size mh = shm_entry_size (ring_hdr q)"
    "shm_entries_start mh = shm_entries_start (ring_hdr q)"
    "shm_address_get si = memory_address_get (ring_base q)"
  shows "shm_entry_init si mh indx = Some \<lparr>entry_index = indx, entry_start = slot q (unat indx),
    entry_pos = slot q (unat indx), entry_end = slot q (unat indx) + shm_entry_size (ring_hdr q)\<rparr>"
proof -
  have "ring_base q + (shm_entry_size (ring_hdr q) * indx + shm_entries_start (ring_hdr q)) = slot q (unat indx)"
    by (simp add: slot_def ring_start_def ring_size_def algebra_simps)
  moreover have "slot q (unat indx) \<noteq> 0"
    using slot_bound [OF assms(1,2)] assms(1) by (auto simp: ring_inv_def)
  ultimately show ?thesis
    using assms(3-5) by (simp add: shm_entry_init_def xm_shm_entry_pos_offset_def memory_address_get_def Let_def)
qed

text \<open>The fields of the header that the ring depends on.\<close>

definition ring_same :: "xm_shm_header \<Rightarrow> xm_shm_header \<Rightarrow> bool" where
  "ring_same mh mh' \<longleftrightarrow> shm_entries_start mh' = shm_entries_start mh \<and>
     shm_entries_count mh' = shm_entries_count mh \<and> shm_entry_size mh' = shm_entry_size mh \<and>
     shm_entries_count_cur mh' = shm_entries_count_cur mh \<and>
     shm_write_entry_pos mh' = shm_write_entry_pos mh \<and> shm_read_entry_pos mh' = shm_read_entry_pos mh"

lemma ring_same_simps:
  assumes "ring_same (ring_hdr q) mh"
  shows "ring_inv (q\<lparr>ring_hdr := mh\<rparr>) = ring_inv q" "ring_queue (q\<lparr>ring_hdr := mh\<rparr>) = ring_queue q"
    "ring_count (q\<lparr>ring_hdr := mh\<rparr>) = ring_count q" "ring_size (q\<lparr>ring_hdr := mh\<rparr>) = ring_size q"
    "ring_start (q\<lparr>ring_hdr := mh\<rparr>) = ring_start q" "slot (q\<lparr>ring_hdr := mh\<rparr>) i = slot q i"
  using assms by (simp_all add: ring_same_def ring_inv_def ring_queue_def ring_count_def ring_size_def
    ring_start_def slot_def)

lemma ring_same_times [simp]:
  "ring_same mh (mh\<lparr>shm_last_write_time := t\<rparr>)" "ring_same mh (mh\<lparr>shm_last_read_time := t\<rparr>)"
  "ring_same mh (mh\<lparr>shm_last_write_time := t, shm_last_write_ok_time := t'\<rparr>)"
  "ring_same mh (mh\<lparr>shm_last_read_time := t, shm_last_read_ok_time := t'\<rparr>)"
  by (simp_all add: ring_same_def)

abbreviation write_index :: "shm_ring \<Rightarrow> nat" where
  "write_index q \<equiv> unat (shm_write_entry_pos (ring_hdr q))"

abbreviation read_index :: "shm_ring \<Rightarrow> nat" where
  "read_index q \<equiv> unat (shm_read_entry_pos (ring_hdr q))"

text \<open>Getting an entry: refused when the ring is full (empty), otherwise the slot of the process.\<close>

lemma entry_get_write:
  assumes "ring_inv q" "is_write si" "shm_address_get si = memory_address_get (ring_base q)"
  shows "length (ring_queue q) = ring_count q \<Longrightarrow> \<exists>mh. xm_shm_entry_get t si (ring_hdr q) = (None, mh) \<and>
      ring_same (ring_hdr q) mh"
    and "length (ring_queue q) < ring_count q \<Longrightarrow> \<exists>mh. xm_shm_entry_get t si (ring_hdr q) =
      (Some \<lparr>entry_index = shm_write_entry_pos (ring_hdr q), entry_start = slot q (write_index q),
        entry_pos = slot q (write_index q), entry_end = slot q (write_index q) + shm_entry_size (ring_hdr q)\<rparr>, mh) \<and>
      ring_same (ring_hdr q) mh"
proof -
  have w: "write_index q < ring_count q" using assms(1) by (simp add: ring_inv_def)
  show "length (ring_queue q) = ring_count q \<Longrightarrow> \<exists>mh. xm_shm_entry_get t si (ring_hdr q) = (None, mh) \<and>
      ring_same (ring_hdr q) mh"
    using assms(2) by (simp add: xm_shm_entry_get_def Let_def shm_entry_can_get_def xm_shm_full_def
      ring_queue_def ring_count_def word_unat_eq_iff)
  show "length (ring_queue q) < ring_count q \<Longrightarrow> \<exists>mh. xm_shm_entry_get t si (ring_hdr q) =
      (Some \<lparr>entry_index = shm_write_entry_pos (ring_hdr q), entry_start = slot q (write_index q),
        entry_pos = slot q (write_index q), entry_end = slot q (write_index q) + shm_entry_size (ring_hdr q)\<rparr>, mh) \<and>
      ring_same (ring_hdr q) mh"
    using assms(2) entry_init_slot [OF assms(1) w _ _ assms(3)]
    by (auto simp: xm_shm_entry_get_def Let_def shm_entry_can_get_def xm_shm_full_def
      ring_queue_def ring_count_def shm_entry_index_get_def)
qed

lemma entry_get_read:
  assumes "ring_inv q" "\<not> is_write si" "shm_address_get si = memory_address_get (ring_base q)"
  shows "ring_queue q = [] \<Longrightarrow> \<exists>mh. xm_shm_entry_get t si (ring_hdr q) = (None, mh) \<and>
      ring_same (ring_hdr q) mh"
    and "ring_queue q \<noteq> [] \<Longrightarrow> \<exists>mh. xm_shm_entry_get t si (ring_hdr q) =
      (Some \<lparr>entry_index = shm_read_entry_pos (ring_hdr q), entry_start = slot q (read_index q),
        entry_pos = slot q (read_index q), entry_end = slot q (read_index q) + shm_entry_size (ring_hdr q)\<rparr>, mh) \<and>
      ring_same (ring_hdr q) mh"
proof -
  have r: "read_index q < ring_count q" using assms(1) by (simp add: ring_inv_def)
  show "ring_queue q = [] \<Longrightarrow> \<exists>mh. xm_shm_entry_get t si (ring_hdr q) = (None, mh) \<and>
      ring_same (ring_hdr q) mh"
    using assms(2) by (simp add: xm_shm_entry_get_def Let_def shm_entry_can_get_def xm_shm_empty_def
      ring_queue_def unat_eq_zero)
  show "ring_queue q \<noteq> [] \<Longrightarrow> \<exists>mh. xm_shm_entry_get t si (ring_hdr q) =
      (Some \<lparr>entry_index = shm_read_entry_pos (ring_hdr q), entry_start = slot q (read_index q),
        entry_pos = slot q (read_index q), entry_end = slot q (read_index q) + shm_entry_size (ring_hdr q)\<rparr>, mh) \<and>
      ring_same (ring_hdr q) mh"
    using assms(2) entry_init_slot [OF assms(1) r _ _ assms(3)]
    by (auto simp: xm_shm_entry_get_def Let_def shm_entry_can_get_def xm_shm_empty_def
      ring_queue_def shm_entry_index_get_def)
qed

lemma mod_distinct: "i < j \<Longrightarrow> j < n \<Longrightarrow> (r + i) mod n \<noteq> (r + j) mod (n :: nat)"
proof
  assume a: "i < j" "j < n" "(r + i) mod n = (r + j) mod n"
  then have "n dvd (r + j) - (r + i)" by (metis mod_eq_dvd_iff_nat add_le_cancel_left less_imp_le)
  then show False using a(1,2) dvd_imp_le [of n "j - i"] by simp
qed

text \<open>Filling the slot of the writer does not touch the queue.\<close>

lemma ring_fill:
  assumes "ring_inv q" "length (ring_queue q) < ring_count q"
    "unat (slot q (write_index q)) \<le> unat a"
    "unat a + length bs \<le> unat (slot q (write_index q)) + ring_size q"
  shows "ring_inv (q\<lparr>ring_mem := mem_write (ring_mem q) a bs\<rparr>)"
    and "ring_queue (q\<lparr>ring_mem := mem_write (ring_mem q) a bs\<rparr>) = ring_queue q"
proof -
  show "ring_inv (q\<lparr>ring_mem := mem_write (ring_mem q) a bs\<rparr>)"
    using assms(1) by (simp add: ring_inv_def ring_count_def ring_size_def ring_start_def)
  let ?cur = "unat (shm_entries_count_cur (ring_hdr q))" and ?n = "ring_count q"
  have w: "write_index q = (read_index q + ?cur) mod ?n" "write_index q < ?n"
    using assms(1) by (simp_all add: ring_inv_def)
  have "mem_bytes (mem_write (ring_mem q) a bs) (slot q ((read_index q + i) mod ?n)) (ring_size q) =
      mem_bytes (ring_mem q) (slot q ((read_index q + i) mod ?n)) (ring_size q)" if "i < ?cur" for i
  proof (rule mem_bytes_write_apart)
    have "(read_index q + i) mod ?n \<noteq> write_index q"
      using mod_distinct [OF that, of ?n] w(1) assms(2) by (simp add: ring_queue_def)
    then have "apart (slot q ((read_index q + i) mod ?n)) (ring_size q) (slot q (write_index q)) (ring_size q)"
      using w(2) by (intro slots_apart [OF assms(1)]) simp_all
    then show "apart (slot q ((read_index q + i) mod ?n)) (ring_size q) a (length bs)"
      using assms(3,4) by (auto simp: apart_def)
  qed
  then show "ring_queue (q\<lparr>ring_mem := mem_write (ring_mem q) a bs\<rparr>) = ring_queue q"
    by (simp add: ring_queue_def slot_def ring_start_def ring_size_def ring_count_def)
qed

text \<open>Committing appends the slot of the writer, or removes the oldest block.\<close>

lemma ring_commit_write:
  assumes "ring_inv q" "length (ring_queue q) < ring_count q" "is_write si"
    "q' = q\<lparr>ring_hdr := snd (xm_shm_entry_commit si (ring_hdr q))\<rparr>"
  shows "ring_inv q'"
    and "ring_queue q' = ring_queue q @ [mem_bytes (ring_mem q) (slot q (write_index q)) (ring_size q)]"
    and "ring_count q' = ring_count q" and "ring_size q' = ring_size q" and "ring_start q' = ring_start q"
proof -
  let ?h = "ring_hdr q" and ?cur = "unat (shm_entries_count_cur (ring_hdr q))" and ?n = "ring_count q"
  show same: "ring_count q' = ring_count q" "ring_size q' = ring_size q" "ring_start q' = ring_start q"
    using assms(3,4) by (simp_all add: ring_count_def ring_size_def ring_start_def xm_shm_entry_commit_def
      xm_shm_entry_pos_update_def Let_def)
  have w: "write_index q = (read_index q + ?cur) mod ?n" "write_index q < ?n" "?n < 2 ^ 63" "?cur < ?n"
    using assms(1,2) by (simp_all add: ring_inv_def ring_queue_def)
  have "unat (shm_write_entry_pos ?h + 1) = Suc (write_index q)" "unat (shm_entries_count_cur ?h + 1) = Suc ?cur"
    using w(2-4) by (subst unat_add_small; simp)+
  then have new: "write_index q' = Suc (write_index q) mod ?n" "read_index q' = read_index q"
    "unat (shm_entries_count_cur (ring_hdr q')) = Suc ?cur"
    using assms(3,4) by (simp_all add: xm_shm_entry_commit_def xm_shm_entry_pos_update_def Let_def unat_mod ring_count_def)
  have "Suc (write_index q) mod ?n = (read_index q + Suc ?cur) mod ?n" using w(1) by (simp add: mod_Suc_eq)
  then show "ring_inv q'" using assms(1) same new w(4) unfolding ring_inv_def by simp
  show "ring_queue q' = ring_queue q @ [mem_bytes (ring_mem q) (slot q (write_index q)) (ring_size q)]"
    unfolding ring_queue_def new same slot_def by (simp add: assms(4) w(1) [symmetric])
qed

lemma ring_commit_read:
  assumes "ring_inv q" "ring_queue q \<noteq> []" "\<not> is_write si"
    "q' = q\<lparr>ring_hdr := snd (xm_shm_entry_commit si (ring_hdr q))\<rparr>"
  shows "ring_inv q'"
    and "ring_queue q = mem_bytes (ring_mem q) (slot q (read_index q)) (ring_size q) # ring_queue q'"
    and "ring_count q' = ring_count q" and "ring_size q' = ring_size q" and "ring_start q' = ring_start q"
proof -
  let ?h = "ring_hdr q" and ?n = "ring_count q"
  obtain k where k: "unat (shm_entries_count_cur ?h) = Suc k"
    using assms(2) by (cases "unat (shm_entries_count_cur ?h)") (auto simp: ring_queue_def)
  show same: "ring_count q' = ring_count q" "ring_size q' = ring_size q" "ring_start q' = ring_start q"
    using assms(3,4) by (simp_all add: ring_count_def ring_size_def ring_start_def xm_shm_entry_commit_def
      xm_shm_entry_pos_update_def Let_def)
  have r: "read_index q < ?n" "?n < 2 ^ 63" using assms(1) by (simp_all add: ring_inv_def)
  have "unat (shm_read_entry_pos ?h + 1) = Suc (read_index q)"
    using r by (subst unat_add_small; simp)
  moreover have "unat (shm_entries_count_cur ?h - 1) = k" using k by (subst unat_sub_small) simp_all
  ultimately have new: "read_index q' = Suc (read_index q) mod ?n" "write_index q' = write_index q"
    "unat (shm_entries_count_cur (ring_hdr q')) = k"
    using assms(3,4) by (simp_all add: xm_shm_entry_commit_def xm_shm_entry_pos_update_def Let_def unat_mod ring_count_def)
  have shift: "(read_index q + Suc i) mod ?n = (Suc (read_index q) mod ?n + i) mod ?n" for i
    by (simp add: mod_add_left_eq)
  then show "ring_inv q'" using assms(1) same new k r(1) shift [of k] unfolding ring_inv_def by simp
  have "[0..<Suc k] = 0 # map Suc [0..<k]" by (simp add: map_Suc_upt upt_conv_Cons del: upt_Suc)
  then show "ring_queue q = mem_bytes (ring_mem q) (slot q (read_index q)) (ring_size q) # ring_queue q'"
    unfolding ring_queue_def new same k slot_def using shift r(1) by (simp add: assms(4) comp_def del: upt_Suc)
qed

lemma interfaces_of [simp]:
  "is_write (writer_of q)" "\<not> is_write (reader_of q)"
  "shm_address_get (writer_of q) = memory_address_get (ring_base q)"
  "shm_address_get (reader_of q) = memory_address_get (ring_base q)"
  by (simp_all add: writer_of_def reader_of_def)

interpretation ring: bounded_queue ring_put ring_get ring_queue ring_inv "\<lambda>q bs. length bs = ring_size q" ring_count
proof
  fix q :: shm_ring and bs
  assume inv: "ring_inv q"
  show "length (ring_queue q) \<le> ring_count q" using inv by (simp add: ring_queue_def ring_inv_def)
  show "ring_put q bs = None" if "length (ring_queue q) = ring_count q"
    using entry_get_write(1) [OF inv, of "writer_of q" "ring_time q"] that by (auto simp: ring_put_def)
  show "ring_get q = None" if "ring_queue q = []"
    using entry_get_read(1) [OF inv, of "reader_of q" "ring_time q"] that by (auto simp: ring_get_def)
  show "\<exists>q'. ring_put q bs = Some q' \<and> ring_inv q' \<and> ring_queue q' = ring_queue q @ [bs] \<and>
      ring_count q' = ring_count q \<and> (\<lambda>bs. length bs = ring_size q') = (\<lambda>bs. length bs = ring_size q)"
    if len: "length bs = ring_size q" and room: "length (ring_queue q) < ring_count q"
  proof -
    let ?s = "slot q (write_index q)"
    obtain mh where get: "xm_shm_entry_get (ring_time q) (writer_of q) (ring_hdr q) =
        (Some \<lparr>entry_index = shm_write_entry_pos (ring_hdr q), entry_start = ?s, entry_pos = ?s,
          entry_end = ?s + shm_entry_size (ring_hdr q)\<rparr>, mh)" and mh: "ring_same (ring_hdr q) mh"
      using entry_get_write(2) [OF inv _ _ room, of "writer_of q"] by auto
    define q1 where "q1 = q\<lparr>ring_mem := mem_write (ring_mem q) ?s bs\<rparr>"
    define q2 where "q2 = q1\<lparr>ring_hdr := mh\<rparr>"
    have 1: "ring_inv q1" "ring_queue q1 = ring_queue q" "ring_count q1 = ring_count q" "ring_size q1 = ring_size q"
      "slot q1 i = slot q i" for i
      using ring_fill [OF inv room, of ?s bs] len
      by (simp_all add: q1_def ring_count_def ring_size_def slot_def ring_start_def)
    have 2: "ring_inv q2" "ring_queue q2 = ring_queue q" "ring_count q2 = ring_count q" "ring_size q2 = ring_size q"
      "slot q2 i = slot q i" "write_index q2 = write_index q" "ring_mem q2 = ring_mem q1" for i
      using ring_same_simps [of q1 mh] 1 mh by (simp_all add: q2_def ring_same_def) (simp_all add: q1_def)
    have "length bs \<le> 2 ^ 64"
      using slot_bound [OF inv, of "write_index q"] inv len by (simp add: ring_inv_def)
    then have "mem_bytes (ring_mem q2) ?s (ring_size q) = bs"
      using mem_bytes_write [of bs] len by (simp add: 2 q1_def)
    moreover have "ring_put q bs = Some (q2\<lparr>ring_hdr := snd (xm_shm_entry_commit (writer_of q) (ring_hdr q2))\<rparr>)"
      using get by (simp add: ring_put_def q2_def q1_def)
    ultimately show ?thesis using ring_commit_write [OF _ _ _ refl, of q2 "writer_of q"] 2 room by simp
  qed
  show "\<exists>q'. ring_get q = Some (x, q') \<and> ring_inv q' \<and> ring_queue q' = xs \<and>
      ring_count q' = ring_count q \<and> (\<lambda>bs. length bs = ring_size q') = (\<lambda>bs. length bs = ring_size q)"
    if abs: "ring_queue q = x # xs" for x xs
  proof -
    let ?s = "slot q (read_index q)"
    obtain mh where get: "xm_shm_entry_get (ring_time q) (reader_of q) (ring_hdr q) =
        (Some \<lparr>entry_index = shm_read_entry_pos (ring_hdr q), entry_start = ?s, entry_pos = ?s,
          entry_end = ?s + shm_entry_size (ring_hdr q)\<rparr>, mh)" and mh: "ring_same (ring_hdr q) mh"
      using entry_get_read(2) [OF inv, of "reader_of q"] abs by auto
    define q2 where "q2 = q\<lparr>ring_hdr := mh\<rparr>"
    have 2: "ring_inv q2" "ring_queue q2 = ring_queue q" "ring_count q2 = ring_count q" "ring_size q2 = ring_size q"
      "slot q2 i = slot q i" "read_index q2 = read_index q" "ring_mem q2 = ring_mem q" for i
      using ring_same_simps [OF mh] inv mh by (simp_all add: q2_def ring_same_def)
    have "ring_get q = Some (mem_bytes (ring_mem q) ?s (ring_size q),
        q2\<lparr>ring_hdr := snd (xm_shm_entry_commit (reader_of q) (ring_hdr q2))\<rparr>)"
      using get by (simp add: ring_get_def q2_def ring_size_def)
    then show ?thesis using ring_commit_read [OF _ _ _ refl, of q2 "reader_of q"] 2 abs by simp
  qed
qed

section \<open>Unsynchronised updates of the counter\<close>

text \<open>
  The two processes change \<open>shm_entries_count_cur\<close> by a load, an addition and a store.  A
  state holds the header and what each process has loaded; a commit is a load followed by a
  store of the same process.
\<close>

type_synonym race_state = "xm_shm_header \<times> u64 option \<times> u64 option"

definition commit_load :: "bool \<Rightarrow> xm_shm_header \<Rightarrow> xm_shm_header \<times> u64" where
  "commit_load w mh =
     (let count = shm_entries_count mh
      in (if w then mh\<lparr>shm_write_entry_pos := (shm_write_entry_pos mh + 1) mod count\<rparr>
          else mh\<lparr>shm_read_entry_pos := (shm_read_entry_pos mh + 1) mod count\<rparr>,
          shm_entries_count_cur mh))"

definition commit_store :: "bool \<Rightarrow> xm_shm_header \<Rightarrow> u64 \<Rightarrow> xm_shm_header" where
  "commit_store w mh v = mh\<lparr>shm_entries_count_cur := v + (if w then 1 else - 1)\<rparr>"

inductive count_step :: "race_state \<Rightarrow> race_state \<Rightarrow> bool" where
  writer_load: "\<not> xm_shm_full mh \<Longrightarrow> commit_load True mh = (mh', v) \<Longrightarrow>
    count_step (mh, None, r) (mh', Some v, r)"
| writer_store: "count_step (mh, Some v, r) (commit_store True mh v, None, r)"
| reader_load: "\<not> xm_shm_empty mh \<Longrightarrow> commit_load False mh = (mh', v) \<Longrightarrow>
    count_step (mh, w, None) (mh', w, Some v)"
| reader_store: "count_step (mh, w, Some v) (commit_store False mh v, w, None)"

inductive_cases count_step_idleE: "count_step (mh, None, None) st"

lemma commit_load_store:
  "commit_load (is_write si) mh = (mh', v) \<Longrightarrow>
   commit_store (is_write si) mh' v = snd (xm_shm_entry_commit si mh)"
  by (auto simp: commit_load_def commit_store_def xm_shm_entry_commit_def xm_shm_entry_pos_update_def Let_def
      split: if_splits)

text \<open>How many entries lie between the reader and the writer.\<close>

definition entries_between :: "xm_shm_header \<Rightarrow> nat" where
  "entries_between mh =
     (unat (shm_write_entry_pos mh) + unat (shm_entries_count mh) - unat (shm_read_entry_pos mh))
        mod unat (shm_entries_count mh)"

section \<open>Properties\<close>

text \<open>Property C26. The ring is a first-in first-out queue of blocks: whatever the order of puts and
  gets, the blocks that came out followed by those still in the ring are the blocks that were
  in it followed by the accepted ones, and the indexes stay consistent.\<close>

theorem ring_fifo:
  assumes "ring_inv q" "\<forall>bs. Put bs \<in> set ops \<longrightarrow> length bs = ring_size q"
    "queue_run ring_put ring_get q ops = (outs, ins, q')"
  shows "ring_inv q' \<and> outs @ ring_queue q' = ring_queue q @ ins"
  using ring.run_fifo [OF assms] .

text \<open>Setting up the ring in a block of memory gives an empty queue of as many entries
  as fit behind the header pages.\<close>

theorem shm_init_ring:
  assumes "xm_shm_init (memory_address_get base) h0 sz es pd pg True = (si, mh)"
    "unat (xm_align_up (sizeof_shm_header + pd) pg) + unat es \<le> unat sz" "0 < unat es"
    "unat sz < 2 ^ 63" "0 < unat base" "unat base + unat sz < 2 ^ 64"
  shows "ring_inv \<lparr>ring_base = base, ring_hdr = mh, ring_mem = m, ring_time = t\<rparr> \<and>
    ring_queue \<lparr>ring_base = base, ring_hdr = mh, ring_mem = m, ring_time = t\<rparr> = [] \<and>
    unat (shm_entries_count mh) = (unat sz - unat (xm_align_up (sizeof_shm_header + pd) pg)) div unat es"
proof -
  let ?h = "xm_align_up (sizeof_shm_header + pd) pg"
  let ?n = "(unat sz - unat ?h) div unat es"
  have c: "unat ((sz - ?h) div es) = ?n"
    using assms(2) by (simp add: unat_div unat_sub_small)
  have "?n * unat es \<le> unat sz - unat ?h" by simp
  then have b: "unat ?h + ?n * unat es \<le> unat sz" using assms(2) by linarith
  have "unat es \<le> unat sz - unat ?h" using assms(2) by simp
  then have "0 < ?n" using assms(3) by (simp add: div_greater_zero_iff)
  moreover have "?n < 2 ^ 63" using assms(4) by (intro le_less_trans [OF div_le_dividend]) simp
  ultimately show ?thesis
    using assms(1,5,6) b c
    by (auto simp: xm_shm_init_def shm_header_init_def shm_entries_count_get_def Let_def ring_inv_def
      ring_count_def ring_size_def ring_start_def ring_queue_def)
qed

definition demo_system :: shm_system where
  "demo_system = \<lparr>sys_page_size = 4096, sys_existed = (\<lambda>f. False), sys_open_write = (\<lambda>f. 3),
     sys_open_read = (\<lambda>f. 3), sys_fallocate = (\<lambda>fd n. True),
     sys_mmap = (\<lambda>fd n off. if off = 0 then 0x7000000 else MAP_FAILED),
     sys_shm_create = (\<lambda>k i n. Some 0x10000), sys_shm_open = (\<lambda>k i. None)\<rparr>"

definition demo_header :: xm_shm_header where
  "demo_header = shm_header_init \<lparr>page_size = 4096, shm_size = 0x10000, is_write = True,
     shm_address_get = memory_address_get 0x10000\<rparr> 4096 0"

lemma demo_header_fields:
  "shm_entries_start demo_header = 4096" "shm_entries_count demo_header = 15"
  "shm_entry_size demo_header = 4096" "shm_entries_count_cur demo_header = 0"
  "shm_write_entry_pos demo_header = 0" "shm_read_entry_pos demo_header = 0"
  by (simp_all add: demo_header_def shm_header_init_def shm_entries_count_get_def Let_def xm_align_up_def
    sizeof_shm_header_def)

theorem shm_init_ring_witness:
  "\<exists>si mh. xm_shm_memory_create demo_system demo_header ''k'' 1 0xF800 4000 0 True = Some (si, mh) \<and>
     ring_inv \<lparr>ring_base = 0x10000, ring_hdr = mh, ring_mem = (\<lambda>a. 0), ring_time = 0\<rparr> \<and>
     unat (shm_entries_count mh) = 15"
proof -
  obtain si mh where i: "xm_shm_init (memory_address_get 0x10000) demo_header 0x10000 4096 0 4096 True = (si, mh)"
    by (metis prod.exhaust)
  moreover have "xm_shm_memory_create demo_system demo_header ''k'' 1 0xF800 4000 0 True = Some (si, mh)"
    using i by (simp add: xm_shm_memory_create_def demo_system_def Let_def xm_align_up_def)
  moreover have "unat (xm_align_up (sizeof_shm_header + 0) 4096) = 4096"
    by (simp add: xm_align_up_def sizeof_shm_header_def)
  ultimately show ?thesis using shm_init_ring [OF i] by auto
qed

lemma demo_ring: "ring_inv \<lparr>ring_base = 0x10000, ring_hdr = demo_header, ring_mem = (\<lambda>a. 0), ring_time = 0\<rparr>"
  by (simp add: ring_inv_def ring_count_def ring_size_def ring_start_def demo_header_fields)

theorem ring_fifo_witness:
  "\<exists>outs ins q'. queue_run ring_put ring_get
      \<lparr>ring_base = 0x10000, ring_hdr = demo_header, ring_mem = (\<lambda>a. 0), ring_time = 0\<rparr>
      [Put (replicate 4096 7), Get, Get, Put (replicate 4096 9)] = (outs, ins, q') \<and>
    ring_inv q' \<and> outs @ ring_queue q' =
      ring_queue \<lparr>ring_base = 0x10000, ring_hdr = demo_header, ring_mem = (\<lambda>a. 0), ring_time = 0\<rparr> @ ins"
proof -
  let ?q = "\<lparr>ring_base = 0x10000, ring_hdr = demo_header, ring_mem = (\<lambda>a. 0), ring_time = 0\<rparr>"
  obtain outs ins q' where r: "queue_run ring_put ring_get ?q
      [Put (replicate 4096 7), Get, Get, Put (replicate 4096 9)] = (outs, ins, q')" by (metis prod_cases3)
  then show ?thesis
    using ring_fifo [OF demo_ring _ r] by (auto simp: ring_size_def demo_header_fields)
qed

text \<open>Without synchronisation the counter loses updates: with one entry in the ring, a
  writer and a reader that commit at the same time can leave an unread entry in a ring whose
  counter says that it is empty.\<close>

theorem count_update_race:
  "\<exists>mh mh'. shm_entries_count_cur mh = 1 \<and> entries_between mh = 1 \<and>
     count_step\<^sup>*\<^sup>* (mh, None, None) (mh', None, None) \<and>
     entries_between mh' = 1 \<and> xm_shm_empty mh'"
proof -
  define mh where "mh = demo_header\<lparr>shm_entries_count_cur := 1, shm_write_entry_pos := 1\<rparr>"
  define m1 where "m1 = mh\<lparr>shm_write_entry_pos := 2\<rparr>"
  define m2 where "m2 = m1\<lparr>shm_read_entry_pos := 1\<rparr>"
  note f = mh_def m1_def m2_def demo_header_fields
  have s1: "count_step (mh, None, None) (m1, Some 1, None)"
    by (rule count_step.writer_load) (simp_all add: f xm_shm_full_def commit_load_def Let_def)
  have s2: "count_step (m1, Some 1, None) (m2, Some 1, Some 1)"
    by (rule count_step.reader_load) (simp_all add: f xm_shm_empty_def commit_load_def Let_def)
  have s3: "count_step (m2, Some 1, Some 1) (commit_store True m2 1, None, Some 1)"
    by (rule count_step.writer_store)
  have s4: "count_step (commit_store True m2 1, None, Some 1)
      (commit_store False (commit_store True m2 1) 1, None, None)"
    by (rule count_step.reader_store)
  have "count_step\<^sup>*\<^sup>* (mh, None, None) (commit_store False (commit_store True m2 1) 1, None, None)"
    using s1 s2 s3 s4 by (meson rtranclp.rtrancl_refl rtranclp.rtrancl_into_rtrancl)
  moreover have "shm_entries_count_cur mh = 1" "entries_between mh = 1"
    "entries_between (commit_store False (commit_store True m2 1) 1) = 1"
    "xm_shm_empty (commit_store False (commit_store True m2 1) 1)"
    by (simp_all add: f entries_between_def commit_store_def xm_shm_empty_def)
  ultimately show ?thesis by blast
qed

text \<open>A failed mapping of an entry is not noticed: \<open>mmap\<close> then gives the address
  \<open>MAP_FAILED\<close>, only \<open>NULL\<close> is taken for an error, and the caller gets an entry at that
  address.\<close>

theorem mmap_entry_failure:
  assumes "shm_address_get si = mmap_address_get sys fd"
    "shm_entry_can_get si mh" "sys_mmap sys = (\<lambda>fd n off. MAP_FAILED)"
  shows "\<exists>e mh'. xm_shm_entry_get time si mh = (Some e, mh') \<and> entry_start e = MAP_FAILED"
proof -
  have "shm_entry_can_get si (mh\<lparr>shm_last_write_time := time\<rparr>)"
    "shm_entry_can_get si (mh\<lparr>shm_last_read_time := time\<rparr>)"
    using assms(2) by (auto simp: shm_entry_can_get_def xm_shm_full_def xm_shm_empty_def split: if_splits)
  then show ?thesis
    using assms(1,3)
    by (simp add: xm_shm_entry_get_def Let_def shm_entry_init_def mmap_address_get_def MAP_FAILED_def)
qed

theorem mmap_entry_failure_witness:
  "\<exists>e mh'. xm_shm_entry_get 5 \<lparr>page_size = 4096, shm_size = 0x10000, is_write = True,
      shm_address_get = mmap_address_get (demo_system\<lparr>sys_mmap := (\<lambda>fd n off. MAP_FAILED)\<rparr>) 3\<rparr> demo_header = (Some e, mh') \<and>
    entry_start e = MAP_FAILED"
proof (rule mmap_entry_failure)
  show "sys_mmap (demo_system\<lparr>sys_mmap := (\<lambda>fd n off. MAP_FAILED)\<rparr>) = (\<lambda>fd n off. MAP_FAILED)"
    by (simp add: demo_system_def)
qed (simp_all add: shm_entry_can_get_def xm_shm_full_def demo_header_fields)

end
