(* ===== verification/Binformat.thy ===== *)
theory Binformat
  imports Memory
begin

text \<open>
  The cursor of \<open>lib/shm/xm_bin_format.h\<close> over a block of memory: values are written and read
  big-endian, every operation checks that it stays before the end of the block.  Signed types
  are the words of their width; a float is its bit pattern.  The formats of the model exist,
  so the test for a null pointer has no counterpart.
\<close>

unbundle bit_operations_syntax

section \<open>The cursor\<close>

record xm_bin_format =
  bf_start :: u64
  bf_pos :: u64
  bf_end :: u64

definition xm_bf_content_size :: "xm_bin_format \<Rightarrow> u64" where
  "xm_bf_content_size bf = bf_pos bf - bf_start bf"

definition xm_bf_full :: "xm_bin_format \<Rightarrow> u64 \<Rightarrow> bool" where
  "xm_bf_full bf sz \<longleftrightarrow> bf_pos bf + sz > bf_end bf"

definition xm_bf_empty :: "xm_bin_format \<Rightarrow> bool" where
  "xm_bf_empty bf \<longleftrightarrow> bf_pos bf = bf_start bf"

definition xm_bf_pos_update :: "xm_bin_format \<Rightarrow> u64 \<Rightarrow> xm_bin_format" where
  "xm_bf_pos_update bf sz = bf\<lparr>bf_pos := bf_pos bf + sz\<rparr>"

definition xm_bf_init :: "u64 \<Rightarrow> u64 \<Rightarrow> xm_bin_format" where
  "xm_bf_init start end = \<lparr>bf_start = start, bf_pos = start, bf_end = end\<rparr>"

definition xm_bf_init_with_len :: "u64 \<Rightarrow> u64 \<Rightarrow> xm_bin_format" where
  "xm_bf_init_with_len start len = \<lparr>bf_start = start, bf_pos = start, bf_end = start + len\<rparr>"

definition xm_bf_reset :: "xm_bin_format \<Rightarrow> xm_bin_format" where
  "xm_bf_reset bf = bf\<lparr>bf_pos := bf_start bf\<rparr>"

definition xm_bf_skip :: "xm_bin_format \<Rightarrow> u64 \<Rightarrow> xm_bin_format" where
  "xm_bf_skip bf sz =
     (if xm_bf_full bf sz then bf\<lparr>bf_pos := bf_end bf\<rparr> else bf\<lparr>bf_pos := bf_pos bf + sz\<rparr>)"

section \<open>Writing\<close>

text \<open>\<open>DO_VALUE_WRITE\<close>: byte \<open>i\<close> of \<open>n\<close>, counted from 1, is the value shifted by \<open>8 * (n - i)\<close>.\<close>

definition do_value_write :: "nat \<Rightarrow> 'a::len word \<Rightarrow> u8 list" where
  "do_value_write byte_num v = map (\<lambda>i. ucast (drop_bit (byte_num * 8 - i * 8) v)) [1..<byte_num + 1]"

definition do_write :: "xm_bin_format \<Rightarrow> mem \<Rightarrow> u8 list \<Rightarrow> mem \<times> xm_bin_format" where
  "do_write bf m bytes =
     (mem_write m (bf_pos bf) bytes, xm_bf_pos_update bf (of_nat (length bytes)))"

text \<open>The common body: \<open>DO_CHECK\<close>, the bytes of the value, the write, the size as result.\<close>

type_synonym write_result = "int \<times> mem \<times> xm_bin_format"

definition bf_write :: "xm_bin_format \<Rightarrow> mem \<Rightarrow> u8 list \<Rightarrow> write_result" where
  "bf_write bf m bytes =
     (if xm_bf_full bf (of_nat (length bytes)) then (-1, m, bf)
      else let (m, bf) = do_write bf m bytes in (int (length bytes), m, bf))"

definition xm_bf_bool_write :: "xm_bin_format \<Rightarrow> mem \<Rightarrow> u32 \<Rightarrow> write_result" where
  "xm_bf_bool_write bf m v = bf_write bf m (do_value_write 1 v)"

definition xm_bf_short_write :: "xm_bin_format \<Rightarrow> mem \<Rightarrow> u16 \<Rightarrow> write_result" where
  "xm_bf_short_write bf m v = bf_write bf m (do_value_write 2 v)"

definition xm_bf_int_write :: "xm_bin_format \<Rightarrow> mem \<Rightarrow> u32 \<Rightarrow> write_result" where
  "xm_bf_int_write bf m v = bf_write bf m (do_value_write 4 v)"

definition xm_bf_long_write :: "xm_bin_format \<Rightarrow> mem \<Rightarrow> u64 \<Rightarrow> write_result" where
  "xm_bf_long_write bf m v = bf_write bf m (do_value_write 8 v)"

definition xm_bf_ushort_write :: "xm_bin_format \<Rightarrow> mem \<Rightarrow> u16 \<Rightarrow> write_result" where
  "xm_bf_ushort_write bf m v = bf_write bf m (do_value_write 2 v)"

definition xm_bf_uint_write :: "xm_bin_format \<Rightarrow> mem \<Rightarrow> u32 \<Rightarrow> write_result" where
  "xm_bf_uint_write bf m v = bf_write bf m (do_value_write 4 v)"

definition xm_bf_ulong_write :: "xm_bin_format \<Rightarrow> mem \<Rightarrow> u64 \<Rightarrow> write_result" where
  "xm_bf_ulong_write bf m v = bf_write bf m (do_value_write 8 v)"

definition xm_bf_size_write :: "xm_bin_format \<Rightarrow> mem \<Rightarrow> u64 \<Rightarrow> write_result" where
  "xm_bf_size_write bf m v = bf_write bf m (do_value_write 8 v)"

definition xm_bf_ssize_write :: "xm_bin_format \<Rightarrow> mem \<Rightarrow> u64 \<Rightarrow> write_result" where
  "xm_bf_ssize_write bf m v = bf_write bf m (do_value_write 8 v)"

definition xm_bf_off_write :: "xm_bin_format \<Rightarrow> mem \<Rightarrow> u64 \<Rightarrow> write_result" where
  "xm_bf_off_write bf m v = bf_write bf m (do_value_write 8 v)"

definition xm_bf_int8_write :: "xm_bin_format \<Rightarrow> mem \<Rightarrow> u8 \<Rightarrow> write_result" where
  "xm_bf_int8_write bf m v = bf_write bf m (do_value_write 1 v)"

definition xm_bf_int16_write :: "xm_bin_format \<Rightarrow> mem \<Rightarrow> u16 \<Rightarrow> write_result" where
  "xm_bf_int16_write bf m v = bf_write bf m (do_value_write 2 v)"

definition xm_bf_int32_write :: "xm_bin_format \<Rightarrow> mem \<Rightarrow> u32 \<Rightarrow> write_result" where
  "xm_bf_int32_write bf m v = bf_write bf m (do_value_write 4 v)"

definition xm_bf_int64_write :: "xm_bin_format \<Rightarrow> mem \<Rightarrow> u64 \<Rightarrow> write_result" where
  "xm_bf_int64_write bf m v = bf_write bf m (do_value_write 8 v)"

definition xm_bf_uint8_write :: "xm_bin_format \<Rightarrow> mem \<Rightarrow> u8 \<Rightarrow> write_result" where
  "xm_bf_uint8_write bf m v = bf_write bf m (do_value_write 1 v)"

definition xm_bf_uint16_write :: "xm_bin_format \<Rightarrow> mem \<Rightarrow> u16 \<Rightarrow> write_result" where
  "xm_bf_uint16_write bf m v = bf_write bf m (do_value_write 2 v)"

definition xm_bf_uint32_write :: "xm_bin_format \<Rightarrow> mem \<Rightarrow> u32 \<Rightarrow> write_result" where
  "xm_bf_uint32_write bf m v = bf_write bf m (do_value_write 4 v)"

definition xm_bf_uint64_write :: "xm_bin_format \<Rightarrow> mem \<Rightarrow> u64 \<Rightarrow> write_result" where
  "xm_bf_uint64_write bf m v = bf_write bf m (do_value_write 8 v)"

definition F_EXP_BIT_MASK :: u32 where "F_EXP_BIT_MASK = 2139095040"
definition F_SIGNIF_BIT_MASK :: u32 where "F_SIGNIF_BIT_MASK = 8388607"

definition float2_raw_int_bits :: "u32 \<Rightarrow> u32" where
  "float2_raw_int_bits v =
     (if v AND F_EXP_BIT_MASK = F_EXP_BIT_MASK \<and> v AND F_SIGNIF_BIT_MASK \<noteq> 0
      then 0x7fc00000 else v)"

definition D_EXP_BIT_MASK :: u64 where "D_EXP_BIT_MASK = 9218868437227405312"
definition D_SIGNIF_BIT_MASK :: u64 where "D_SIGNIF_BIT_MASK = 4503599627370495"

definition double2_raw_int_bits :: "u64 \<Rightarrow> u64" where
  "double2_raw_int_bits v =
     (if v AND D_EXP_BIT_MASK = D_EXP_BIT_MASK \<and> v AND D_SIGNIF_BIT_MASK \<noteq> 0
      then 0x7ff8000000000000 else v)"

definition xm_bf_float_write :: "xm_bin_format \<Rightarrow> mem \<Rightarrow> u32 \<Rightarrow> write_result" where
  "xm_bf_float_write bf m v = xm_bf_int_write bf m (float2_raw_int_bits v)"

definition xm_bf_double_write :: "xm_bin_format \<Rightarrow> mem \<Rightarrow> u64 \<Rightarrow> write_result" where
  "xm_bf_double_write bf m v = xm_bf_int64_write bf m (double2_raw_int_bits v)"

definition xm_bf_bytes_write :: "xm_bin_format \<Rightarrow> mem \<Rightarrow> u8 list \<Rightarrow> write_result" where
  "xm_bf_bytes_write bf m bytes =
     (let len = of_nat (length bytes); rlen = len + 8
      in if xm_bf_full bf rlen then (-1, m, bf)
         else let (rc, m, bf) = xm_bf_size_write bf m len;
                  (m, bf) = do_write bf m bytes
              in (sint rlen, m, bf))"

text \<open>A C string is its bytes up to the first NUL.\<close>

definition xm_bf_string_write :: "xm_bin_format \<Rightarrow> mem \<Rightarrow> u8 list \<Rightarrow> write_result" where
  "xm_bf_string_write bf m str =
     (let s = takeWhile (\<lambda>b. b \<noteq> 0) str; len = of_nat (length s); rlen = len + 8
      in if xm_bf_full bf rlen then (-1, m, bf)
         else let (rc, m, bf) = xm_bf_size_write bf m len;
                  (m, bf) = do_write bf m s
              in (sint rlen, m, bf))"

section \<open>Reading\<close>

text \<open>\<open>DO_VALUE_READ\<close> from byte \<open>i\<close> of \<open>n\<close> on, counted from 1.\<close>

fun do_value_read :: "nat \<Rightarrow> nat \<Rightarrow> u8 list \<Rightarrow> 'a::len word \<Rightarrow> 'a word" where
  "do_value_read byte_num i [] value = value"
| "do_value_read byte_num i (b # bs) value =
     do_value_read byte_num (i + 1) bs (value + push_bit (byte_num * 8 - i * 8) (ucast b))"

definition bf_read :: "nat \<Rightarrow> xm_bin_format \<Rightarrow> mem \<Rightarrow> 'a::len word \<times> xm_bin_format" where
  "bf_read sz bf m =
     (if xm_bf_full bf (of_nat sz) then (0, bf)
      else (do_value_read sz 1 (mem_bytes m (bf_pos bf) sz) 0, xm_bf_pos_update bf (of_nat sz)))"

definition xm_bf_bool_read :: "xm_bin_format \<Rightarrow> mem \<Rightarrow> u32 \<times> xm_bin_format" where
  "xm_bf_bool_read bf m = bf_read 1 bf m"

definition xm_bf_short_read :: "xm_bin_format \<Rightarrow> mem \<Rightarrow> u16 \<times> xm_bin_format" where
  "xm_bf_short_read bf m = bf_read 2 bf m"

definition xm_bf_int_read :: "xm_bin_format \<Rightarrow> mem \<Rightarrow> u32 \<times> xm_bin_format" where
  "xm_bf_int_read bf m = bf_read 4 bf m"

definition xm_bf_long_read :: "xm_bin_format \<Rightarrow> mem \<Rightarrow> u64 \<times> xm_bin_format" where
  "xm_bf_long_read bf m = bf_read 8 bf m"

definition xm_bf_float_read :: "xm_bin_format \<Rightarrow> mem \<Rightarrow> u32 \<times> xm_bin_format" where
  "xm_bf_float_read bf m = bf_read 4 bf m"

definition xm_bf_double_read :: "xm_bin_format \<Rightarrow> mem \<Rightarrow> u64 \<times> xm_bin_format" where
  "xm_bf_double_read bf m = bf_read 8 bf m"

definition xm_bf_ushort_read :: "xm_bin_format \<Rightarrow> mem \<Rightarrow> u16 \<times> xm_bin_format" where
  "xm_bf_ushort_read bf m = bf_read 2 bf m"

definition xm_bf_uint_read :: "xm_bin_format \<Rightarrow> mem \<Rightarrow> u32 \<times> xm_bin_format" where
  "xm_bf_uint_read bf m = bf_read 4 bf m"

definition xm_bf_ulong_read :: "xm_bin_format \<Rightarrow> mem \<Rightarrow> u64 \<times> xm_bin_format" where
  "xm_bf_ulong_read bf m = bf_read 8 bf m"

definition xm_bf_size_read :: "xm_bin_format \<Rightarrow> mem \<Rightarrow> u64 \<times> xm_bin_format" where
  "xm_bf_size_read bf m = bf_read 8 bf m"

definition xm_bf_ssize_read :: "xm_bin_format \<Rightarrow> mem \<Rightarrow> u64 \<times> xm_bin_format" where
  "xm_bf_ssize_read bf m = bf_read 8 bf m"

definition xm_bf_off_read :: "xm_bin_format \<Rightarrow> mem \<Rightarrow> u64 \<times> xm_bin_format" where
  "xm_bf_off_read bf m = bf_read 8 bf m"

definition xm_bf_int8_read :: "xm_bin_format \<Rightarrow> mem \<Rightarrow> u8 \<times> xm_bin_format" where
  "xm_bf_int8_read bf m = bf_read 1 bf m"

definition xm_bf_int16_read :: "xm_bin_format \<Rightarrow> mem \<Rightarrow> u16 \<times> xm_bin_format" where
  "xm_bf_int16_read bf m = bf_read 2 bf m"

definition xm_bf_int32_read :: "xm_bin_format \<Rightarrow> mem \<Rightarrow> u32 \<times> xm_bin_format" where
  "xm_bf_int32_read bf m = bf_read 4 bf m"

definition xm_bf_int64_read :: "xm_bin_format \<Rightarrow> mem \<Rightarrow> u64 \<times> xm_bin_format" where
  "xm_bf_int64_read bf m = bf_read 8 bf m"

definition xm_bf_uint8_read :: "xm_bin_format \<Rightarrow> mem \<Rightarrow> u8 \<times> xm_bin_format" where
  "xm_bf_uint8_read bf m = bf_read 1 bf m"

definition xm_bf_uint16_read :: "xm_bin_format \<Rightarrow> mem \<Rightarrow> u16 \<times> xm_bin_format" where
  "xm_bf_uint16_read bf m = bf_read 2 bf m"

definition xm_bf_uint32_read :: "xm_bin_format \<Rightarrow> mem \<Rightarrow> u32 \<times> xm_bin_format" where
  "xm_bf_uint32_read bf m = bf_read 4 bf m"

definition xm_bf_uint64_read :: "xm_bin_format \<Rightarrow> mem \<Rightarrow> u64 \<times> xm_bin_format" where
  "xm_bf_uint64_read bf m = bf_read 8 bf m"

text \<open>\<open>xm_bf_bytes_read\<close> gives the address of the data, \<open>None\<close> for \<open>NULL\<close>, and its length.\<close>

definition xm_bf_bytes_read :: "xm_bin_format \<Rightarrow> mem \<Rightarrow> (u64 option \<times> u64) \<times> xm_bin_format" where
  "xm_bf_bytes_read bf m =
     (if xm_bf_full bf 8 then ((None, 0), bf)
      else let (len, bf) = xm_bf_size_read bf m
           in ((Some (bf_pos bf), len), xm_bf_pos_update bf len))"

section \<open>Bytes of values\<close>

lemma length_value_write [simp]: "length (do_value_write n v) = n"
  by (simp add: do_value_write_def)

lemma value_write_rev: "do_value_write n v = rev (le_bytes n v)"
proof (rule nth_equalityI, simp)
  fix i assume "i < length (do_value_write n v)"
  then have "i < n" by simp
  then show "do_value_write n v ! i = rev (le_bytes n v) ! i"
    by (simp add: do_value_write_def rev_nth le_bytes_nth diff_mult_distrib mult.commute del: upt_Suc)
qed

lemma le_word_snoc: "le_word (bs @ [b]) = (le_word bs + push_bit (8 * length bs) (ucast b) :: 'a::len word)"
proof -
  have "le_word (bs @ [b]) = (le_word bs OR push_bit (8 * length bs) (ucast b) :: 'a word)"
  proof (rule bit_word_eqI)
    fix k assume k: "k < LENGTH('a)"
    show "bit (le_word (bs @ [b]) :: 'a word) k = bit (le_word bs OR push_bit (8 * length bs) (ucast b) :: 'a word) k"
    proof (cases "k < 8 * length bs")
      case True
      then show ?thesis using k by (auto simp: bit_le_word bit_simps nth_append less_mult_imp_div_less mult.commute)
    next
      case False
      then obtain j where j: "k = 8 * length bs + j" by (metis le_Suc_ex not_less)
      have "bit b j \<Longrightarrow> j < 8" using bit_imp_le_length [of b j] by simp
      then show ?thesis using k by (cases "j < 8") (auto simp: j bit_le_word bit_simps nth_append)
    qed
  qed
  also have "\<dots> = le_word bs + push_bit (8 * length bs) (ucast b)"
    by (rule disjunctive_add_eq_or [symmetric]) (auto intro!: bit_word_eqI simp: bit_simps bit_le_word)
  finally show ?thesis .
qed

lemma value_read_acc:
  "0 < i \<Longrightarrow> i + length bs = n + 1 \<Longrightarrow> do_value_read n i bs acc = acc + le_word (rev bs)"
proof (induction bs arbitrary: i acc)
  case (Cons b bs)
  then have "n * 8 - i * 8 = 8 * length (rev bs)" by (simp flip: diff_mult_distrib)
  then show ?case using Cons by (simp add: le_word_snoc algebra_simps)
qed simp

lemma value_read_write:
  "LENGTH('a::len) \<le> 8 * n \<Longrightarrow> do_value_read n 1 (do_value_write n (v :: 'a word)) 0 = v"
  by (subst value_read_acc) (simp_all add: value_write_rev le_word_le_bytes)

lemma value_read_bool: "v < 256 \<Longrightarrow> do_value_read 1 1 (do_value_write 1 (v :: u32)) 0 = v"
proof -
  assume "v < 256"
  then have "unat v < 256" by (simp add: word_less_nat_alt)
  then have "unat (ucast v :: u8) = unat v" by (intro unat_ucast_small) simp
  then have "unat (ucast (ucast v :: u8) :: u32) = unat v"
    using \<open>unat v < 256\<close> by (subst unat_ucast_small) simp_all
  then show ?thesis by (simp add: value_write_rev word_eqI_unat)
qed

section \<open>Room\<close>

lemma bf_room:
  "unat (bf_pos bf) + n \<le> unat (bf_end bf) \<Longrightarrow>
     \<not> xm_bf_full bf (of_nat n) \<and> unat (bf_pos bf + of_nat n) = unat (bf_pos bf) + n"
proof -
  assume a: "unat (bf_pos bf) + n \<le> unat (bf_end bf)"
  then have b: "unat (bf_pos bf) + n < 2 ^ 64" using unat_lt_u64 [of "bf_end bf"] by simp
  then have "unat (bf_pos bf + of_nat n) = unat (bf_pos bf) + n" by (subst unat_add_small) simp_all
  then show ?thesis using a by (simp add: xm_bf_full_def word_less_nat_alt)
qed

lemma bf_pos_update_simps [simp]:
  "bf_pos (xm_bf_pos_update bf n) = bf_pos bf + n" "bf_end (xm_bf_pos_update bf n) = bf_end bf"
  "bf_start (xm_bf_pos_update bf n) = bf_start bf"
  "xm_bf_pos_update (xm_bf_pos_update bf n) k = xm_bf_pos_update bf (n + k)"
  by (simp_all add: xm_bf_pos_update_def add.assoc)

lemma bf_write_room:
  "unat (bf_pos bf) + length bs \<le> unat (bf_end bf) \<Longrightarrow>
     bf_write bf m bs = (int (length bs), mem_write m (bf_pos bf) bs, xm_bf_pos_update bf (of_nat (length bs)))"
  using bf_room [of bf "length bs"] by (simp add: bf_write_def do_write_def)

lemma bf_read_room:
  "unat (bf_pos bf) + n \<le> unat (bf_end bf) \<Longrightarrow>
     bf_read n bf m = (do_value_read n 1 (mem_bytes m (bf_pos bf) n) 0, xm_bf_pos_update bf (of_nat n))"
  using bf_room [of bf n] by (simp add: bf_read_def)

section \<open>Sequences of values\<close>

fun write_seq :: "(xm_bin_format \<Rightarrow> mem \<Rightarrow> 'v \<Rightarrow> write_result) \<Rightarrow> xm_bin_format \<Rightarrow> mem \<Rightarrow> 'v list
    \<Rightarrow> mem \<times> xm_bin_format" where
  "write_seq wr bf m [] = (m, bf)"
| "write_seq wr bf m (v # vs) = (let (rc, m, bf) = wr bf m v in write_seq wr bf m vs)"

fun read_seq :: "('v \<Rightarrow> xm_bin_format \<Rightarrow> mem \<Rightarrow> 'v \<times> xm_bin_format) \<Rightarrow> 'v list \<Rightarrow> xm_bin_format \<Rightarrow> mem
    \<Rightarrow> 'v list \<times> xm_bin_format" where
  "read_seq rd [] bf m = ([], bf)"
| "read_seq rd (v # vs) bf m =
     (let (w, bf) = rd v bf m; (ws, bf) = read_seq rd vs bf m in (w # ws, bf))"

text \<open>The interface of a typed value: how its writer and its reader agree on its bytes.  The
  reader gets a value only for its type.\<close>

locale bf_codec =
  fixes wr :: "xm_bin_format \<Rightarrow> mem \<Rightarrow> 'v \<Rightarrow> write_result"
    and rd :: "'v \<Rightarrow> xm_bin_format \<Rightarrow> mem \<Rightarrow> 'v \<times> xm_bin_format"
    and enc :: "'v \<Rightarrow> u8 list" and ok :: "'v \<Rightarrow> bool"
  assumes wr_enc: "wr bf m v = bf_write bf m (enc v)"
    and rd_enc: "ok v \<Longrightarrow> unat (bf_pos bf) + length (enc v) \<le> unat (bf_end bf) \<Longrightarrow>
      mem_bytes m (bf_pos bf) (length (enc v)) = enc v \<Longrightarrow>
      rd v bf m = (v, xm_bf_pos_update bf (of_nat (length (enc v))))"
begin

lemma write_seq_enc:
  "unat (bf_pos bf) + length (concat (map enc vs)) \<le> unat (bf_end bf) \<Longrightarrow>
   write_seq wr bf m vs = (mem_write m (bf_pos bf) (concat (map enc vs)),
     xm_bf_pos_update bf (of_nat (length (concat (map enc vs)))))"
proof (induction vs arbitrary: bf m)
  case (Cons v vs)
  then have "unat (bf_pos bf + of_nat (length (enc v))) = unat (bf_pos bf) + length (enc v)"
    using bf_room [of bf "length (enc v)"] by simp
  then show ?case using Cons by (simp add: wr_enc bf_write_room mem_write_append del: length_concat)
qed (simp add: xm_bf_pos_update_def)

lemma read_seq_enc:
  "unat (bf_pos bf) + length (concat (map enc vs)) \<le> unat (bf_end bf) \<Longrightarrow> \<forall>v \<in> set vs. ok v \<Longrightarrow>
   mem_bytes m (bf_pos bf) (length (concat (map enc vs))) = concat (map enc vs) \<Longrightarrow>
   read_seq rd vs bf m = (vs, xm_bf_pos_update bf (of_nat (length (concat (map enc vs)))))"
proof (induction vs arbitrary: bf)
  case (Cons v vs)
  have u: "unat (bf_pos bf + of_nat (length (enc v))) = unat (bf_pos bf) + length (enc v)"
    using bf_room [of bf "length (enc v)"] Cons.prems(1) by simp
  have "mem_bytes m (bf_pos bf) (length (enc v) + length (concat (map enc vs))) = enc v @ concat (map enc vs)"
    using Cons.prems(3) by (simp del: length_concat)
  note pre = mem_bytes_prefix [OF this]
  have "rd v bf m = (v, xm_bf_pos_update bf (of_nat (length (enc v))))"
    using Cons.prems pre by (intro rd_enc) (simp_all del: length_concat)
  moreover have "read_seq rd vs (xm_bf_pos_update bf (of_nat (length (enc v)))) m =
      (vs, xm_bf_pos_update (xm_bf_pos_update bf (of_nat (length (enc v)))) (of_nat (length (concat (map enc vs)))))"
    using Cons.prems u pre by (intro Cons.IH) (simp_all del: length_concat)
  ultimately show ?case by (simp del: length_concat)
qed (simp add: xm_bf_pos_update_def)

lemma seq_roundtrip:
  assumes "unat (bf_pos bf) + length (concat (map enc vs)) \<le> unat (bf_end bf)" "\<forall>v \<in> set vs. ok v"
  shows "read_seq rd vs bf (fst (write_seq wr bf m vs)) = (vs, snd (write_seq wr bf m vs))"
proof -
  have "length (concat (map enc vs)) \<le> 2 ^ 64" using assms(1) unat_lt_u64 [of "bf_end bf"] by simp
  then show ?thesis
    using read_seq_enc [OF assms, of "mem_write m (bf_pos bf) (concat (map enc vs))"]
    by (simp add: write_seq_enc [OF assms(1)] mem_bytes_write del: length_concat)
qed

end

section \<open>All types of values\<close>

datatype bf_value =
    VBool u32 | VShort u16 | VInt u32 | VLong u64 | VUshort u16 | VUint u32 | VUlong u64
  | VSize u64 | VSsize u64 | VOff u64 | VInt8 u8 | VInt16 u16 | VInt32 u32 | VInt64 u64
  | VUint8 u8 | VUint16 u16 | VUint32 u32 | VUint64 u64 | VFloat u32 | VDouble u64

fun write_value :: "xm_bin_format \<Rightarrow> mem \<Rightarrow> bf_value \<Rightarrow> write_result" where
  "write_value bf m (VBool v) = xm_bf_bool_write bf m v"
| "write_value bf m (VShort v) = xm_bf_short_write bf m v"
| "write_value bf m (VInt v) = xm_bf_int_write bf m v"
| "write_value bf m (VLong v) = xm_bf_long_write bf m v"
| "write_value bf m (VUshort v) = xm_bf_ushort_write bf m v"
| "write_value bf m (VUint v) = xm_bf_uint_write bf m v"
| "write_value bf m (VUlong v) = xm_bf_ulong_write bf m v"
| "write_value bf m (VSize v) = xm_bf_size_write bf m v"
| "write_value bf m (VSsize v) = xm_bf_ssize_write bf m v"
| "write_value bf m (VOff v) = xm_bf_off_write bf m v"
| "write_value bf m (VInt8 v) = xm_bf_int8_write bf m v"
| "write_value bf m (VInt16 v) = xm_bf_int16_write bf m v"
| "write_value bf m (VInt32 v) = xm_bf_int32_write bf m v"
| "write_value bf m (VInt64 v) = xm_bf_int64_write bf m v"
| "write_value bf m (VUint8 v) = xm_bf_uint8_write bf m v"
| "write_value bf m (VUint16 v) = xm_bf_uint16_write bf m v"
| "write_value bf m (VUint32 v) = xm_bf_uint32_write bf m v"
| "write_value bf m (VUint64 v) = xm_bf_uint64_write bf m v"
| "write_value bf m (VFloat v) = xm_bf_float_write bf m v"
| "write_value bf m (VDouble v) = xm_bf_double_write bf m v"

text \<open>Reading a value of the type of the first argument.\<close>

fun read_value :: "bf_value \<Rightarrow> xm_bin_format \<Rightarrow> mem \<Rightarrow> bf_value \<times> xm_bin_format" where
  "read_value (VBool _) bf m = apfst VBool (xm_bf_bool_read bf m)"
| "read_value (VShort _) bf m = apfst VShort (xm_bf_short_read bf m)"
| "read_value (VInt _) bf m = apfst VInt (xm_bf_int_read bf m)"
| "read_value (VLong _) bf m = apfst VLong (xm_bf_long_read bf m)"
| "read_value (VUshort _) bf m = apfst VUshort (xm_bf_ushort_read bf m)"
| "read_value (VUint _) bf m = apfst VUint (xm_bf_uint_read bf m)"
| "read_value (VUlong _) bf m = apfst VUlong (xm_bf_ulong_read bf m)"
| "read_value (VSize _) bf m = apfst VSize (xm_bf_size_read bf m)"
| "read_value (VSsize _) bf m = apfst VSsize (xm_bf_ssize_read bf m)"
| "read_value (VOff _) bf m = apfst VOff (xm_bf_off_read bf m)"
| "read_value (VInt8 _) bf m = apfst VInt8 (xm_bf_int8_read bf m)"
| "read_value (VInt16 _) bf m = apfst VInt16 (xm_bf_int16_read bf m)"
| "read_value (VInt32 _) bf m = apfst VInt32 (xm_bf_int32_read bf m)"
| "read_value (VInt64 _) bf m = apfst VInt64 (xm_bf_int64_read bf m)"
| "read_value (VUint8 _) bf m = apfst VUint8 (xm_bf_uint8_read bf m)"
| "read_value (VUint16 _) bf m = apfst VUint16 (xm_bf_uint16_read bf m)"
| "read_value (VUint32 _) bf m = apfst VUint32 (xm_bf_uint32_read bf m)"
| "read_value (VUint64 _) bf m = apfst VUint64 (xm_bf_uint64_read bf m)"
| "read_value (VFloat _) bf m = apfst VFloat (xm_bf_float_read bf m)"
| "read_value (VDouble _) bf m = apfst VDouble (xm_bf_double_read bf m)"

text \<open>The bytes of a value, and the values that survive: a bool is stored in one byte, a NaN as
  the canonical one.\<close>

fun value_bytes :: "bf_value \<Rightarrow> u8 list" where
  "value_bytes (VBool v) = do_value_write 1 v"
| "value_bytes (VShort v) = do_value_write 2 v"
| "value_bytes (VInt v) = do_value_write 4 v"
| "value_bytes (VLong v) = do_value_write 8 v"
| "value_bytes (VUshort v) = do_value_write 2 v"
| "value_bytes (VUint v) = do_value_write 4 v"
| "value_bytes (VUlong v) = do_value_write 8 v"
| "value_bytes (VSize v) = do_value_write 8 v"
| "value_bytes (VSsize v) = do_value_write 8 v"
| "value_bytes (VOff v) = do_value_write 8 v"
| "value_bytes (VInt8 v) = do_value_write 1 v"
| "value_bytes (VInt16 v) = do_value_write 2 v"
| "value_bytes (VInt32 v) = do_value_write 4 v"
| "value_bytes (VInt64 v) = do_value_write 8 v"
| "value_bytes (VUint8 v) = do_value_write 1 v"
| "value_bytes (VUint16 v) = do_value_write 2 v"
| "value_bytes (VUint32 v) = do_value_write 4 v"
| "value_bytes (VUint64 v) = do_value_write 8 v"
| "value_bytes (VFloat v) = do_value_write 4 (float2_raw_int_bits v)"
| "value_bytes (VDouble v) = do_value_write 8 (double2_raw_int_bits v)"

fun value_ok :: "bf_value \<Rightarrow> bool" where
  "value_ok (VBool v) \<longleftrightarrow> v < 256"
| "value_ok (VFloat v) \<longleftrightarrow> float2_raw_int_bits v = v"
| "value_ok (VDouble v) \<longleftrightarrow> double2_raw_int_bits v = v"
| "value_ok _ \<longleftrightarrow> True"

lemmas bf_write_defs =
  xm_bf_bool_write_def xm_bf_short_write_def xm_bf_int_write_def xm_bf_long_write_def
  xm_bf_ushort_write_def xm_bf_uint_write_def xm_bf_ulong_write_def xm_bf_size_write_def
  xm_bf_ssize_write_def xm_bf_off_write_def xm_bf_int8_write_def xm_bf_int16_write_def
  xm_bf_int32_write_def xm_bf_int64_write_def xm_bf_uint8_write_def xm_bf_uint16_write_def
  xm_bf_uint32_write_def xm_bf_uint64_write_def xm_bf_float_write_def xm_bf_double_write_def

lemmas bf_read_defs =
  xm_bf_bool_read_def xm_bf_short_read_def xm_bf_int_read_def xm_bf_long_read_def
  xm_bf_ushort_read_def xm_bf_uint_read_def xm_bf_ulong_read_def xm_bf_size_read_def
  xm_bf_ssize_read_def xm_bf_off_read_def xm_bf_int8_read_def xm_bf_int16_read_def
  xm_bf_int32_read_def xm_bf_int64_read_def xm_bf_uint8_read_def xm_bf_uint16_read_def
  xm_bf_uint32_read_def xm_bf_uint64_read_def xm_bf_float_read_def xm_bf_double_read_def

interpretation bf: bf_codec write_value read_value value_bytes value_ok
proof
  show "write_value bf m v = bf_write bf m (value_bytes v)" for bf m v
    by (cases v) (simp_all add: bf_write_defs)
  show "read_value v bf m = (v, xm_bf_pos_update bf (of_nat (length (value_bytes v))))"
    if "value_ok v" "unat (bf_pos bf) + length (value_bytes v) \<le> unat (bf_end bf)"
      "mem_bytes m (bf_pos bf) (length (value_bytes v)) = value_bytes v" for v bf m
    using that by (cases v) (simp_all add: bf_read_defs bf_read_room value_read_write value_read_bool
      del: do_value_read.simps mem_bytes.simps One_nat_def)
qed

section \<open>Properties\<close>

text \<open>Property C31. Values of all types, written one after another into a block with room for them
  and read back with the same types, come back unchanged, both cursors end at the same place,
  and no byte outside the written part of the block has changed.\<close>

theorem bin_format_roundtrip:
  assumes "unat (bf_pos bf) + length (concat (map value_bytes vs)) \<le> unat (bf_end bf)"
    "\<forall>v \<in> set vs. value_ok v"
  shows "read_seq read_value vs bf (fst (write_seq write_value bf m vs)) =
      (vs, snd (write_seq write_value bf m vs)) \<and>
    unat (bf_pos (snd (write_seq write_value bf m vs))) =
      unat (bf_pos bf) + length (concat (map value_bytes vs)) \<and>
    (length (concat (map value_bytes vs)) \<le> unat (a - bf_pos bf) \<longrightarrow>
      fst (write_seq write_value bf m vs) a = m a)"
  using bf.seq_roundtrip [OF assms, of m] bf.write_seq_enc [OF assms(1), of m] bf_room [OF assms(1)]
    mem_write_at [of "concat (map value_bytes vs)"] assms(1) unat_lt_u64 [of "bf_end bf"]
  by (simp del: length_concat)

theorem bin_format_roundtrip_witness:
  "read_seq read_value [VUint8 7, VShort 0xFFFE, VDouble 0x3FF0000000000000]
      (xm_bf_init 4096 4107) (fst (write_seq write_value (xm_bf_init 4096 4107) (\<lambda>a. 0)
        [VUint8 7, VShort 0xFFFE, VDouble 0x3FF0000000000000])) =
    ([VUint8 7, VShort 0xFFFE, VDouble 0x3FF0000000000000],
     snd (write_seq write_value (xm_bf_init 4096 4107) (\<lambda>a. 0)
        [VUint8 7, VShort 0xFFFE, VDouble 0x3FF0000000000000]))"
  using bin_format_roundtrip [of "xm_bf_init 4096 4107" "[VUint8 7, VShort 0xFFFE, VDouble 0x3FF0000000000000]" "\<lambda>a. 0"]
  by (simp add: xm_bf_init_def double2_raw_int_bits_def D_EXP_BIT_MASK_def D_SIGNIF_BIT_MASK_def
      del: write_seq.simps read_seq.simps)

text \<open>Without room for a value nothing happens: writing returns -1 and changes
  neither memory nor cursor, reading gives a value of zero bytes.\<close>

theorem bin_format_full:
  assumes "xm_bf_full bf (of_nat (length (value_bytes v)))"
  shows "write_value bf m v = (-1, m, bf) \<and> snd (read_value v bf m) = bf \<and>
    set (value_bytes (fst (read_value v bf m))) = {0}"
proof -
  have zero: "set (do_value_write n (0 :: 'a::len word)) = {0}" if "0 < n" for n
    using that by (auto simp: do_value_write_def image_iff simp del: upt_Suc)
  show ?thesis
    using assms
    by (cases v) (simp_all add: bf_write_defs bf_read_defs bf_write_def bf_read_def zero
      float2_raw_int_bits_def double2_raw_int_bits_def F_EXP_BIT_MASK_def D_EXP_BIT_MASK_def)
qed

theorem bin_format_full_witness:
  "write_value (xm_bf_init 8 11) (\<lambda>a. 0) (VInt 5) = (-1, \<lambda>a. 0, xm_bf_init 8 11) \<and>
   snd (read_value (VInt 5) (xm_bf_init 8 11) (\<lambda>a. 0)) = xm_bf_init 8 11 \<and>
   set (value_bytes (fst (read_value (VInt 5) (xm_bf_init 8 11) (\<lambda>a. 0)))) = {0}"
  by (rule bin_format_full) (simp add: xm_bf_full_def xm_bf_init_def)

text \<open>Byte strings with room for them.\<close>

lemma bytes_write_room:
  assumes "unat (bf_pos bf) + 8 + length bs \<le> unat (bf_end bf)" "length bs < 2 ^ 62"
  shows "xm_bf_bytes_write bf m bs = (int (length bs) + 8,
      mem_write m (bf_pos bf) (do_value_write 8 (of_nat (length bs) :: u64) @ bs),
      xm_bf_pos_update bf (8 + of_nat (length bs)))"
proof -
  let ?len = "of_nat (length bs) :: u64"
  have room: "\<not> xm_bf_full bf (?len + 8)"
    using bf_room [of bf "length bs + 8"] assms(1) by (simp add: add.commute)
  have "unat (?len + 8) = length bs + 8" using assms(2) by (subst unat_add_small) simp_all
  then have "sint (?len + 8) = int (length bs) + 8" using assms(2) by (simp add: sint_small)
  then show ?thesis
    using room assms(1)
    by (simp add: xm_bf_bytes_write_def Let_def xm_bf_size_write_def bf_write_room do_write_def mem_write_append)
qed

lemma bytes_read_room:
  assumes "unat (bf_pos bf) + 8 \<le> unat (bf_end bf)" "mem_bytes m (bf_pos bf) 8 = do_value_write 8 len"
  shows "xm_bf_bytes_read bf m = ((Some (bf_pos bf + 8), len), xm_bf_pos_update bf (8 + len))"
  using bf_room [of bf 8] assms
  by (simp add: xm_bf_bytes_read_def xm_bf_size_read_def bf_read_room value_read_write
    del: do_value_read.simps mem_bytes.simps One_nat_def)

text \<open>A byte string is written with its length and read back as the address of its
  copy in the block.\<close>

theorem bin_format_bytes:
  assumes "unat (bf_pos bf) + 8 + length bs \<le> unat (bf_end bf)" "length bs < 2 ^ 62"
  shows "\<exists>m' bf'. xm_bf_bytes_write bf m bs = (int (length bs) + 8, m', bf') \<and>
    xm_bf_bytes_read bf m' = ((Some (bf_pos bf + 8), of_nat (length bs)), bf') \<and>
    mem_bytes m' (bf_pos bf + 8) (length bs) = bs"
proof -
  let ?bs = "do_value_write 8 (of_nat (length bs) :: u64) @ bs"
  have "length ?bs \<le> 2 ^ 64" using assms(2) by simp
  note pre = mem_bytes_prefix [OF mem_bytes_write [OF this, of m "bf_pos bf"]]
  then show ?thesis using bytes_write_room [OF assms] bytes_read_room [of bf] assms(1) by simp
qed

theorem bin_format_bytes_witness:
  "\<exists>m' bf'. xm_bf_bytes_write (xm_bf_init 64 80) (\<lambda>a. 0) [1, 2, 3] = (int (length [1, 2, 3 :: u8]) + 8, m', bf') \<and>
    xm_bf_bytes_read (xm_bf_init 64 80) m' =
      ((Some (bf_pos (xm_bf_init 64 80) + 8), of_nat (length [1, 2, 3 :: u8])), bf') \<and>
    mem_bytes m' (bf_pos (xm_bf_init 64 80) + 8) (length [1, 2, 3 :: u8]) = [1, 2, 3]"
  by (rule bin_format_bytes) (simp_all add: xm_bf_init_def)

text \<open>Reading a byte string does not check its length field: a field that says more
  than the block holds moves the cursor past the end and hands out the bytes behind it.\<close>

theorem bytes_read_unchecked:
  assumes "unat (bf_pos bf) + 8 \<le> unat (bf_end bf)"
    "mem_bytes m (bf_pos bf) 8 = do_value_write 8 len"
    "unat (bf_end bf) < unat (bf_pos bf) + 8 + unat len" "unat (bf_pos bf) + 8 + unat len < 2 ^ 64"
  shows "\<exists>bf'. xm_bf_bytes_read bf m = ((Some (bf_pos bf + 8), len), bf') \<and> bf_end bf' < bf_pos bf'"
proof -
  have "unat (bf_pos bf + 8) = unat (bf_pos bf) + 8" using bf_room [of bf 8] assms(1) by simp
  then have "unat (bf_pos bf + (8 + len)) = unat (bf_pos bf) + 8 + unat len"
    using assms(4) by (subst add.assoc [symmetric], subst unat_add_small) simp_all
  then show ?thesis
    using bytes_read_room [OF assms(1,2)] assms(3) by (simp add: word_less_nat_alt)
qed

theorem bytes_read_unchecked_witness:
  "\<exists>bf'. xm_bf_bytes_read (xm_bf_init 16 32) (mem_write (\<lambda>a. 0) 16 (do_value_write 8 (0x1000 :: u64))) =
     ((Some (bf_pos (xm_bf_init 16 32) + 8), 0x1000), bf') \<and> bf_end bf' < bf_pos bf'"
  using mem_bytes_write [of "do_value_write 8 (0x1000 :: u64)" "\<lambda>a. 0" 16]
  by (intro bytes_read_unchecked) (simp_all add: xm_bf_init_def)

end
