(* ===== verification/Shmformat.thy ===== *)
theory Shmformat
  imports Shm Binformat
begin

text \<open>
  Records in the entries of the ring: \<open>lib/shm/xm_shm_format.[ch]\<close> with the records of
  \<open>xm_shm_entry_record.[ch]\<close>, its only kind of record.  A writer collects records in the entry
  it holds and commits it, with a header of counts, when the next record does not fit or the
  block is flushed; a reader walks the records of a committed entry.
\<close>

section \<open>State\<close>

definition FIMAGIC :: u32 where "FIMAGIC = 0xFFFA"
definition EIMAGIC :: u32 where "EIMAGIC = 0xFFFB"
definition MAJOR_VERSION :: u32 where "MAJOR_VERSION = 1"
definition MINJOR_VERSION :: u32 where "MINJOR_VERSION = 0"
definition XM_SHM_ENTRY_HEADER_LEN :: u64 where "XM_SHM_ENTRY_HEADER_LEN = 20"
definition XM_SHM_ENTRY_RECORD_HEADER_SIZE :: u64 where "XM_SHM_ENTRY_RECORD_HEADER_SIZE = 21"

record xm_shm_entry_header =
  shm_entry :: xm_shm_entry
  bfmt :: xm_bin_format
  h_magic :: u32
  h_major_version :: u32
  h_minor_version :: u32
  entries_number :: u32
  entries_size :: u32

text \<open>The data of a record is the list of its bytes; \<open>data_len\<close> is the length of the list.\<close>

record xm_shm_record =
  r_magic :: u32
  r_record_size :: u32
  r_data_offset :: u32
  r_data :: "u8 list"

record xm_shm_entry_record = xm_shm_record +
  r_type :: u8

text \<open>The iterator of a reader: whether it has a block, and how many records it has read.\<close>

record xm_shm_format =
  cur_header :: xm_shm_entry_header
  fmt_shm_int :: xm_shm_interface
  has_header :: bool
  fmt_entry_size :: u32
  record_header_size :: u32
  iter_header :: bool
  entries_count :: u32

text \<open>The shared block: its header, its memory and the clock.\<close>

record shm_world =
  w_hdr :: xm_shm_header
  w_mem :: mem
  w_time :: u64

section \<open>Writing\<close>

definition shm_entry_record_write :: "xm_bin_format \<Rightarrow> mem \<Rightarrow> xm_shm_entry_record \<Rightarrow> mem \<times> xm_bin_format" where
  "shm_entry_record_write bf m rcd = snd (xm_bf_uint8_write bf m (r_type rcd))"

definition xm_shm_record_len :: "xm_shm_format \<Rightarrow> xm_shm_entry_record \<Rightarrow> u32" where
  "xm_shm_record_len fmt rcd = ucast ((of_nat (length (r_data rcd)) :: u64) + ucast (record_header_size fmt))"

definition xm_shm_format_create :: "xm_shm_interface \<Rightarrow> u32 \<Rightarrow> u32 \<Rightarrow> xm_shm_format" where
  "xm_shm_format_create shm_int entry_sz record_header_sz =
     \<lparr>cur_header = \<lparr>shm_entry = \<lparr>entry_index = 0, entry_start = 0, entry_pos = 0, entry_end = 0\<rparr>,
        bfmt = \<lparr>bf_start = 0, bf_pos = 0, bf_end = 0\<rparr>, h_magic = 0, h_major_version = 0,
        h_minor_version = 0, entries_number = 0, entries_size = 0\<rparr>,
      fmt_shm_int = shm_int, has_header = False, fmt_entry_size = entry_sz,
      record_header_size = record_header_sz, iter_header = False, entries_count = 0\<rparr>"

definition is_record_size_over :: "xm_shm_format \<Rightarrow> xm_shm_entry_record \<Rightarrow> bool" where
  "is_record_size_over fmt rcd =
     (let rem_entry_size = fmt_entry_size fmt - ucast XM_SHM_ENTRY_HEADER_LEN
      in r_record_size rcd > rem_entry_size)"

definition is_need_create_entry_header :: "xm_shm_format \<Rightarrow> xm_shm_entry_record \<Rightarrow> bool" where
  "is_need_create_entry_header fmt rcd =
     (if \<not> has_header fmt then True
      else if xm_bf_full (bfmt (cur_header fmt)) (ucast (r_record_size rcd)) then True
      else False)"

definition shm_entry_header_commit :: "xm_shm_format \<Rightarrow> shm_world \<Rightarrow> xm_shm_format \<times> shm_world" where
  "shm_entry_header_commit fmt w =
     (let h = cur_header fmt;
          bf = xm_bf_reset (bfmt h);
          (rc, m, bf) = xm_bf_uint32_write bf (w_mem w) (h_magic h);
          (rc, m, bf) = xm_bf_uint32_write bf m (h_major_version h);
          (rc, m, bf) = xm_bf_uint32_write bf m (h_minor_version h);
          (rc, m, bf) = xm_bf_uint32_write bf m (entries_number h);
          (rc, m, bf) = xm_bf_uint32_write bf m (entries_size h);
          (e, mh) = xm_shm_entry_commit (fmt_shm_int fmt) (w_hdr w)
      in (fmt\<lparr>cur_header := h\<lparr>bfmt := bf, shm_entry := e\<rparr>\<rparr>, w\<lparr>w_mem := m, w_hdr := mh\<rparr>))"

definition shm_entry_header_init :: "xm_shm_entry_header \<Rightarrow> xm_shm_entry_header" where
  "shm_entry_header_init h =
     (let bf = xm_bf_init (entry_start (shm_entry h)) (entry_end (shm_entry h))
      in h\<lparr>h_magic := FIMAGIC, h_major_version := MAJOR_VERSION, h_minor_version := MINJOR_VERSION,
           entries_size := 0, entries_number := 0, bfmt := xm_bf_skip bf XM_SHM_ENTRY_HEADER_LEN\<rparr>)"

text \<open>The result tells whether there is an entry now (0 in the code, \<open>False\<close> for -1).\<close>

definition shm_entry_header_create :: "xm_shm_format \<Rightarrow> shm_world \<Rightarrow> bool \<times> xm_shm_format \<times> shm_world" where
  "shm_entry_header_create fmt w =
     (let (fmt, w) = (if has_header fmt
            then (let (fmt, w) = shm_entry_header_commit fmt w in (fmt\<lparr>has_header := False\<rparr>, w))
            else (fmt, w))
      in case xm_shm_entry_get (w_time w) (fmt_shm_int fmt) (w_hdr w) of
           (None, mh) \<Rightarrow> (False, fmt, w\<lparr>w_hdr := mh\<rparr>)
         | (Some e, mh) \<Rightarrow>
             (True, fmt\<lparr>has_header := True,
                cur_header := shm_entry_header_init ((cur_header fmt)\<lparr>shm_entry := e\<rparr>)\<rparr>,
              w\<lparr>w_hdr := mh\<rparr>))"

definition shm_record_write :: "xm_shm_format \<Rightarrow> shm_world \<Rightarrow> xm_shm_entry_record \<Rightarrow> xm_shm_format \<times> shm_world" where
  "shm_record_write fmt w rcd =
     (let h = cur_header fmt;
          bsize = (ucast (xm_bf_content_size (bfmt h)) :: u32);
          (rc, m, bf) = xm_bf_uint32_write (bfmt h) (w_mem w) EIMAGIC;
          (rc, m, bf) = xm_bf_uint32_write bf m (xm_shm_record_len fmt rcd);
          (m, bf) = shm_entry_record_write bf m rcd;
          (rc, m, bf) = xm_bf_uint32_write bf m (r_data_offset rcd);
          (rc, m, bf) = xm_bf_bytes_write bf m (r_data rcd);
          asize = (ucast (xm_bf_content_size bf) :: u32)
      in (fmt\<lparr>cur_header := h\<lparr>bfmt := bf, entries_number := entries_number h + 1,
             entries_size := entries_size h + (asize - bsize)\<rparr>\<rparr>,
          w\<lparr>w_mem := m\<rparr>))"

text \<open>The results of putting a record: stored (0), no entry free (-1), too large (-2).\<close>

datatype put_result = PutOk | PutFull | PutTooLarge

definition xm_shm_format_put ::
  "xm_shm_format \<Rightarrow> shm_world \<Rightarrow> xm_shm_entry_record \<Rightarrow> put_result \<times> xm_shm_format \<times> shm_world" where
  "xm_shm_format_put fmt w rcd =
     (if is_record_size_over fmt rcd then (PutTooLarge, fmt, w)
      else
        let (ok, fmt, w) = (if is_need_create_entry_header fmt rcd
              then shm_entry_header_create fmt w else (True, fmt, w))
        in if \<not> ok then (PutFull, fmt, w) else (PutOk, shm_record_write fmt w rcd))"

definition can_been_flush :: "xm_shm_format \<Rightarrow> bool" where
  "can_been_flush fmt =
     (if \<not> has_header fmt then False
      else if xm_bf_empty (bfmt (cur_header fmt)) then False else True)"

definition xm_shm_format_flush :: "xm_shm_format \<Rightarrow> shm_world \<Rightarrow> xm_shm_format \<times> shm_world" where
  "xm_shm_format_flush fmt w =
     (if can_been_flush fmt
      then (let (ok, fmt, w) = shm_entry_header_create fmt w
            in (if ok then fmt else fmt\<lparr>has_header := False\<rparr>, w))
      else (fmt, w))"

text \<open>\<open>xm_shm_entry_record_put\<close>: it waits and tries again while the ring is full, so its result is
  \<open>None\<close> when the reader never makes room; \<open>env\<close> is what the reader does to the shared block
  while the writer sleeps.\<close>

definition entry_record_of :: "u8 \<Rightarrow> u8 list \<Rightarrow> xm_shm_entry_record" where
  "entry_record_of type data =
     \<lparr>r_magic = EIMAGIC, r_record_size = ucast (XM_SHM_ENTRY_RECORD_HEADER_SIZE + of_nat (length data)),
      r_data_offset = 0, r_data = data, r_type = type\<rparr>"

partial_function (option) put_loop ::
  "(shm_world \<Rightarrow> shm_world) \<Rightarrow> xm_shm_format \<Rightarrow> shm_world \<Rightarrow> xm_shm_entry_record
   \<Rightarrow> (put_result \<times> xm_shm_format \<times> shm_world) option" where
  "put_loop reader fmt w rcd =
     (let (rc, fmt', w') = xm_shm_format_put fmt w rcd
      in if rc = PutFull then put_loop reader fmt' (reader w') rcd else Some (rc, fmt', w'))"

definition xm_shm_entry_record_put ::
  "(shm_world \<Rightarrow> shm_world) \<Rightarrow> xm_shm_format \<Rightarrow> shm_world \<Rightarrow> u8 \<Rightarrow> u8 list
   \<Rightarrow> (put_result \<times> xm_shm_format \<times> shm_world) option" where
  "xm_shm_entry_record_put reader fmt w type data = put_loop reader fmt w (entry_record_of type data)"

section \<open>Reading\<close>

text \<open>The result is \<open>False\<close> for a wrong magic number (-1).\<close>

definition shm_entry_header_read ::
  "xm_shm_entry_header \<Rightarrow> xm_bin_format \<Rightarrow> mem \<Rightarrow> bool \<times> xm_shm_entry_header \<times> xm_bin_format" where
  "shm_entry_header_read h bf m =
     (let (magic, bf) = xm_bf_uint32_read bf m; h = h\<lparr>h_magic := magic\<rparr>
      in if magic \<noteq> FIMAGIC then (False, h, bf)
         else
           let (major, bf) = xm_bf_uint32_read bf m;
               (minor, bf) = xm_bf_uint32_read bf m;
               (number, bf) = xm_bf_uint32_read bf m;
               (sz, bf) = xm_bf_uint32_read bf m
           in (True, h\<lparr>h_major_version := major, h_minor_version := minor,
                 entries_number := number, entries_size := sz\<rparr>, bf))"

definition shm_entry_record_read :: "xm_bin_format \<Rightarrow> mem \<Rightarrow> u8 \<times> xm_bin_format" where
  "shm_entry_record_read bf m = xm_bf_uint8_read bf m"

definition has_next :: "xm_shm_format \<Rightarrow> bool" where
  "has_next fmt =
     (if \<not> iter_header fmt then False
      else if entries_count fmt \<ge> entries_number (cur_header fmt) then False else True)"

text \<open>The record that is read: its fields, with the address and the length of its data.\<close>

record read_record =
  rr_record_size :: u32
  rr_type :: u8
  rr_data_offset :: u32
  rr_data :: "u64 option"
  rr_data_len :: u64

definition record_read :: "xm_shm_format \<Rightarrow> mem \<Rightarrow> read_record option \<times> xm_shm_format" where
  "record_read fmt m =
     (let h = cur_header fmt; (magic, bf) = xm_bf_uint32_read (bfmt h) m
      in if magic \<noteq> EIMAGIC
         then (None, fmt\<lparr>cur_header := h\<lparr>bfmt := bf\<rparr>, iter_header := False\<rparr>)
         else
           let (record_size, bf) = xm_bf_uint32_read bf m;
               (type, bf) = shm_entry_record_read bf m;
               (data_offset, bf) = xm_bf_uint32_read bf m;
               ((data, len), bf) = xm_bf_bytes_read bf m
           in (Some \<lparr>rr_record_size = record_size, rr_type = type, rr_data_offset = data_offset,
                 rr_data = data, rr_data_len = len\<rparr>,
               fmt\<lparr>cur_header := h\<lparr>bfmt := bf\<rparr>\<rparr>))"

definition record_next :: "xm_shm_format \<Rightarrow> mem \<Rightarrow> read_record option \<times> xm_shm_format" where
  "record_next fmt m =
     (if \<not> has_next fmt then (None, fmt)
      else case record_read fmt m of
             (Some rcd, fmt) \<Rightarrow> (Some rcd, fmt\<lparr>entries_count := entries_count fmt + 1\<rparr>)
           | (None, fmt) \<Rightarrow> (None, fmt))"

text \<open>\<open>xm_shm_entry_iterator_prefare\<close>: the result is \<open>False\<close> for \<open>NULL\<close>.\<close>

definition xm_shm_entry_iterator_prefare :: "xm_shm_format \<Rightarrow> shm_world \<Rightarrow> bool \<times> xm_shm_format \<times> shm_world" where
  "xm_shm_entry_iterator_prefare fmt w =
     (let fmt = fmt\<lparr>iter_header := False, entries_count := 0\<rparr>
      in case xm_shm_entry_get (w_time w) (fmt_shm_int fmt) (w_hdr w) of
           (None, mh) \<Rightarrow> (False, fmt, w\<lparr>w_hdr := mh\<rparr>)
         | (Some e, mh) \<Rightarrow>
             let bf = xm_bf_init (entry_start e) (entry_end e);
                 (ok, h, bf) = shm_entry_header_read ((cur_header fmt)\<lparr>shm_entry := e\<rparr>) bf (w_mem w)
             in (ok, fmt\<lparr>cur_header := h\<lparr>bfmt := bf\<rparr>, iter_header := ok\<rparr>, w\<lparr>w_hdr := mh\<rparr>))"

definition xm_shm_entry_iterator_commit :: "xm_shm_format \<Rightarrow> shm_world \<Rightarrow> xm_shm_format \<times> shm_world" where
  "xm_shm_entry_iterator_commit fmt w =
     (if iter_header fmt
      then (let (e, mh) = xm_shm_entry_commit (fmt_shm_int fmt) (w_hdr w)
            in (fmt\<lparr>cur_header := (cur_header fmt)\<lparr>shm_entry := e\<rparr>, iter_header := False, entries_count := 0\<rparr>,
                w\<lparr>w_hdr := mh\<rparr>))
      else (fmt, w))"

section \<open>The bytes of records and blocks\<close>

definition rcd_values :: "xm_shm_entry_record \<Rightarrow> bf_value list" where
  "rcd_values r = [VUint32 EIMAGIC, VUint32 (of_nat (length (r_data r) + 21)), VUint8 (r_type r),
     VUint32 (r_data_offset r)]"

definition rcd_bytes :: "xm_shm_entry_record \<Rightarrow> u8 list" where
  "rcd_bytes r = concat (map value_bytes (rcd_values r)) @
     do_value_write 8 (of_nat (length (r_data r)) :: u64) @ r_data r"

definition header_values :: "xm_shm_entry_record list \<Rightarrow> bf_value list" where
  "header_values rs = [VUint32 FIMAGIC, VUint32 MAJOR_VERSION, VUint32 MINJOR_VERSION,
     VUint32 (of_nat (length rs)), VUint32 (of_nat (length (concat (map rcd_bytes rs))))]"

definition header_bytes :: "xm_shm_entry_record list \<Rightarrow> u8 list" where
  "header_bytes rs = concat (map value_bytes (header_values rs))"

text \<open>A committed block of records: the header, the records, anything up to the end.\<close>

definition block_ok :: "xm_shm_entry_record list \<Rightarrow> u8 list \<Rightarrow> bool" where
  "block_ok rs blk \<longleftrightarrow> (\<exists>pad. blk = header_bytes rs @ concat (map rcd_bytes rs) @ pad)"

lemma length_rcd_bytes [simp]: "length (rcd_bytes r) = 21 + length (r_data r)"
  by (simp add: rcd_bytes_def rcd_values_def)

lemma length_header_bytes [simp]: "length (header_bytes rs) = 20"
  by (simp add: header_bytes_def header_values_def)

text \<open>Writing fixed values one after another is one write of their bytes.\<close>

lemma write_seq_values:
  "write_seq write_value bf m (v # vs) =
     write_seq write_value (snd (snd (write_value bf m v))) (fst (snd (write_value bf m v))) vs"
  by (simp add: case_prod_beta)

lemma ucast_of_nat_down: "LENGTH('b::len) \<le> LENGTH('a::len) \<Longrightarrow> (ucast (of_nat n :: 'a word) :: 'b word) = of_nat n"
  by (rule bit_word_eqI) (simp add: bit_simps)

lemma shm_record_write_room:
  assumes "unat (bf_pos (bfmt (cur_header fmt))) + length (rcd_bytes r) \<le> unat (bf_end (bfmt (cur_header fmt)))"
    "length (r_data r) < 2 ^ 62" "record_header_size fmt = 21"
  shows "shm_record_write fmt w r =
    (let h = cur_header fmt; bf = xm_bf_pos_update (bfmt h) (of_nat (length (rcd_bytes r)))
     in (fmt\<lparr>cur_header := h\<lparr>bfmt := bf, entries_number := entries_number h + 1,
          entries_size := entries_size h + (ucast (xm_bf_content_size bf) - ucast (xm_bf_content_size (bfmt h)))\<rparr>\<rparr>,
         w\<lparr>w_mem := mem_write (w_mem w) (bf_pos (bfmt h)) (rcd_bytes r)\<rparr>))"
proof -
  let ?bf = "bfmt (cur_header fmt)"
  have len: "xm_shm_record_len fmt r = of_nat (length (r_data r) + 21)"
    using ucast_of_nat_down [of "length (r_data r) + 21", where 'a = 64 and 'b = 32] assms(3)
    by (simp add: xm_shm_record_len_def)
  have 4: "unat (bf_pos ?bf) + length (concat (map value_bytes (rcd_values r))) \<le> unat (bf_end ?bf)"
    using assms(1) by (simp add: rcd_values_def)
  have seq: "write_seq write_value ?bf (w_mem w) (rcd_values r) =
      (mem_write (w_mem w) (bf_pos ?bf) (concat (map value_bytes (rcd_values r))), xm_bf_pos_update ?bf 13)"
    using bf.write_seq_enc [OF 4, of "w_mem w"] by (simp add: rcd_values_def)
  have "unat (bf_pos ?bf + 13) = unat (bf_pos ?bf) + 13"
    using bf_room [of ?bf 13] assms(1) by simp
  then have bytes: "xm_bf_bytes_write (xm_bf_pos_update ?bf 13) m (r_data r) = (int (length (r_data r)) + 8,
      mem_write m (bf_pos ?bf + 13) (do_value_write 8 (of_nat (length (r_data r)) :: u64) @ r_data r),
      xm_bf_pos_update ?bf (21 + of_nat (length (r_data r))))" for m
    using bytes_write_room [of "xm_bf_pos_update ?bf 13" "r_data r" m] assms(1,2) by (simp add: add.assoc [symmetric])
  have all: "mem_write (mem_write (w_mem w) (bf_pos ?bf) (concat (map value_bytes (rcd_values r)))) (bf_pos ?bf + 13)
      (do_value_write 8 (of_nat (length (r_data r)) :: u64) @ r_data r) =
      mem_write (w_mem w) (bf_pos ?bf) (rcd_bytes r)"
    unfolding rcd_bytes_def mem_write_append [of "w_mem w" "bf_pos ?bf" "concat (map value_bytes (rcd_values r))"]
    by (simp add: rcd_values_def)
  show ?thesis
    using seq unfolding rcd_values_def
    by (simp add: shm_record_write_def Let_def case_prod_beta len shm_entry_record_write_def bytes
      all [unfolded rcd_values_def, simplified])
qed

section \<open>The writer's entry\<close>

definition ring_of :: "u64 \<Rightarrow> shm_world \<Rightarrow> shm_ring" where
  "ring_of base w = \<lparr>ring_base = base, ring_hdr = w_hdr w, ring_mem = w_mem w, ring_time = w_time w\<rparr>"

lemma ring_of_simps [simp]:
  "ring_base (ring_of base w) = base" "ring_hdr (ring_of base w) = w_hdr w"
  "ring_mem (ring_of base w) = w_mem w" "ring_time (ring_of base w) = w_time w"
  "ring_of base (w\<lparr>w_hdr := mh\<rparr>) = (ring_of base w)\<lparr>ring_hdr := mh\<rparr>"
  "ring_of base (w\<lparr>w_mem := m\<rparr>) = (ring_of base w)\<lparr>ring_mem := m\<rparr>"
  by (simp_all add: ring_of_def)

lemma ring_mem_simps [simp]:
  "ring_count (q\<lparr>ring_mem := m\<rparr>) = ring_count q" "ring_size (q\<lparr>ring_mem := m\<rparr>) = ring_size q"
  "slot (q\<lparr>ring_mem := m\<rparr>) i = slot q i" "ring_start (q\<lparr>ring_mem := m\<rparr>) = ring_start q"
  by (simp_all add: ring_count_def ring_size_def slot_def ring_start_def)

text \<open>The slot the writer holds, and its cursor behind the records \<open>rs\<close>.\<close>

definition wslot :: "u64 \<Rightarrow> shm_world \<Rightarrow> u64" where
  "wslot base w = slot (ring_of base w) (write_index (ring_of base w))"

definition cur_ok :: "u64 \<Rightarrow> xm_shm_format \<Rightarrow> shm_world \<Rightarrow> xm_shm_entry_record list \<Rightarrow> bool" where
  "cur_ok base fmt w rs \<longleftrightarrow>
     (let q = ring_of base w; h = cur_header fmt; s = wslot base w; len = length (concat (map rcd_bytes rs))
      in length (ring_queue q) < ring_count q \<and>
         bfmt h = \<lparr>bf_start = s, bf_pos = s + of_nat (20 + len), bf_end = s + shm_entry_size (w_hdr w)\<rparr> \<and>
         20 + len \<le> ring_size q \<and>
         mem_bytes (w_mem w) (s + 20) len = concat (map rcd_bytes rs) \<and>
         h_magic h = FIMAGIC \<and> h_major_version h = MAJOR_VERSION \<and> h_minor_version h = MINJOR_VERSION \<and>
         entries_number h = of_nat (length rs) \<and> entries_size h = of_nat len)"

definition fmt_ok :: "u64 \<Rightarrow> xm_shm_format \<Rightarrow> shm_world \<Rightarrow> bool" where
  "fmt_ok base fmt w \<longleftrightarrow> ring_inv (ring_of base w) \<and> is_write (fmt_shm_int fmt) \<and>
     shm_address_get (fmt_shm_int fmt) = memory_address_get base \<and> record_header_size fmt = 21 \<and>
     20 \<le> unat (fmt_entry_size fmt) \<and> unat (fmt_entry_size fmt) \<le> ring_size (ring_of base w) \<and>
     ring_size (ring_of base w) < 2 ^ 32 \<and>
     ring_start (ring_of base w) + ring_count (ring_of base w) * ring_size (ring_of base w) < 2 ^ 63"

lemma wslot_add:
  assumes "ring_inv (ring_of base w)" "k \<le> ring_size (ring_of base w)"
  shows "unat (wslot base w + of_nat k) = unat (wslot base w) + k"
    and "unat (wslot base w) + ring_size (ring_of base w) < 2 ^ 64"
proof -
  let ?q = "ring_of base w"
  have "write_index ?q < ring_count ?q" using assms(1) by (simp add: ring_inv_def)
  note b = slot_bound [OF assms(1) this]
  then show lt: "unat (wslot base w) + ring_size ?q < 2 ^ 64" by (simp add: wslot_def)
  then show "unat (wslot base w + of_nat k) = unat (wslot base w) + k"
    using assms(2) by (subst unat_add_small) simp_all
qed

lemma wslot_end:
  assumes "ring_inv (ring_of base w)"
  shows "unat (wslot base w + shm_entry_size (w_hdr w)) = unat (wslot base w) + ring_size (ring_of base w)"
  using wslot_add(1) [OF assms, of "ring_size (ring_of base w)"] by (simp add: ring_size_def)

text \<open>Committing the entry publishes a block with the records.\<close>

lemma header_commit:
  assumes "fmt_ok base fmt w" "cur_ok base fmt w rs" "shm_entry_header_commit fmt w = (fmt', w')"
  shows "\<exists>blk. ring_queue (ring_of base w') = ring_queue (ring_of base w) @ [blk] \<and> block_ok rs blk"
    and "fmt_ok base fmt' w'" and "ring_count (ring_of base w') = ring_count (ring_of base w)"
    and "ring_size (ring_of base w') = ring_size (ring_of base w)" and "fmt_entry_size fmt' = fmt_entry_size fmt"
    and "w_time w' = w_time w"
proof -
  let ?q = "ring_of base w" and ?h = "cur_header fmt" and ?s = "wslot base w"
  let ?c = "concat (map rcd_bytes rs)"
  define bf0 where "bf0 = xm_bf_reset (bfmt ?h)"
  have inv: "ring_inv ?q" "is_write (fmt_shm_int fmt)" using assms(1) by (simp_all add: fmt_ok_def)
  have cur: "length (ring_queue ?q) < ring_count ?q" "20 + length ?c \<le> ring_size ?q"
    "mem_bytes (w_mem w) (?s + 20) (length ?c) = ?c"
    using assms(2) by (simp_all add: cur_ok_def Let_def)
  have bf0: "bf_pos bf0 = ?s" "bf_end bf0 = ?s + shm_entry_size (w_hdr w)"
    using assms(2) by (simp_all add: cur_ok_def Let_def bf0_def xm_bf_reset_def)
  have hf: "h_magic ?h = FIMAGIC" "h_major_version ?h = MAJOR_VERSION" "h_minor_version ?h = MINJOR_VERSION"
    "entries_number ?h = of_nat (length rs)" "entries_size ?h = of_nat (length ?c)"
    using assms(2) by (simp_all add: cur_ok_def Let_def)
  have room: "unat (bf_pos bf0) + length (concat (map value_bytes (header_values rs))) \<le> unat (bf_end bf0)"
    using wslot_end [OF inv(1)] cur(2) length_header_bytes [of rs] by (simp add: bf0 flip: header_bytes_def)
  note seq = bf.write_seq_enc [OF room, of "w_mem w", folded header_bytes_def, unfolded bf0]
  define m1 where "m1 = mem_write (w_mem w) ?s (header_bytes rs)"
  define q1 where "q1 = ?q\<lparr>ring_mem := m1\<rparr>"
  have "w' = w\<lparr>w_mem := m1, w_hdr := snd (xm_shm_entry_commit (fmt_shm_int fmt) (w_hdr w))\<rparr> \<and>
      (\<exists>h'. fmt' = fmt\<lparr>cur_header := h'\<rparr>)"
    using assms(3) seq
    by (auto simp: shm_entry_header_commit_def Let_def case_prod_beta header_values_def m1_def hf
      simp flip: bf0_def)
  then obtain h' where w': "w' = w\<lparr>w_mem := m1, w_hdr := snd (xm_shm_entry_commit (fmt_shm_int fmt) (w_hdr w))\<rparr>"
    and fmt': "fmt' = fmt\<lparr>cur_header := h'\<rparr>" by blast
  have q1: "ring_inv q1" "ring_queue q1 = ring_queue ?q"
    using ring_fill [OF inv(1) cur(1), of ?s "header_bytes rs"] cur(2)
    by (simp_all add: q1_def m1_def wslot_def)
  have q': "ring_of base w' = q1\<lparr>ring_hdr := snd (xm_shm_entry_commit (fmt_shm_int fmt) (ring_hdr q1))\<rparr>"
    by (simp add: w' q1_def ring_of_def)
  note com = ring_commit_write [OF q1(1) _ inv(2) q']
  have room1: "length (ring_queue q1) < ring_count q1" using cur(1) q1(2) by (simp add: q1_def)
  show "ring_count (ring_of base w') = ring_count ?q" "ring_size (ring_of base w') = ring_size ?q"
    using com(3,4) [OF room1] by (simp_all add: q1_def)
  moreover have "ring_start (ring_of base w') = ring_start ?q"
    using com(5) [OF room1] by (simp add: q1_def)
  ultimately show "fmt_ok base fmt' w'" using assms(1) com(1) [OF room1] by (simp add: fmt_ok_def fmt')
  show "fmt_entry_size fmt' = fmt_entry_size fmt" "w_time w' = w_time w" by (simp_all add: fmt' w')
  have size: "ring_size ?q = 20 + (length ?c + (ring_size ?q - 20 - length ?c))" using cur(2) by simp
  have h: "mem_bytes m1 ?s 20 = header_bytes rs"
    using mem_bytes_write [of "header_bytes rs" "w_mem w" ?s] by (simp add: m1_def)
  have "apart (?s + 20) (length ?c) ?s (length (header_bytes rs))"
    using wslot_add [OF inv(1), of 20] cur(2) by (simp add: apart_def)
  then have c: "mem_bytes m1 (?s + 20) (length ?c) = ?c"
    unfolding m1_def using cur(3) by (simp add: mem_bytes_write_apart)
  have "mem_bytes m1 ?s (20 + (length ?c + k)) = header_bytes rs @ ?c @ mem_bytes m1 (?s + 20 + of_nat (length ?c)) k" for k
    using h c by (simp add: mem_bytes_append del: length_concat)
  then have "block_ok rs (mem_bytes m1 ?s (ring_size ?q))" unfolding block_ok_def by (metis size)
  then show "\<exists>blk. ring_queue (ring_of base w') = ring_queue ?q @ [blk] \<and> block_ok rs blk"
    using com(2) [OF room1] q1(2) by (simp add: q1_def wslot_def)
qed

text \<open>Getting a new entry.\<close>

lemma header_get:
  assumes "fmt_ok base fmt w" "\<not> has_header fmt" "shm_entry_header_create fmt w = (ok, fmt', w')"
  shows "fmt_ok base fmt' w'" and "ring_queue (ring_of base w') = ring_queue (ring_of base w)"
    and "ring_count (ring_of base w') = ring_count (ring_of base w)"
    and "if length (ring_queue (ring_of base w)) < ring_count (ring_of base w)
         then ok \<and> has_header fmt' \<and> cur_ok base fmt' w' [] else \<not> ok \<and> \<not> has_header fmt'"
proof -
  let ?q = "ring_of base w"
  have f: "ring_inv ?q" "is_write (fmt_shm_int fmt)" "shm_address_get (fmt_shm_int fmt) = memory_address_get base"
    "20 \<le> ring_size ?q"
    using assms(1) by (simp_all add: fmt_ok_def)
  note get = entry_get_write [OF f(1,2), of "w_time w"]
  have le: "length (ring_queue ?q) \<le> ring_count ?q" by (rule ring.abs_cap [OF f(1)])
  have "fmt_ok base fmt' w' \<and> ring_queue (ring_of base w') = ring_queue ?q \<and>
      ring_count (ring_of base w') = ring_count ?q \<and>
      (if length (ring_queue ?q) < ring_count ?q
       then ok \<and> has_header fmt' \<and> cur_ok base fmt' w' [] else \<not> ok \<and> \<not> has_header fmt')"
  proof (cases "length (ring_queue ?q) < ring_count ?q")
    case True
    let ?s = "wslot base w"
    obtain mh where e: "xm_shm_entry_get (w_time w) (fmt_shm_int fmt) (w_hdr w) =
        (Some \<lparr>entry_index = shm_write_entry_pos (w_hdr w), entry_start = ?s, entry_pos = ?s,
          entry_end = ?s + shm_entry_size (w_hdr w)\<rparr>, mh)" and mh: "ring_same (w_hdr w) mh"
      using get(2) f(3) True by (auto simp: wslot_def)
    have same: "shm_write_entry_pos mh = shm_write_entry_pos (w_hdr w)" "shm_entry_size mh = shm_entry_size (w_hdr w)"
      using mh by (simp_all add: ring_same_def)
    have "\<not> xm_bf_full (xm_bf_init ?s (?s + shm_entry_size (w_hdr w))) 20"
      using bf_room [of "xm_bf_init ?s (?s + shm_entry_size (w_hdr w))" 20] wslot_end [OF f(1)] f(4)
      by (simp add: xm_bf_init_def)
    then show ?thesis
      using assms True e same ring_same_simps [of ?q mh] mh
      by (auto simp: shm_entry_header_create_def shm_entry_header_init_def Let_def fmt_ok_def cur_ok_def
        wslot_def xm_bf_skip_def XM_SHM_ENTRY_HEADER_LEN_def xm_bf_init_def)
  next
    case False
    then obtain mh where e: "xm_shm_entry_get (w_time w) (fmt_shm_int fmt) (w_hdr w) = (None, mh)"
      and mh: "ring_same (w_hdr w) mh"
      using get(1) f(3) le by auto
    then show ?thesis
      using assms False ring_same_simps [of ?q mh]
      by (auto simp: shm_entry_header_create_def Let_def fmt_ok_def)
  qed
  then show "fmt_ok base fmt' w'" "ring_queue (ring_of base w') = ring_queue ?q"
    "ring_count (ring_of base w') = ring_count ?q"
    "if length (ring_queue ?q) < ring_count ?q
     then ok \<and> has_header fmt' \<and> cur_ok base fmt' w' [] else \<not> ok \<and> \<not> has_header fmt'" by blast+
qed

text \<open>Creating an entry commits the one that is held, if any.\<close>

definition cur_list :: "xm_shm_entry_record list option \<Rightarrow> xm_shm_entry_record list" where
  "cur_list cur = (case cur of None \<Rightarrow> [] | Some rs \<Rightarrow> rs)"

lemma cur_list_simps [simp]: "cur_list None = []" "cur_list (Some rs) = rs"
  by (simp_all add: cur_list_def)

text \<open>
  The abstract view of the writer: the record lists of the blocks in the ring, and the records
  of the entry it holds.
\<close>

definition writer_rel :: "u64 \<Rightarrow> xm_shm_format \<Rightarrow> shm_world \<Rightarrow> xm_shm_entry_record list list
    \<Rightarrow> xm_shm_entry_record list option \<Rightarrow> bool" where
  "writer_rel base fmt w bs cur \<longleftrightarrow> fmt_ok base fmt w \<and>
     list_all2 block_ok bs (ring_queue (ring_of base w)) \<and>
     (case cur of None \<Rightarrow> \<not> has_header fmt | Some rs \<Rightarrow> has_header fmt \<and> cur_ok base fmt w rs)"

text \<open>No writing changes the geometry of the ring or the size that an entry may have.\<close>

lemma entry_frame:
  "shm_entries_count (snd (xm_shm_entry_get t si mh)) = shm_entries_count mh"
  "shm_entries_count (snd (xm_shm_entry_commit si mh)) = shm_entries_count mh"
  "shm_entry_size (snd (xm_shm_entry_get t si mh)) = shm_entry_size mh"
  "shm_entry_size (snd (xm_shm_entry_commit si mh)) = shm_entry_size mh"
  by (simp_all add: xm_shm_entry_get_def xm_shm_entry_commit_def xm_shm_entry_pos_update_def Let_def)

definition frame :: "xm_shm_format \<Rightarrow> shm_world \<Rightarrow> u64 \<times> u64 \<times> u32" where
  "frame fmt w = (shm_entries_count (w_hdr w), shm_entry_size (w_hdr w), fmt_entry_size fmt)"

lemma commit_frame: "shm_entry_header_commit fmt w = (fmt', w') \<Longrightarrow> frame fmt' w' = frame fmt w"
  using entry_frame(2,4) [of "fmt_shm_int fmt" "w_hdr w"]
  by (auto simp: shm_entry_header_commit_def Let_def frame_def split: prod.splits)

lemma create_frame: "shm_entry_header_create fmt w = (ok, fmt', w') \<Longrightarrow> frame fmt' w' = frame fmt w"
proof -
  have new: "frame fmt2 w2 = frame fmt1 w1"
    if "\<not> has_header fmt1" "shm_entry_header_create fmt1 w1 = (ok, fmt2, w2)" for fmt1 fmt2 w1 w2
    using that entry_frame(1,3) [of "w_time w1" "fmt_shm_int fmt1" "w_hdr w1"]
    by (auto simp: shm_entry_header_create_def frame_def split: prod.splits option.splits)
  assume c: "shm_entry_header_create fmt w = (ok, fmt', w')"
  obtain fmt1 w1 where h: "shm_entry_header_commit fmt w = (fmt1, w1)" by (cases "shm_entry_header_commit fmt w")
  then have "has_header fmt \<Longrightarrow> shm_entry_header_create (fmt1\<lparr>has_header := False\<rparr>) w1 = (ok, fmt', w')"
    using c by (simp add: shm_entry_header_create_def)
  moreover have "frame (fmt1\<lparr>has_header := False\<rparr>) w1 = frame fmt w" using commit_frame [OF h] by (simp add: frame_def)
  ultimately show ?thesis using new [of fmt w] new [of "fmt1\<lparr>has_header := False\<rparr>" w1] c by (cases "has_header fmt") simp_all
qed

lemma write_frame: "shm_record_write fmt w r = (fmt', w') \<Longrightarrow> frame fmt' w' = frame fmt w"
  by (auto simp: shm_record_write_def Let_def frame_def split: prod.splits)

lemma put_frame: "xm_shm_format_put fmt w r = (rc, fmt', w') \<Longrightarrow> frame fmt' w' = frame fmt w"
  using create_frame write_frame by (fastforce simp: xm_shm_format_put_def Let_def split: prod.splits if_splits)

lemma flush_frame: "xm_shm_format_flush fmt w = (fmt', w') \<Longrightarrow> frame fmt' w' = frame fmt w"
  using create_frame by (fastforce simp: xm_shm_format_flush_def Let_def frame_def split: prod.splits if_splits)

lemma frame_ring: "frame fmt' w' = frame fmt w \<Longrightarrow> ring_count (ring_of base w') = ring_count (ring_of base w) \<and>
    ring_size (ring_of base w') = ring_size (ring_of base w) \<and> fmt_entry_size fmt' = fmt_entry_size fmt"
  by (simp add: frame_def ring_count_def ring_size_def)

lemma header_create:
  assumes "writer_rel base fmt w bs cur" "shm_entry_header_create fmt w = (ok, fmt', w')"
  shows "\<exists>cur'. writer_rel base fmt' w' (case cur of None \<Rightarrow> bs | Some rs \<Rightarrow> bs @ [rs]) cur' \<and>
    cur' = (if ok then Some [] else None) \<and>
    (\<not> ok \<longrightarrow> length (ring_queue (ring_of base w')) = ring_count (ring_of base w'))"
proof -
  have fmt: "fmt_ok base fmt w" and bs: "list_all2 block_ok bs (ring_queue (ring_of base w))"
    using assms(1) by (simp_all add: writer_rel_def)
  have get: "\<exists>cur'. writer_rel base fmt' w' bs1 cur' \<and> cur' = (if ok then Some [] else None) \<and>
      (\<not> ok \<longrightarrow> length (ring_queue (ring_of base w')) = ring_count (ring_of base w'))"
    if "fmt_ok base fmt1 w1" "\<not> has_header fmt1" "shm_entry_header_create fmt1 w1 = (ok, fmt', w')"
      "list_all2 block_ok bs1 (ring_queue (ring_of base w1))" for fmt1 w1 bs1
  proof -
    have "ring_inv (ring_of base w1)" using that(1) by (simp add: fmt_ok_def)
    then have "length (ring_queue (ring_of base w1)) \<le> ring_count (ring_of base w1)" by (rule ring.abs_cap)
    then show ?thesis
      using header_get [OF that(1-3)] that(4) by (auto simp: writer_rel_def split: if_splits)
  qed
  show ?thesis
  proof (cases cur)
    case None
    then show ?thesis using get [OF fmt _ assms(2) bs] assms(1) by (simp add: writer_rel_def)
  next
    case (Some rs)
    then have cur: "has_header fmt" "cur_ok base fmt w rs" using assms(1) by (simp_all add: writer_rel_def)
    obtain fmt1 w1 where c: "shm_entry_header_commit fmt w = (fmt1, w1)" by (cases "shm_entry_header_commit fmt w")
    note com = header_commit [OF fmt cur(2) c]
    have "shm_entry_header_create (fmt1\<lparr>has_header := False\<rparr>) w1 = (ok, fmt', w')"
      using assms(2) cur(1) c by (simp add: shm_entry_header_create_def)
    moreover have "fmt_ok base (fmt1\<lparr>has_header := False\<rparr>) w1" using com(2) by (simp add: fmt_ok_def)
    moreover have "list_all2 block_ok (bs @ [rs]) (ring_queue (ring_of base w1))"
      using com(1) bs by (auto intro: list_all2_appendI)
    ultimately show ?thesis using get [of "fmt1\<lparr>has_header := False\<rparr>" w1 "bs @ [rs]"] Some by simp
  qed
qed

text \<open>Records that are well-formed have the size of their bytes in their size field.\<close>

definition rcd_ok :: "xm_shm_entry_record \<Rightarrow> bool" where
  "rcd_ok r \<longleftrightarrow> unat (r_record_size r) = length (rcd_bytes r)"

lemma entry_record_ok: "length data < 2 ^ 31 \<Longrightarrow> rcd_ok (entry_record_of type data)"
proof -
  assume a: "length data < 2 ^ 31"
  have "ucast (XM_SHM_ENTRY_RECORD_HEADER_SIZE + of_nat (length data)) = (of_nat (21 + length data) :: u32)"
    using ucast_of_nat_down [of "21 + length data", where 'a = 64 and 'b = 32]
    by (simp add: XM_SHM_ENTRY_RECORD_HEADER_SIZE_def)
  moreover have "unat (of_nat (21 + length data) :: u32) = 21 + length data"
    using a by (intro unat_of_nat_small) simp
  ultimately show ?thesis by (simp add: rcd_ok_def entry_record_of_def)
qed

lemma record_append:
  assumes "fmt_ok base fmt w" "cur_ok base fmt w rs" "rcd_ok r"
    "20 + length (concat (map rcd_bytes rs)) + length (rcd_bytes r) \<le> ring_size (ring_of base w)"
    "shm_record_write fmt w r = (fmt', w')"
  shows "fmt_ok base fmt' w'" and "cur_ok base fmt' w' (rs @ [r])"
    and "ring_queue (ring_of base w') = ring_queue (ring_of base w)"
    and "has_header fmt' = has_header fmt"
proof -
  let ?q = "ring_of base w" and ?h = "cur_header fmt" and ?s = "wslot base w"
  let ?c = "concat (map rcd_bytes rs)" and ?k = "length (rcd_bytes r)"
  have inv: "ring_inv ?q" using assms(1) by (simp add: fmt_ok_def)
  have cur: "length (ring_queue ?q) < ring_count ?q" "mem_bytes (w_mem w) (?s + 20) (length ?c) = ?c"
    "h_magic ?h = FIMAGIC" "h_major_version ?h = MAJOR_VERSION" "h_minor_version ?h = MINJOR_VERSION"
    "entries_number ?h = of_nat (length rs)" "entries_size ?h = of_nat (length ?c)"
    and bf: "bfmt ?h = \<lparr>bf_start = ?s, bf_pos = ?s + of_nat (20 + length ?c), bf_end = ?s + shm_entry_size (w_hdr w)\<rparr>"
    using assms(2) by (simp_all add: cur_ok_def Let_def)
  have p: "unat (?s + of_nat (20 + length ?c)) = unat ?s + (20 + length ?c)"
    using assms(4) by (intro wslot_add(1) [OF inv]) simp
  have room: "unat (bf_pos (bfmt ?h)) + ?k \<le> unat (bf_end (bfmt ?h))"
    using p assms(4) wslot_end [OF inv] by (simp add: bf)
  have len: "length (r_data r) < 2 ^ 62" "record_header_size fmt = 21"
    using assms(1,3) unat_lt_u32 [of "r_record_size r"] by (simp_all add: rcd_ok_def fmt_ok_def)
  define m1 where "m1 = mem_write (w_mem w) (?s + of_nat (20 + length ?c)) (rcd_bytes r)"
  have cs: "(ucast (xm_bf_content_size (xm_bf_pos_update (bfmt ?h) (of_nat ?k))) :: u32) = of_nat (20 + length ?c + ?k)"
    "(ucast (xm_bf_content_size (bfmt ?h)) :: u32) = of_nat (20 + length ?c)"
    using ucast_of_nat_down [of "20 + length ?c + ?k", where 'a = 64 and 'b = 32]
      ucast_of_nat_down [of "20 + length ?c", where 'a = 64 and 'b = 32]
    by (simp_all add: bf xm_bf_content_size_def del: length_concat)
  have pos: "bf_pos (bfmt ?h) = ?s + of_nat (20 + length ?c)" by (simp add: bf)
  have res: "fmt' = fmt\<lparr>cur_header := ?h\<lparr>bfmt := xm_bf_pos_update (bfmt ?h) (of_nat ?k),
      entries_number := of_nat (Suc (length rs)), entries_size := of_nat (length ?c + ?k)\<rparr>\<rparr>"
    "w' = w\<lparr>w_mem := m1\<rparr>"
    using assms(5) shm_record_write_room [OF room len, of w, unfolded Let_def cs] cur pos
    by (auto simp: m1_def simp del: length_concat length_rcd_bytes)
  note fill = ring_fill [OF inv cur(1), of "?s + of_nat (20 + length ?c)" "rcd_bytes r", folded wslot_def]
  have q: "ring_inv (?q\<lparr>ring_mem := m1\<rparr>)" "ring_queue (?q\<lparr>ring_mem := m1\<rparr>) = ring_queue ?q"
    using fill p assms(4) by (simp_all add: m1_def del: length_concat length_rcd_bytes)
  then show "ring_queue (ring_of base w') = ring_queue ?q" by (simp add: res)
  show "fmt_ok base fmt' w'" using assms(1) q by (simp add: fmt_ok_def res)
  show "has_header fmt' = has_header fmt" by (simp add: res)
  have lim: "unat ?s + ring_size ?q < 2 ^ 64" by (rule wslot_add(2) [OF inv order_refl])
  have s20: "unat (?s + of_nat 20) = unat ?s + 20" using assms(4) by (intro wslot_add(1) [OF inv]) simp
  have "apart (?s + 20) (length ?c) (?s + of_nat (20 + length ?c)) ?k"
    using p s20 lim assms(4) by (simp add: apart_def)
  then have old: "mem_bytes m1 (?s + 20) (length ?c) = ?c"
    unfolding m1_def using cur(2) by (simp add: mem_bytes_write_apart)
  have "?k \<le> 2 ^ 64" using lim assms(4) by simp
  then have new: "mem_bytes m1 (?s + 20 + of_nat (length ?c)) ?k = rcd_bytes r"
    using mem_bytes_write [of "rcd_bytes r" "w_mem w" "?s + 20 + of_nat (length ?c)"]
    by (simp add: m1_def add.assoc del: length_concat length_rcd_bytes)
  have "mem_bytes m1 (?s + 20) (length ?c + ?k) = concat (map rcd_bytes (rs @ [r]))"
    using old new by (simp add: mem_bytes_append del: length_concat length_rcd_bytes)
  moreover have "wslot base w' = ?s" by (simp add: wslot_def res)
  ultimately show "cur_ok base fmt' w' (rs @ [r])"
    using cur bf assms(4) q(2)
    by (simp add: cur_ok_def Let_def res xm_bf_pos_update_def algebra_simps del: length_concat)
qed

text \<open>When the next record fits behind the cursor.\<close>

lemma cur_room:
  assumes "fmt_ok base fmt w" "cur_ok base fmt w rs" "rcd_ok r"
    "\<not> xm_bf_full (bfmt (cur_header fmt)) (ucast (r_record_size r))"
  shows "20 + length (concat (map rcd_bytes rs)) + length (rcd_bytes r) \<le> ring_size (ring_of base w)"
proof -
  let ?s = "wslot base w" and ?n = "20 + length (concat (map rcd_bytes rs))" and ?q = "ring_of base w"
  have inv: "ring_inv ?q" "ring_size ?q < 2 ^ 32" "?n \<le> ring_size ?q"
    using assms(1,2) by (simp_all add: fmt_ok_def cur_ok_def Let_def)
  have bf: "bfmt (cur_header fmt) = \<lparr>bf_start = ?s, bf_pos = ?s + of_nat ?n, bf_end = ?s + shm_entry_size (w_hdr w)\<rparr>"
    using assms(2) by (simp add: cur_ok_def Let_def)
  have k: "unat (ucast (r_record_size r) :: u64) = length (rcd_bytes r)" "length (rcd_bytes r) < 2 ^ 32"
    using assms(3) unat_lt_u32 [of "r_record_size r"] by (simp_all add: rcd_ok_def del: length_rcd_bytes)
  have p: "unat (?s + of_nat ?n) = unat ?s + ?n" by (rule wslot_add(1) [OF inv(1,3)])
  show ?thesis
  proof (cases "unat ?s + ?n + length (rcd_bytes r) < 2 ^ 64")
    case True
    then have "unat (?s + of_nat ?n + ucast (r_record_size r)) = unat ?s + ?n + length (rcd_bytes r)"
      using p k by (subst unat_add_small) (simp_all del: length_rcd_bytes)
    then show ?thesis
      using assms(4) wslot_end [OF inv(1)] by (simp add: xm_bf_full_def bf word_less_nat_alt not_less del: length_rcd_bytes)
  next
    case False
    have "write_index ?q < ring_count ?q" using inv(1) by (simp add: ring_inv_def)
    then have "unat ?s + ring_size ?q \<le> ring_start ?q + ring_count ?q * ring_size ?q"
      using slot_bound(1,2) [OF inv(1)] by (simp add: wslot_def)
    then have "unat ?s + ring_size ?q < 2 ^ 63" using assms(1) by (simp add: fmt_ok_def)
    then show ?thesis using False inv(3) k(2) by simp
  qed
qed

lemma put_log:
  assumes "writer_rel base fmt w bs cur" "rcd_ok r" "xm_shm_format_put fmt w r = (rc, fmt', w')"
  shows "\<exists>bs' cur'. writer_rel base fmt' w' bs' cur' \<and>
    concat bs' @ cur_list cur' = concat bs @ cur_list cur @ (if rc = PutOk then [r] else []) \<and>
    length bs' \<le> length bs + 1 \<and> (cur = None \<longrightarrow> bs' = bs) \<and> (rc = PutFull \<longrightarrow> length bs' = ring_count (ring_of base w)) \<and>
    (rc = PutTooLarge \<longleftrightarrow> unat (fmt_entry_size fmt) < 20 + length (rcd_bytes r))"
proof -
  have fmt: "fmt_ok base fmt w" using assms(1) by (simp add: writer_rel_def)
  have f: "20 \<le> unat (fmt_entry_size fmt)" "unat (fmt_entry_size fmt) \<le> ring_size (ring_of base w)"
    "ring_inv (ring_of base w)"
    using fmt by (simp_all add: fmt_ok_def)
  have "unat (fmt_entry_size fmt - 20) = unat (fmt_entry_size fmt) - 20"
    using f(1) by (subst unat_sub_small) simp_all
  then have over: "is_record_size_over fmt r \<longleftrightarrow> unat (fmt_entry_size fmt) < 20 + length (rcd_bytes r)"
    using assms(2) f(1)
    by (auto simp: is_record_size_over_def Let_def XM_SHM_ENTRY_HEADER_LEN_def rcd_ok_def word_less_nat_alt)
  show ?thesis
  proof (cases "is_record_size_over fmt r")
    case True
    then show ?thesis
      using assms(1,3) over by (intro exI [of _ bs] exI [of _ cur]) (auto simp: xm_shm_format_put_def)
  next
    case False
    then have le: "20 + length (rcd_bytes r) \<le> ring_size (ring_of base w)" using over f(2) by simp
    show ?thesis
    proof (cases "is_need_create_entry_header fmt r")
      case True
      obtain ok fmt1 w1 where c: "shm_entry_header_create fmt w = (ok, fmt1, w1)" by (metis prod_cases3)
      define bs1 where "bs1 = (case cur of None \<Rightarrow> bs | Some rs \<Rightarrow> bs @ [rs])"
      have bs1: "concat bs1 = concat bs @ cur_list cur" by (cases cur) (simp_all add: bs1_def)
      have rel: "writer_rel base fmt1 w1 bs1 (if ok then Some [] else None)"
        "\<not> ok \<longrightarrow> length (ring_queue (ring_of base w1)) = ring_count (ring_of base w1)"
        using header_create [OF assms(1) c] by (auto simp: bs1_def)
      show ?thesis
      proof (cases ok)
        case ok: True
        obtain fmt2 w2 where w: "shm_record_write fmt1 w1 r = (fmt2, w2)" by (cases "shm_record_write fmt1 w1 r")
        have res: "rc = PutOk" "fmt' = fmt2" "w' = w2"
          using assms(3) False True c ok w by (auto simp: xm_shm_format_put_def Let_def)
        have ok1: "fmt_ok base fmt1 w1" "cur_ok base fmt1 w1 []" "has_header fmt1"
          "list_all2 block_ok bs1 (ring_queue (ring_of base w1))"
          using rel(1) ok by (simp_all add: writer_rel_def)
        have "ring_size (ring_of base w1) = ring_size (ring_of base w)"
          using frame_ring [OF create_frame [OF c]] by simp
        then have "writer_rel base fmt' w' bs1 (Some [r])"
          using record_append [OF ok1(1,2) assms(2) _ w] ok1(3,4) le by (simp add: res writer_rel_def)
        moreover have "length bs1 \<le> length bs + 1" by (cases cur) (simp_all add: bs1_def)
        ultimately show ?thesis using bs1 res over False by (intro exI [of _ bs1] exI [of _ "Some [r]"]) (simp add: bs1_def)
      next
        case nok: False
        have res: "rc = PutFull" "fmt' = fmt1" "w' = w1"
          using assms(3) False True c nok by (auto simp: xm_shm_format_put_def Let_def)
        have "length bs1 = ring_count (ring_of base w1)"
          using rel nok by (auto simp: writer_rel_def dest: list_all2_lengthD)
        moreover have "ring_count (ring_of base w1) = ring_count (ring_of base w)"
          using frame_ring [OF create_frame [OF c]] by simp
        moreover have "length bs1 \<le> length bs + 1" by (cases cur) (simp_all add: bs1_def)
        ultimately show ?thesis
          using rel(1) nok bs1 res over False by (intro exI [of _ bs1] exI [of _ None]) (simp add: bs1_def)
      qed
    next
      case need: False
      then obtain rs where cur: "cur = Some rs" "has_header fmt" "cur_ok base fmt w rs"
        using assms(1) by (cases cur) (auto simp: writer_rel_def is_need_create_entry_header_def)
      obtain fmt2 w2 where w: "shm_record_write fmt w r = (fmt2, w2)" by (cases "shm_record_write fmt w r")
      have res: "rc = PutOk" "fmt' = fmt2" "w' = w2"
        using assms(3) False need w by (auto simp: xm_shm_format_put_def Let_def)
      have "20 + length (concat (map rcd_bytes rs)) + length (rcd_bytes r) \<le> ring_size (ring_of base w)"
        using cur_room [OF fmt cur(3) assms(2)] need cur(2) by (simp add: is_need_create_entry_header_def split: if_splits)
      then have "writer_rel base fmt' w' bs (Some (rs @ [r]))"
        using record_append [OF fmt cur(3) assms(2) _ w] assms(1) cur(2) by (simp add: res writer_rel_def)
      then show ?thesis
        using cur(1) res over False by (intro exI [of _ bs] exI [of _ "Some (rs @ [r])"]) simp
    qed
  qed
qed

text \<open>Flushing commits what is held.\<close>

lemma flush_log:
  assumes "writer_rel base fmt w bs cur" "xm_shm_format_flush fmt w = (fmt', w')"
  shows "\<exists>bs' cur'. writer_rel base fmt' w' bs' cur' \<and> concat bs' = concat bs @ cur_list cur \<and>
    cur_list cur' = [] \<and> bs' = (case cur of None \<Rightarrow> bs | Some rs \<Rightarrow> bs @ [rs])"
proof (cases cur)
  case None
  then have "fmt' = fmt" "w' = w"
    using assms by (simp_all add: xm_shm_format_flush_def can_been_flush_def writer_rel_def)
  then show ?thesis using assms(1) None by (intro exI [of _ bs] exI [of _ None]) simp
next
  case (Some rs)
  have fmt: "fmt_ok base fmt w" "cur_ok base fmt w rs" "has_header fmt"
    using assms(1) Some by (simp_all add: writer_rel_def)
  let ?n = "20 + length (concat (map rcd_bytes rs))"
  have "ring_inv (ring_of base w)" "?n \<le> ring_size (ring_of base w)" using fmt by (simp_all add: fmt_ok_def cur_ok_def Let_def)
  then have "unat (wslot base w + of_nat ?n) = unat (wslot base w) + ?n" by (rule wslot_add(1))
  then have "wslot base w + of_nat ?n \<noteq> wslot base w" by (metis add_eq_self_zero add_is_0 zero_neq_numeral)
  then have can: "can_been_flush fmt"
    using fmt(2,3) by (simp add: can_been_flush_def cur_ok_def Let_def xm_bf_empty_def)
  obtain ok fmt1 w1 where c: "shm_entry_header_create fmt w = (ok, fmt1, w1)" by (metis prod_cases3)
  then have rel: "writer_rel base fmt1 w1 (bs @ [rs]) (if ok then Some [] else None)"
    using header_create [OF assms(1) c] Some by auto
  have "fmt' = (if ok then fmt1 else fmt1\<lparr>has_header := False\<rparr>)" "w' = w1"
    using assms(2) can c by (auto simp: xm_shm_format_flush_def split: if_splits)
  then have "writer_rel base fmt' w' (bs @ [rs]) (if ok then Some [] else None)"
    using rel by (auto simp: writer_rel_def fmt_ok_def split: if_splits)
  then show ?thesis using Some by (intro exI [of _ "bs @ [rs]"] exI [of _ "if ok then Some [] else None"]) auto
qed

section \<open>The reader of the Java interface\<close>

text \<open>
  \<open>read\<close> of \<open>api/java/jni/xm_entry_reader.c\<close> hands out the next record; at the end of a block it
  commits the block and returns -1 (\<open>ReadEnd\<close>), without a block to read it returns -2
  (\<open>ReadNone\<close>).  The context holds the format and whether an iterator is open.
\<close>

record reader_context =
  shm_fmt :: xm_shm_format
  eiter :: bool

datatype read_result = ReadRecord u8 "u8 list" | ReadEnd | ReadNone

definition prepare_iter_ok :: "reader_context \<Rightarrow> shm_world \<Rightarrow> bool \<times> reader_context \<times> shm_world" where
  "prepare_iter_ok c w =
     (if eiter c then (True, c, w)
      else let (ok, fmt, w) = xm_shm_entry_iterator_prefare (shm_fmt c) w
           in (ok, c\<lparr>shm_fmt := fmt, eiter := ok\<rparr>, w))"

definition entry_read :: "reader_context \<Rightarrow> shm_world \<Rightarrow> read_result \<times> reader_context \<times> shm_world" where
  "entry_read c w =
     (let (ok, c, w) = prepare_iter_ok c w
      in if \<not> ok then (ReadNone, c, w)
         else case record_next (shm_fmt c) (w_mem w) of
                (None, fmt) \<Rightarrow>
                  let (fmt, w) = xm_shm_entry_iterator_commit fmt w
                  in (ReadEnd, c\<lparr>shm_fmt := fmt, eiter := False\<rparr>, w)
              | (Some rcd, fmt) \<Rightarrow>
                  (ReadRecord (rr_type rcd)
                     (case rr_data rcd of None \<Rightarrow> []
                      | Some a \<Rightarrow> mem_bytes (w_mem w) a (unat (rr_data_len rcd))),
                   c\<lparr>shm_fmt := fmt\<rparr>, w))"

fun entry_reads :: "nat \<Rightarrow> reader_context \<Rightarrow> shm_world \<Rightarrow> read_result list \<times> reader_context \<times> shm_world" where
  "entry_reads 0 c w = ([], c, w)"
| "entry_reads (Suc n) c w =
     (let (r, c, w) = entry_read c w; (rs, c, w) = entry_reads n c w in (r # rs, c, w))"

text \<open>An open iterator in front of the records \<open>rs\<close> of the oldest block.\<close>

definition iter_ok :: "xm_shm_format \<Rightarrow> mem \<Rightarrow> xm_shm_entry_record list \<Rightarrow> bool" where
  "iter_ok fmt m rs \<longleftrightarrow>
     (let bf = bfmt (cur_header fmt); n = length (concat (map rcd_bytes rs))
      in iter_header fmt \<and> mem_bytes m (bf_pos bf) n = concat (map rcd_bytes rs) \<and>
         unat (bf_pos bf) + n \<le> unat (bf_end bf) \<and>
         unat (entries_count fmt) + length rs = unat (entries_number (cur_header fmt)))"

text \<open>A fixed-width read with room moves the cursor by its width.\<close>

lemma bf_read_pos:
  "unat (bf_pos bf) + n \<le> unat (bf_end bf) \<Longrightarrow> snd (bf_read n bf m) = xm_bf_pos_update bf (of_nat n)"
  by (simp add: bf_read_room)

lemma record_next_end: "iter_ok fmt m [] \<Longrightarrow> record_next fmt m = (None, fmt)"
  by (simp add: iter_ok_def Let_def record_next_def has_next_def word_le_nat_alt)

lemma record_next_some:
  assumes "iter_ok fmt m (r # rs)" "length (r_data r) < 2 ^ 62"
  shows "\<exists>rcd fmt'. record_next fmt m = (Some rcd, fmt') \<and> iter_ok fmt' m rs \<and>
    rr_type rcd = r_type r \<and> (\<exists>a. rr_data rcd = Some a \<and> mem_bytes m a (unat (rr_data_len rcd)) = r_data r) \<and>
    fmt_shm_int fmt' = fmt_shm_int fmt"
proof -
  let ?bf = "bfmt (cur_header fmt)" and ?c = "concat (map rcd_bytes rs)"
  let ?n = "length (r_data r)"
  have it: "iter_header fmt" "unat (bf_pos ?bf) + (21 + ?n + length ?c) \<le> unat (bf_end ?bf)"
    "unat (entries_count fmt) + Suc (length rs) = unat (entries_number (cur_header fmt))"
    "mem_bytes m (bf_pos ?bf) (length (rcd_bytes r) + length ?c) = rcd_bytes r @ ?c"
    using assms(1) by (simp_all add: iter_ok_def Let_def del: length_concat)
  note pre = mem_bytes_prefix [OF it(4)]
  have len: "length (rcd_bytes r) = length (concat (map value_bytes (rcd_values r))) +
      length (do_value_write 8 (of_nat ?n :: u64) @ r_data r)"
    by (simp add: rcd_bytes_def)
  have "mem_bytes m (bf_pos ?bf) (length (concat (map value_bytes (rcd_values r))) +
      length (do_value_write 8 (of_nat ?n :: u64) @ r_data r)) =
      concat (map value_bytes (rcd_values r)) @ do_value_write 8 (of_nat ?n :: u64) @ r_data r"
    using pre unfolding len by (simp add: rcd_bytes_def)
  note pre1 = mem_bytes_prefix [OF this]
  have l13: "length (concat (map value_bytes (rcd_values r))) = 13" by (simp add: rcd_values_def)
  have dat: "mem_bytes m (bf_pos ?bf + 13) (length (do_value_write 8 (of_nat ?n :: u64) @ r_data r)) =
      do_value_write 8 (of_nat ?n :: u64) @ r_data r"
    using pre1 unfolding l13 by simp
  note pre2 = mem_bytes_prefix [OF dat]
  have room: "unat (bf_pos ?bf) + length (concat (map value_bytes (rcd_values r))) \<le> unat (bf_end ?bf)"
    "\<forall>v \<in> set (rcd_values r). value_ok v"
    using it(2) l13 by (simp_all add: rcd_values_def)
  have seq: "read_seq read_value (rcd_values r) ?bf m = (rcd_values r, xm_bf_pos_update ?bf 13)"
    using bf.read_seq_enc [OF room, of m] pre1 unfolding l13 by simp
  have p: "unat (bf_pos ?bf + 4) = unat (bf_pos ?bf) + 4" "unat (bf_pos ?bf + 8) = unat (bf_pos ?bf) + 8"
    "unat (bf_pos ?bf + 9) = unat (bf_pos ?bf) + 9" "unat (bf_pos ?bf + 13) = unat (bf_pos ?bf) + 13"
    using bf_room [of ?bf 4] bf_room [of ?bf 8] bf_room [of ?bf 9] bf_room [of ?bf 13] it(2) by simp_all
  have snds: "snd (xm_bf_uint32_read ?bf m) = xm_bf_pos_update ?bf 4"
    "snd (xm_bf_uint32_read (xm_bf_pos_update ?bf 4) m) = xm_bf_pos_update ?bf 8"
    "snd (xm_bf_uint8_read (xm_bf_pos_update ?bf 8) m) = xm_bf_pos_update ?bf 9"
    "snd (xm_bf_uint32_read (xm_bf_pos_update ?bf 9) m) = xm_bf_pos_update ?bf 13"
    using it(2) p by (simp_all add: bf_read_pos xm_bf_uint32_read_def xm_bf_uint8_read_def)
  have fields: "xm_bf_uint32_read ?bf m = (EIMAGIC, xm_bf_pos_update ?bf 4)"
    "xm_bf_uint32_read (xm_bf_pos_update ?bf 4) m = (of_nat (?n + 21), xm_bf_pos_update ?bf 8)"
    "xm_bf_uint8_read (xm_bf_pos_update ?bf 8) m = (r_type r, xm_bf_pos_update ?bf 9)"
    "xm_bf_uint32_read (xm_bf_pos_update ?bf 9) m = (r_data_offset r, xm_bf_pos_update ?bf 13)"
    using seq snds unfolding rcd_values_def by (auto simp: case_prod_beta intro: prod_eqI)
  have bytes: "xm_bf_bytes_read (xm_bf_pos_update ?bf 13) m =
      ((Some (bf_pos ?bf + 21), of_nat ?n), xm_bf_pos_update ?bf (21 + of_nat ?n))"
    using p(4) bytes_read_room [of "xm_bf_pos_update ?bf 13" m "of_nat ?n"] it(2) pre2
    by (simp add: add.assoc [symmetric])
  have nx: "has_next fmt"
    using it(1,3) by (simp add: has_next_def word_le_nat_alt)
  have cnt: "unat (entries_count fmt + 1) = unat (entries_count fmt) + 1"
    using it(3) unat_lt_u32 [of "entries_number (cur_header fmt)"] by (subst unat_add_small) simp_all
  have pos: "unat (bf_pos ?bf + of_nat (21 + ?n)) = unat (bf_pos ?bf) + (21 + ?n)"
    using bf_room [of ?bf "21 + ?n"] it(2) by simp
  have "mem_bytes m (bf_pos ?bf + of_nat (21 + ?n)) (length ?c) = ?c" using pre by simp
  moreover have "mem_bytes m (bf_pos ?bf + 21) ?n = r_data r" using pre2 by (simp add: add.commute)
  ultimately show ?thesis
    using nx fields bytes cnt it pos assms(2)
    by (auto simp: record_next_def record_read_def Let_def shm_entry_record_read_def iter_ok_def
      simp del: length_concat)
qed

text \<open>Opening a block.\<close>

definition reader_rel :: "u64 \<Rightarrow> reader_context \<Rightarrow> shm_world \<Rightarrow> xm_shm_entry_record list list \<Rightarrow> bool" where
  "reader_rel base c w bs \<longleftrightarrow>
     ring_inv (ring_of base w) \<and> ring_size (ring_of base w) < 2 ^ 32 \<and>
     \<not> is_write (fmt_shm_int (shm_fmt c)) \<and>
     shm_address_get (fmt_shm_int (shm_fmt c)) = memory_address_get base \<and>
     list_all2 block_ok bs (ring_queue (ring_of base w)) \<and> \<not> eiter c"

lemma records_small:
  "block_ok rs blk \<Longrightarrow> length (concat (map rcd_bytes rs)) + 20 \<le> length blk \<and>
    (\<forall>r \<in> set rs. length (r_data r) \<le> length blk) \<and> length rs \<le> length blk"
proof -
  have "length rs \<le> length (concat (map rcd_bytes rs))" "\<forall>r \<in> set rs. length (r_data r) \<le> length (concat (map rcd_bytes rs))"
    by (induction rs) auto
  then show "block_ok rs blk \<Longrightarrow> ?thesis" by (auto simp: block_ok_def)
qed

lemma iterator_open:
  assumes "reader_rel base c w (rs # bs)" "xm_shm_entry_iterator_prefare (shm_fmt c) w = (ok, fmt, w')"
  shows "ok" and "iter_ok fmt (w_mem w') rs" and "fmt_shm_int fmt = fmt_shm_int (shm_fmt c)"
    and "w_mem w' = w_mem w" and "w_time w' = w_time w" and "ring_same (w_hdr w) (w_hdr w')"
proof -
  let ?q = "ring_of base w" and ?s = "slot (ring_of base w) (read_index (ring_of base w))"
  let ?c = "concat (map rcd_bytes rs)" and ?n = "ring_size (ring_of base w)"
  have f: "ring_inv ?q" "\<not> is_write (fmt_shm_int (shm_fmt c))" "?n < 2 ^ 32"
    "shm_address_get (fmt_shm_int (shm_fmt c)) = memory_address_get base"
    using assms(1) by (simp_all add: reader_rel_def)
  obtain blk rest where q: "ring_queue ?q = blk # rest" "block_ok rs blk"
    using assms(1) by (auto simp: reader_rel_def list_all2_Cons1)
  have r: "read_index ?q < ring_count ?q" using f(1) by (simp add: ring_inv_def)
  have blk: "blk = mem_bytes (w_mem w) ?s ?n"
    using ring_commit_read(2) [OF f(1) _ f(2) refl] q(1) by simp
  note small = records_small [OF q(2)]
  obtain pad where pad: "blk = header_bytes rs @ ?c @ pad" using q(2) by (auto simp: block_ok_def)
  then have m: "mem_bytes (w_mem w) ?s ?n = header_bytes rs @ (?c @ pad)" using blk by simp
  note m1 = mem_bytes_prefix [OF m]
  then have m2: "mem_bytes (w_mem w) (?s + 20) (length (?c @ pad)) = ?c @ pad" by simp
  note m3 = mem_bytes_prefix [OF m2]
  have len: "20 + length ?c \<le> ?n" "length rs < 2 ^ 32" "length ?c < 2 ^ 32"
    using small blk f(3) by simp_all
  obtain mh where e: "xm_shm_entry_get (w_time w) (fmt_shm_int (shm_fmt c)) (w_hdr w) =
      (Some \<lparr>entry_index = shm_read_entry_pos (w_hdr w), entry_start = ?s, entry_pos = ?s,
        entry_end = ?s + shm_entry_size (w_hdr w)\<rparr>, mh)" and mh: "ring_same (w_hdr w) mh"
    using entry_get_read(2) [OF f(1,2), of "w_time w"] f(4) q(1) by auto
  let ?bf = "xm_bf_init ?s (?s + shm_entry_size (w_hdr w))"
  have lim: "unat ?s + ?n < 2 ^ 64" using slot_bound [OF f(1) r] by simp
  then have se: "unat (?s + shm_entry_size (w_hdr w)) = unat ?s + ?n"
    unfolding ring_size_def by (subst unat_add_small) simp_all
  have p: "unat (?s + 4) = unat ?s + 4" "unat (?s + 8) = unat ?s + 8" "unat (?s + 12) = unat ?s + 12"
    "unat (?s + 16) = unat ?s + 16" "unat (?s + 20) = unat ?s + 20"
    using lim len(1) by (subst unat_add_small; simp)+
  have room: "unat (bf_pos ?bf) + length (concat (map value_bytes (header_values rs))) \<le> unat (bf_end ?bf)"
    "\<forall>v \<in> set (header_values rs). value_ok v"
    using se len(1) by (simp_all add: xm_bf_init_def header_values_def)
  have seq: "read_seq read_value (header_values rs) ?bf (w_mem w) = (header_values rs, xm_bf_pos_update ?bf 20)"
    using bf.read_seq_enc [OF room, of "w_mem w"] m1 by (simp add: xm_bf_init_def flip: header_bytes_def)
  have snds: "snd (xm_bf_uint32_read ?bf (w_mem w)) = xm_bf_pos_update ?bf 4"
    "snd (xm_bf_uint32_read (xm_bf_pos_update ?bf 4) (w_mem w)) = xm_bf_pos_update ?bf 8"
    "snd (xm_bf_uint32_read (xm_bf_pos_update ?bf 8) (w_mem w)) = xm_bf_pos_update ?bf 12"
    "snd (xm_bf_uint32_read (xm_bf_pos_update ?bf 12) (w_mem w)) = xm_bf_pos_update ?bf 16"
    "snd (xm_bf_uint32_read (xm_bf_pos_update ?bf 16) (w_mem w)) = xm_bf_pos_update ?bf 20"
    using se p len(1) by (simp_all add: xm_bf_init_def bf_read_pos xm_bf_uint32_read_def)
  have fields: "xm_bf_uint32_read ?bf (w_mem w) = (FIMAGIC, xm_bf_pos_update ?bf 4)"
    "fst (xm_bf_uint32_read (xm_bf_pos_update ?bf 12) (w_mem w)) = of_nat (length rs)"
    using seq snds unfolding header_values_def by (auto simp: case_prod_beta intro: prod_eqI)
  have res: "ok" "w' = w\<lparr>w_hdr := mh\<rparr>" "iter_header fmt" "entries_count fmt = 0"
    "fmt_shm_int fmt = fmt_shm_int (shm_fmt c)" "bfmt (cur_header fmt) = xm_bf_pos_update ?bf 20"
    "entries_number (cur_header fmt) = of_nat (length rs)"
    using assms(2) e fields snds
    by (auto simp: xm_shm_entry_iterator_prefare_def shm_entry_header_read_def Let_def case_prod_beta)
  then show "ok" "fmt_shm_int fmt = fmt_shm_int (shm_fmt c)" "w_mem w' = w_mem w" "w_time w' = w_time w"
    "ring_same (w_hdr w) (w_hdr w')"
    using mh by simp_all
  show "iter_ok fmt (w_mem w') rs"
    using res m3 p(5) se len by (simp add: iter_ok_def Let_def xm_bf_init_def del: length_concat)
qed

text \<open>Reading a block to its end.\<close>

definition block_results :: "xm_shm_entry_record list \<Rightarrow> read_result list" where
  "block_results rs = map (\<lambda>r. ReadRecord (r_type r) (r_data r)) rs @ [ReadEnd]"

definition open_rel :: "u64 \<Rightarrow> reader_context \<Rightarrow> shm_world \<Rightarrow> xm_shm_entry_record list
    \<Rightarrow> xm_shm_entry_record list list \<Rightarrow> bool" where
  "open_rel base c w rs bs \<longleftrightarrow>
     ring_inv (ring_of base w) \<and> ring_size (ring_of base w) < 2 ^ 32 \<and>
     \<not> is_write (fmt_shm_int (shm_fmt c)) \<and>
     shm_address_get (fmt_shm_int (shm_fmt c)) = memory_address_get base \<and>
     (\<exists>blk q. ring_queue (ring_of base w) = blk # q \<and> list_all2 block_ok bs q) \<and>
     eiter c \<and> iter_ok (shm_fmt c) (w_mem w) rs \<and> (\<forall>r \<in> set rs. length (r_data r) < 2 ^ 62)"

lemma ring_queue_length: "blk \<in> set (ring_queue q) \<Longrightarrow> length blk = ring_size q"
  by (auto simp: ring_queue_def)

lemma open_block:
  assumes "reader_rel base c w (rs # bs)"
  shows "\<exists>c' w'. entry_read c w = entry_read c' w' \<and> open_rel base c' w' rs bs"
proof -
  obtain ok fmt w' where p: "xm_shm_entry_iterator_prefare (shm_fmt c) w = (ok, fmt, w')" by (metis prod_cases3)
  note it = iterator_open [OF assms p]
  let ?c = "c\<lparr>shm_fmt := fmt, eiter := True\<rparr>"
  have c: "\<not> eiter c" using assms by (simp add: reader_rel_def)
  have "entry_read c w = entry_read ?c w'"
    using c p it(1) by (simp add: entry_read_def prepare_iter_ok_def)
  moreover have "w' = (w\<lparr>w_hdr := w_hdr w'\<rparr>)" using it(4,5) by simp
  then have same: "ring_of base w' = (ring_of base w)\<lparr>ring_hdr := w_hdr w'\<rparr>" by (metis ring_of_simps(5))
  obtain blk q where q: "ring_queue (ring_of base w) = blk # q" "block_ok rs blk" "list_all2 block_ok bs q"
    using assms by (auto simp: reader_rel_def list_all2_Cons1)
  have "length blk = ring_size (ring_of base w)" by (rule ring_queue_length) (simp add: q(1))
  then have "\<forall>r \<in> set rs. length (r_data r) < 2 ^ 62"
    using records_small [OF q(2)] assms by (force simp: reader_rel_def)
  then have "open_rel base ?c w' rs bs"
    using assms it(2,3) q ring_same_simps [of "ring_of base w" "w_hdr w'"] it(6)
    by (simp add: open_rel_def reader_rel_def same)
  ultimately show ?thesis by blast
qed

lemma commit_open_block:
  assumes "open_rel base c w rs bs"
  shows "\<exists>fmt w'. xm_shm_entry_iterator_commit (shm_fmt c) w = (fmt, w') \<and>
    reader_rel base (c\<lparr>shm_fmt := fmt, eiter := False\<rparr>) w' bs"
proof -
  have o: "iter_header (shm_fmt c)" "ring_inv (ring_of base w)" "\<not> is_write (fmt_shm_int (shm_fmt c))"
    "ring_queue (ring_of base w) \<noteq> []"
    using assms by (auto simp: open_rel_def iter_ok_def Let_def)
  obtain fmt w' where r: "xm_shm_entry_iterator_commit (shm_fmt c) w = (fmt, w')"
    "fmt_shm_int fmt = fmt_shm_int (shm_fmt c)"
    "w' = w\<lparr>w_hdr := snd (xm_shm_entry_commit (fmt_shm_int (shm_fmt c)) (w_hdr w))\<rparr>"
    using o(1) by (auto simp: xm_shm_entry_iterator_commit_def case_prod_beta)
  have "ring_of base w' = (ring_of base w)\<lparr>ring_hdr :=
      snd (xm_shm_entry_commit (fmt_shm_int (shm_fmt c)) (ring_hdr (ring_of base w)))\<rparr>"
    by (simp add: r(3))
  note com = ring_commit_read [OF o(2,4,3) this]
  then have "reader_rel base (c\<lparr>shm_fmt := fmt, eiter := False\<rparr>) w' bs"
    using assms r by (auto simp: reader_rel_def open_rel_def)
  then show ?thesis using r(1) by blast
qed

lemma read_open_record:
  assumes "open_rel base c w (r # rs) bs"
  shows "\<exists>c'. entry_read c w = (ReadRecord (r_type r) (r_data r), c', w) \<and> open_rel base c' w rs bs"
proof -
  have o: "eiter c" "iter_ok (shm_fmt c) (w_mem w) (r # rs)" "length (r_data r) < 2 ^ 62"
    using assms by (auto simp: open_rel_def)
  obtain rcd fmt' a where n: "record_next (shm_fmt c) (w_mem w) = (Some rcd, fmt')" "iter_ok fmt' (w_mem w) rs"
    "rr_type rcd = r_type r" "rr_data rcd = Some a" "mem_bytes (w_mem w) a (unat (rr_data_len rcd)) = r_data r"
    "fmt_shm_int fmt' = fmt_shm_int (shm_fmt c)"
    using record_next_some [OF o(2,3)] by blast
  then have "entry_read c w = (ReadRecord (r_type r) (r_data r), c\<lparr>shm_fmt := fmt'\<rparr>, w)"
    using o(1) by (simp add: entry_read_def prepare_iter_ok_def)
  moreover have "open_rel base (c\<lparr>shm_fmt := fmt'\<rparr>) w rs bs" using assms n by (auto simp: open_rel_def)
  ultimately show ?thesis by blast
qed

lemma read_open_block:
  "open_rel base c w rs bs \<Longrightarrow> \<exists>c' w'. entry_reads (Suc (length rs)) c w = (block_results rs, c', w') \<and>
     reader_rel base c' w' bs"
proof (induction rs arbitrary: c w)
  case Nil
  have o: "eiter c" "iter_ok (shm_fmt c) (w_mem w) []" using Nil by (auto simp: open_rel_def)
  obtain fmt w' where "xm_shm_entry_iterator_commit (shm_fmt c) w = (fmt, w')"
    "reader_rel base (c\<lparr>shm_fmt := fmt, eiter := False\<rparr>) w' bs" using commit_open_block [OF Nil] by blast
  then show ?case
    using o(1) record_next_end [OF o(2)] by (simp add: entry_read_def prepare_iter_ok_def block_results_def)
next
  case (Cons r rs)
  obtain c1 where c1: "entry_read c w = (ReadRecord (r_type r) (r_data r), c1, w)" "open_rel base c1 w rs bs"
    using read_open_record [OF Cons.prems] by blast
  obtain c' w' where "entry_reads (Suc (length rs)) c1 w = (block_results rs, c', w')" "reader_rel base c' w' bs"
    using Cons.IH [OF c1(2)] by blast
  then show ?case using c1(1) by (simp add: block_results_def)
qed

lemma entry_reads_add:
  "entry_reads (n + k) c w =
     (let (rs, c, w) = entry_reads n c w; (rs', c, w) = entry_reads k c w in (rs @ rs', c, w))"
  by (induction n arbitrary: c w) (simp_all add: case_prod_beta Let_def)

lemma read_blocks:
  "reader_rel base c w bs \<Longrightarrow>
   \<exists>c' w'. entry_reads (length (concat bs) + length bs) c w = (concat (map block_results bs), c', w') \<and>
     reader_rel base c' w' []"
proof (induction bs arbitrary: c w)
  case (Cons rs bs)
  obtain c1 w1 where o: "entry_read c w = entry_read c1 w1" "open_rel base c1 w1 rs bs"
    using open_block [OF Cons.prems] by blast
  then obtain c2 w2 where r: "entry_reads (Suc (length rs)) c w = (block_results rs, c2, w2)" "reader_rel base c2 w2 bs"
    using read_open_block [OF o(2)] by auto
  then obtain c' w' where "entry_reads (length (concat bs) + length bs) c2 w2 = (concat (map block_results bs), c', w')"
    "reader_rel base c' w' []" using Cons.IH by blast
  moreover have "length (concat (rs # bs)) + length (rs # bs) = Suc (length rs) + (length (concat bs) + length bs)" by simp
  ultimately show ?case
    using r(1) entry_reads_add [of "Suc (length rs)" "length (concat bs) + length bs" c w]
    by (simp add: add.assoc del: entry_reads.simps length_concat)
qed simp

lemma read_nothing: "reader_rel base c w [] \<Longrightarrow> fst (entry_read c w) = ReadNone"
  using entry_get_read(1) [of "ring_of base w" "fmt_shm_int (shm_fmt c)" "w_time w"]
  by (auto simp: reader_rel_def entry_read_def prepare_iter_ok_def xm_shm_entry_iterator_prefare_def)

section \<open>From the writer to the reader\<close>

text \<open>Putting a list of records; \<open>None\<close> when one is not stored.\<close>

fun put_records :: "xm_shm_format \<Rightarrow> shm_world \<Rightarrow> (u8 \<times> u8 list) list \<Rightarrow> (xm_shm_format \<times> shm_world) option" where
  "put_records fmt w [] = Some (fmt, w)"
| "put_records fmt w ((type, data) # ds) =
     (case xm_shm_format_put fmt w (entry_record_of type data) of
        (PutOk, fmt, w) \<Rightarrow> put_records fmt w ds
      | _ \<Rightarrow> None)"

fun records_of :: "read_result list \<Rightarrow> (u8 \<times> u8 list) list" where
  "records_of [] = []"
| "records_of (ReadRecord type data # rs) = (type, data) # records_of rs"
| "records_of (ReadEnd # rs) = records_of rs"
| "records_of (ReadNone # rs) = records_of rs"

lemma records_of_append: "records_of (xs @ ys) = records_of xs @ records_of ys"
  by (induction xs rule: records_of.induct) auto

lemma records_of_blocks:
  "records_of (concat (map block_results bs)) = map (\<lambda>r. (r_type r, r_data r)) (concat bs)"
proof -
  have "records_of (block_results rs) = map (\<lambda>r. (r_type r, r_data r)) rs" for rs
    by (induction rs) (auto simp: block_results_def)
  then show ?thesis by (induction bs) (auto simp: records_of_append)
qed

lemma put_records_log:
  "writer_rel base fmt w bs cur \<Longrightarrow> \<forall>d \<in> set ds. length (snd d) < 2 ^ 31 \<Longrightarrow>
   put_records fmt w ds = Some (fmt', w') \<Longrightarrow>
   \<exists>bs' cur'. writer_rel base fmt' w' bs' cur' \<and>
     concat bs' @ cur_list cur' = concat bs @ cur_list cur @ map (\<lambda>(t, d). entry_record_of t d) ds"
proof (induction ds arbitrary: fmt w bs cur)
  case (Cons d ds)
  obtain ty dat where d: "d = (ty, dat)" by (cases d)
  obtain rc fmt1 w1 where p: "xm_shm_format_put fmt w (entry_record_of ty dat) = (rc, fmt1, w1)" by (metis prod_cases3)
  then have ok: "rc = PutOk" "put_records fmt1 w1 ds = Some (fmt', w')"
    using Cons.prems(3) d by (auto split: put_result.splits)
  obtain bs1 cur1 where 1: "writer_rel base fmt1 w1 bs1 cur1"
    "concat bs1 @ cur_list cur1 = concat bs @ cur_list cur @ [entry_record_of ty dat]"
    using put_log [OF Cons.prems(1) entry_record_ok p] Cons.prems(2) ok(1) d by auto
  obtain bs' cur' where "writer_rel base fmt' w' bs' cur'"
    "concat bs' @ cur_list cur' = concat bs1 @ cur_list cur1 @ map (\<lambda>(t, d). entry_record_of t d) ds"
    using Cons.IH [OF 1(1) _ ok(2)] Cons.prems(2) by auto
  then show ?case
    using 1(2) d by (intro exI [of _ bs'] exI [of _ cur']) (simp flip: append_assoc)
qed auto

lemma writer_to_reader:
  "writer_rel base fmt w bs cur \<Longrightarrow> \<not> eiter c \<Longrightarrow> \<not> is_write (fmt_shm_int (shm_fmt c)) \<Longrightarrow>
   shm_address_get (fmt_shm_int (shm_fmt c)) = memory_address_get base \<Longrightarrow> reader_rel base c w bs"
  by (simp add: writer_rel_def fmt_ok_def reader_rel_def)

text \<open>A writer and a reader of an empty ring of 15 pages, for the concrete runs.\<close>

definition demo_writer :: xm_shm_format where
  "demo_writer = xm_shm_format_create
     \<lparr>page_size = 4096, shm_size = 0x10000, is_write = True, shm_address_get = memory_address_get 0x10000\<rparr> 4096 21"

definition demo_reader :: reader_context where
  "demo_reader = \<lparr>shm_fmt = xm_shm_format_create
     \<lparr>page_size = 4096, shm_size = 0, is_write = False, shm_address_get = memory_address_get 0x10000\<rparr> 0 21,
     eiter = False\<rparr>"

definition demo_world :: shm_world where
  "demo_world = \<lparr>w_hdr = demo_header, w_mem = (\<lambda>a. 0), w_time = 0\<rparr>"

lemma demo_writer_rel: "writer_rel 0x10000 demo_writer demo_world [] None"
proof -
  have "ring_of 0x10000 demo_world = \<lparr>ring_base = 0x10000, ring_hdr = demo_header, ring_mem = (\<lambda>a. 0), ring_time = 0\<rparr>"
    by (simp add: ring_of_def demo_world_def)
  then show ?thesis
    using demo_ring by (simp add: writer_rel_def fmt_ok_def demo_writer_def xm_shm_format_create_def
      ring_size_def ring_count_def ring_start_def ring_queue_def demo_header_fields)
qed

lemma demo_put: "\<exists>fmt w. xm_shm_format_put demo_writer demo_world (entry_record_of 1 [1, 2, 3]) = (PutOk, fmt, w)"
proof -
  obtain rc fmt w where p: "xm_shm_format_put demo_writer demo_world (entry_record_of 1 [1, 2, 3]) = (rc, fmt, w)"
    by (metis prod_cases3)
  obtain bs' cur' where l: "writer_rel 0x10000 fmt w bs' cur'"
    "concat bs' @ cur_list cur' = (if rc = PutOk then [entry_record_of 1 [1, 2, 3]] else [])"
    "rc = PutTooLarge \<longleftrightarrow> unat (fmt_entry_size demo_writer) < 44"
    using put_log [OF demo_writer_rel entry_record_ok p] by (auto simp: entry_record_of_def)
  have "rc \<noteq> PutTooLarge" using l(3) by (simp add: demo_writer_def xm_shm_format_create_def)
  moreover have "rc \<noteq> PutFull"
  proof
    assume "rc = PutFull"
    then have "\<not> shm_entry_can_get (fmt_shm_int demo_writer) demo_header"
      using p by (auto simp: xm_shm_format_put_def demo_writer_def demo_world_def xm_shm_format_create_def
        shm_entry_header_create_def xm_shm_entry_get_def Let_def shm_entry_can_get_def xm_shm_full_def
        demo_header_fields shm_entry_init_def memory_address_get_def xm_shm_entry_pos_offset_def
        is_need_create_entry_header_def shm_entry_index_get_def split: if_splits)
    then show False
      by (simp add: shm_entry_can_get_def xm_shm_full_def demo_header_fields demo_writer_def xm_shm_format_create_def)
  qed
  ultimately have "rc = PutOk" by (cases rc) auto
  then show ?thesis using p by blast
qed

section \<open>Properties\<close>

text \<open>Property C4. What the writer puts and flushes is what a reader of the Java interface gets: all
  records, in order, with their types and bytes.\<close>

theorem shm_records_delivered:
  assumes "writer_rel base fmt w [] None" "\<forall>d \<in> set ds. length (snd d) < 2 ^ 31"
    "put_records fmt w ds = Some (fmt1, w1)" "xm_shm_format_flush fmt1 w1 = (fmt2, w2)"
    "\<not> eiter c" "\<not> is_write (fmt_shm_int (shm_fmt c))"
    "shm_address_get (fmt_shm_int (shm_fmt c)) = memory_address_get base"
  shows "\<exists>n res c' w'. entry_reads n c w2 = (res, c', w') \<and> records_of res = ds \<and>
    fst (entry_read c' w') = ReadNone"
proof -
  obtain bs1 cur1 where 1: "writer_rel base fmt1 w1 bs1 cur1"
    "concat bs1 @ cur_list cur1 = map (\<lambda>(t, d). entry_record_of t d) ds"
    using put_records_log [OF assms(1-3)] by auto
  obtain bs2 cur2 where 2: "writer_rel base fmt2 w2 bs2 cur2" "concat bs2 = map (\<lambda>(t, d). entry_record_of t d) ds"
    using flush_log [OF 1(1) assms(4)] 1(2) by auto
  have rel: "reader_rel base c w2 bs2" by (rule writer_to_reader [OF 2(1) assms(5-7)])
  obtain c' w' where r: "entry_reads (length (concat bs2) + length bs2) c w2 = (concat (map block_results bs2), c', w')"
    "reader_rel base c' w' []" using read_blocks [OF rel] by blast
  moreover have "records_of (concat (map block_results bs2)) = ds"
    unfolding records_of_blocks 2(2) by (simp add: entry_record_of_def case_prod_beta comp_def)
  ultimately show ?thesis using read_nothing by blast
qed

theorem shm_records_delivered_witness:
  "\<exists>fmt1 w1 n res c' w'. put_records demo_writer demo_world [(1, [1, 2, 3])] = Some (fmt1, w1) \<and>
     entry_reads n demo_reader (snd (xm_shm_format_flush fmt1 w1)) = (res, c', w') \<and> records_of res = [(1, [1, 2, 3])]"
proof -
  obtain fmt1 w1 where p: "put_records demo_writer demo_world [(1, [1, 2, 3])] = Some (fmt1, w1)"
    using demo_put by auto
  obtain fmt2 w2 where f: "xm_shm_format_flush fmt1 w1 = (fmt2, w2)" by (cases "xm_shm_format_flush fmt1 w1")
  show ?thesis
    using p f shm_records_delivered [OF demo_writer_rel _ p f, of demo_reader]
    by (auto simp: demo_reader_def xm_shm_format_create_def)
qed

text \<open>Property C27. Putting a record into the shared format appends it to the log of records (the
  blocks in the ring, then the entry being filled) or leaves the log as it is: the latter when
  the ring is full, and exactly when the record is too large for an entry is it refused for
  good.\<close>

theorem shm_put_appends:
  assumes "writer_rel base fmt w bs cur" "length data < 2 ^ 31"
    "xm_shm_format_put fmt w (entry_record_of type data) = (rc, fmt', w')"
  shows "\<exists>bs' cur'. writer_rel base fmt' w' bs' cur' \<and>
    concat bs' @ cur_list cur' = concat bs @ cur_list cur @
      (if rc = PutOk then [entry_record_of type data] else []) \<and>
    length bs' \<le> length bs + 1 \<and> (rc = PutFull \<longrightarrow> length bs' = ring_count (ring_of base w)) \<and>
    (rc = PutTooLarge \<longleftrightarrow> unat (fmt_entry_size fmt) < 41 + length data)"
proof -
  have "length (rcd_bytes (entry_record_of type data)) = 21 + length data" by (simp add: entry_record_of_def)
  then show ?thesis
    using put_log [OF assms(1) entry_record_ok [OF assms(2)] assms(3)] by (elim exE conjE) (intro exI conjI, auto)
qed

theorem shm_put_appends_witness:
  "\<exists>rc fmt w bs cur. xm_shm_format_put demo_writer demo_world (entry_record_of 1 [1, 2, 3]) = (rc, fmt, w) \<and>
    writer_rel 0x10000 fmt w bs cur \<and> concat bs @ cur_list cur = [entry_record_of 1 [1, 2, 3]]"
proof -
  obtain fmt w where "xm_shm_format_put demo_writer demo_world (entry_record_of 1 [1, 2, 3]) = (PutOk, fmt, w)"
    using demo_put by blast
  then show ?thesis using shm_put_appends [OF demo_writer_rel, of "[1, 2, 3]" 1] by fastforce
qed

text \<open>A flush commits all records that were put, and also an entry without any record:
  the test for an empty entry never holds because the cursor starts behind the header.\<close>

theorem shm_flush_commits:
  assumes "writer_rel base fmt w bs cur" "xm_shm_format_flush fmt w = (fmt', w')"
  shows "\<exists>bs' cur'. writer_rel base fmt' w' bs' cur' \<and> concat bs' = concat bs @ cur_list cur \<and>
    cur_list cur' = [] \<and> length bs' = (if cur = None then length bs else Suc (length bs))"
proof -
  obtain bs' cur' where "writer_rel base fmt' w' bs' cur'" "concat bs' = concat bs @ cur_list cur"
    "cur_list cur' = []" "bs' = (case cur of None \<Rightarrow> bs | Some rs \<Rightarrow> bs @ [rs])"
    using flush_log [OF assms] by blast
  then show ?thesis by (intro exI [of _ bs'] exI [of _ cur']) (auto split: option.splits)
qed

theorem shm_flush_commits_witness:
  "\<exists>fmt w bs cur. xm_shm_format_flush demo_writer demo_world = (fmt, w) \<and>
    writer_rel 0x10000 fmt w bs cur \<and> concat bs = [] \<and> cur_list cur = [] \<and> length bs = 0"
proof -
  obtain fmt w where f: "xm_shm_format_flush demo_writer demo_world = (fmt, w)"
    by (cases "xm_shm_format_flush demo_writer demo_world")
  then show ?thesis using shm_flush_commits [OF demo_writer_rel f] by auto
qed

end
