(* ===== verification/Store.thy ===== *)
theory Store
  imports Shmformat
begin

text \<open>
  The result store of \<open>src/xm_store.[ch]\<close>: a result is packed with the msgpack library into a
  buffer and put as one record into the shared memory.  The library is not part of the
  repository: the buffer is the sequence of calls made to it, and what bytes a call appends is
  the argument \<open>pack\<close> of the functions that need them.
\<close>

section \<open>State\<close>

datatype msgpack_call =
    PackStr u64 | PackStrBody string | PackBin u64 | PackBinBody "u8 list"
  | PackMap u64 | PackArray u64
  | PackUnsignedInt u32 | PackUint8 u8 | PackUint16 u16 | PackUint32 u32 | PackUint64 u64

record xm_store =
  store_shm_fmt :: xm_shm_format
  pk_buf :: "msgpack_call list"
  shm_last_time :: u64
  shm_flush_timeout :: u64

section \<open>Packing\<close>

definition pk :: "xm_store \<Rightarrow> msgpack_call \<Rightarrow> xm_store" where
  "pk xstore c = xstore\<lparr>pk_buf := pk_buf xstore @ [c]\<rparr>"

text \<open>A key is a string that may be \<open>NULL\<close>.\<close>

definition str_empty :: "string option \<Rightarrow> bool" where
  "str_empty v \<longleftrightarrow> (case v of None \<Rightarrow> True | Some s \<Rightarrow> length s = 0)"

definition xm_store_write_str :: "xm_store \<Rightarrow> string \<Rightarrow> xm_store" where
  "xm_store_write_str xstore str =
     (let len = of_nat (length str) in pk (pk xstore (PackStr len)) (PackStrBody str))"

definition write_key :: "xm_store \<Rightarrow> string option \<Rightarrow> xm_store" where
  "write_key xstore k = (if \<not> str_empty k then xm_store_write_str xstore (the k) else xstore)"

definition xm_store_write_bin :: "xm_store \<Rightarrow> u8 list \<Rightarrow> xm_store" where
  "xm_store_write_bin xstore data =
     pk (pk xstore (PackBin (of_nat (length data)))) (PackBinBody data)"

definition xm_store_write_bin_kv :: "xm_store \<Rightarrow> string option \<Rightarrow> u8 list \<Rightarrow> xm_store" where
  "xm_store_write_bin_kv xstore k data = xm_store_write_bin (write_key xstore k) data"

definition xm_store_write_kv :: "xm_store \<Rightarrow> string \<Rightarrow> string option \<Rightarrow> xm_store" where
  "xm_store_write_kv xstore k v =
     xm_store_write_str (xm_store_write_str xstore k) (case v of None \<Rightarrow> [] | Some s \<Rightarrow> s)"

text \<open>\<open>digits\<close> is the text that \<open>snprintf\<close> makes of the number.\<close>

definition xm_store_write_number_str :: "(u64 \<Rightarrow> string) \<Rightarrow> xm_store \<Rightarrow> string \<Rightarrow> u64 \<Rightarrow> xm_store" where
  "xm_store_write_number_str digits xstore k number =
     xm_store_write_kv xstore k (Some (take 126 (digits number)))"

definition xm_store_map_start :: "xm_store \<Rightarrow> string option \<Rightarrow> u64 \<Rightarrow> xm_store" where
  "xm_store_map_start xstore k n = pk (write_key xstore k) (PackMap n)"

definition xm_store_write_uint :: "xm_store \<Rightarrow> string option \<Rightarrow> u32 \<Rightarrow> xm_store" where
  "xm_store_write_uint xstore k v = pk (write_key xstore k) (PackUnsignedInt v)"

definition xm_store_write_uint8 :: "xm_store \<Rightarrow> string option \<Rightarrow> u8 \<Rightarrow> xm_store" where
  "xm_store_write_uint8 xstore k v = pk (write_key xstore k) (PackUint8 v)"

definition xm_store_write_uint16 :: "xm_store \<Rightarrow> string option \<Rightarrow> u16 \<Rightarrow> xm_store" where
  "xm_store_write_uint16 xstore k v = pk (write_key xstore k) (PackUint16 v)"

definition xm_store_write_uint32 :: "xm_store \<Rightarrow> string option \<Rightarrow> u32 \<Rightarrow> xm_store" where
  "xm_store_write_uint32 xstore k v = pk (write_key xstore k) (PackUint32 v)"

definition xm_store_write_uint64 :: "xm_store \<Rightarrow> string option \<Rightarrow> u64 \<Rightarrow> xm_store" where
  "xm_store_write_uint64 xstore k v = pk (write_key xstore k) (PackUint64 v)"

definition xm_store_array_start :: "xm_store \<Rightarrow> string option \<Rightarrow> u64 \<Rightarrow> xm_store" where
  "xm_store_array_start xstore k n = pk (write_key xstore k) (PackArray n)"

section \<open>Creating and flushing\<close>

text \<open>\<open>xm_shm_format_with_mmap_create\<close>: the entry size of the format is the one asked for, that of
  the ring is rounded up to pages.\<close>

definition xm_shm_format_with_mmap_create ::
  "shm_system \<Rightarrow> xm_shm_header \<Rightarrow> string \<Rightarrow> u64 \<Rightarrow> u64 \<Rightarrow> u64 \<Rightarrow> bool
   \<Rightarrow> (xm_shm_format \<times> xm_shm_header) option" where
  "xm_shm_format_with_mmap_create sys mh fname fsize entry_sz priv_data_size w =
     (case xm_shm_mmap_create sys mh fname fsize entry_sz priv_data_size w of
        None \<Rightarrow> None
      | Some (shm_int, mh) \<Rightarrow>
          Some (xm_shm_format_create shm_int (ucast entry_sz) (ucast XM_SHM_ENTRY_RECORD_HEADER_SIZE), mh))"

definition xm_shm_format_with_shm_create ::
  "shm_system \<Rightarrow> xm_shm_header \<Rightarrow> string \<Rightarrow> int \<Rightarrow> u64 \<Rightarrow> u64 \<Rightarrow> u64 \<Rightarrow> bool
   \<Rightarrow> (xm_shm_format \<times> xm_shm_header) option" where
  "xm_shm_format_with_shm_create sys mh key proj_id sz entry_sz priv_data_size w =
     (case xm_shm_memory_create sys mh key proj_id sz entry_sz priv_data_size w of
        None \<Rightarrow> None
      | Some (shm_int, mh) \<Rightarrow>
          Some (xm_shm_format_create shm_int (ucast entry_sz) (ucast XM_SHM_ENTRY_RECORD_HEADER_SIZE), mh))"

text \<open>\<open>timems\<close> is the current time in milliseconds.\<close>

definition xm_store_create ::
  "shm_system \<Rightarrow> xm_shm_header \<Rightarrow> u64 \<Rightarrow> string \<Rightarrow> u64 \<Rightarrow> u64 \<Rightarrow> u64 \<Rightarrow> (xm_store \<times> xm_shm_header) option" where
  "xm_store_create sys mh timems shm_fname shm_fsize fentry_size flush_timeout =
     (case xm_shm_format_with_mmap_create sys mh shm_fname shm_fsize fentry_size 0 True of
        None \<Rightarrow> None
      | Some (fmt, mh) \<Rightarrow>
          Some (\<lparr>store_shm_fmt = fmt, pk_buf = [], shm_last_time = timems div 1000,
             shm_flush_timeout = flush_timeout\<rparr>, mh))"

definition xstore_shm_flush :: "u64 \<Rightarrow> xm_store \<Rightarrow> shm_world \<Rightarrow> xm_store \<times> shm_world" where
  "xstore_shm_flush timems xstore w =
     (let cur_time = timems div 1000
      in if cur_time - shm_last_time xstore > shm_flush_timeout xstore
         then (let (fmt, w) = xm_shm_format_flush (store_shm_fmt xstore) w
               in (xstore\<lparr>store_shm_fmt := fmt, shm_last_time := cur_time\<rparr>, w))
         else (xstore, w))"

text \<open>\<open>xm_store_flush\<close>: \<open>None\<close> when the writer waits for a reader that never comes.\<close>

definition xm_store_flush ::
  "(msgpack_call \<Rightarrow> u8 list) \<Rightarrow> (shm_world \<Rightarrow> shm_world) \<Rightarrow> u64 \<Rightarrow> xm_store \<Rightarrow> shm_world \<Rightarrow> u8
   \<Rightarrow> (xm_store \<times> shm_world) option" where
  "xm_store_flush pack reader timems xstore w type =
     (let data = concat (map pack (pk_buf xstore))
      in case xm_shm_entry_record_put reader (store_shm_fmt xstore) w type data of
           None \<Rightarrow> None
         | Some (rc, fmt, w) \<Rightarrow>
             Some (xstore_shm_flush timems (xstore\<lparr>store_shm_fmt := fmt, pk_buf := []\<rparr>) w))"

section \<open>Complete values\<close>

text \<open>\<open>complete n cs\<close>: the calls \<open>cs\<close> pack exactly \<open>n\<close> msgpack values.\<close>

fun complete :: "nat \<Rightarrow> msgpack_call list \<Rightarrow> bool" where
  "complete n [] \<longleftrightarrow> n = 0"
| "complete 0 (c # cs) \<longleftrightarrow> False"
| "complete (Suc n) (PackStr l # PackStrBody s # cs) \<longleftrightarrow> l = of_nat (length s) \<and> complete n cs"
| "complete (Suc n) (PackBin l # PackBinBody d # cs) \<longleftrightarrow> l = of_nat (length d) \<and> complete n cs"
| "complete (Suc n) (PackMap k # cs) \<longleftrightarrow> complete (n + 2 * unat k) cs"
| "complete (Suc n) (PackArray k # cs) \<longleftrightarrow> complete (n + unat k) cs"
| "complete (Suc n) (PackUnsignedInt v # cs) \<longleftrightarrow> complete n cs"
| "complete (Suc n) (PackUint8 v # cs) \<longleftrightarrow> complete n cs"
| "complete (Suc n) (PackUint16 v # cs) \<longleftrightarrow> complete n cs"
| "complete (Suc n) (PackUint32 v # cs) \<longleftrightarrow> complete n cs"
| "complete (Suc n) (PackUint64 v # cs) \<longleftrightarrow> complete n cs"
| "complete (Suc n) cs \<longleftrightarrow> False"

lemmas store_defs =
  pk_def xm_store_write_str_def write_key_def str_empty_def xm_store_write_kv_def xm_store_map_start_def
  xm_store_write_uint8_def xm_store_write_uint16_def xm_store_write_uint32_def xm_store_write_uint64_def Let_def

text \<open>A timed flush changes nothing of the log.\<close>

lemma shm_flush_rel:
  assumes "writer_rel base (store_shm_fmt xstore) w bs cur" "xstore_shm_flush timems xstore w = (xstore', w')"
  shows "\<exists>bs' cur'. writer_rel base (store_shm_fmt xstore') w' bs' cur' \<and>
    concat bs' @ cur_list cur' = concat bs @ cur_list cur \<and> pk_buf xstore' = pk_buf xstore \<and>
    length bs' \<le> length bs + 1 \<and> frame (store_shm_fmt xstore') w' = frame (store_shm_fmt xstore) w \<and>
    (timems div 1000 - shm_last_time xstore \<le> shm_flush_timeout xstore \<longrightarrow> bs' = bs)"
proof (cases "timems div 1000 - shm_last_time xstore > shm_flush_timeout xstore")
  case True
  obtain fmt w1 where f: "xm_shm_format_flush (store_shm_fmt xstore) w = (fmt, w1)"
    by (cases "xm_shm_format_flush (store_shm_fmt xstore) w")
  obtain bs' cur' where "writer_rel base fmt w1 bs' cur'" "concat bs' = concat bs @ cur_list cur" "cur_list cur' = []"
    "length bs' \<le> length bs + 1"
    using flush_log [OF assms(1) f] by (cases cur) auto
  moreover have "xstore' = xstore\<lparr>store_shm_fmt := fmt, shm_last_time := timems div 1000\<rparr>" "w' = w1"
    using assms(2) True f by (simp_all add: xstore_shm_flush_def)
  ultimately show ?thesis using flush_frame [OF f] True
    by (intro exI [of _ bs'] exI [of _ cur']) (simp add: not_le [symmetric])
next
  case False
  then have "xstore' = xstore" "w' = w" using assms(2) by (auto simp: xstore_shm_flush_def Let_def)
  then show ?thesis using assms(1) by (intro exI [of _ bs] exI [of _ cur]) simp
qed

text \<open>Flushing a result into the shared memory while the ring has room appends one
  record with the packed bytes to the log and empties the buffer; a result larger than an entry
  is dropped and the log stays as it is.\<close>

lemma store_flush_logs:
  assumes "writer_rel base (store_shm_fmt xstore) w bs cur" "length bs + 1 < ring_count (ring_of base w)"
    "length (concat (map pack (pk_buf xstore))) < 2 ^ 31"
  shows "\<exists>xstore' w' bs' cur'. xm_store_flush pack reader timems xstore w type = Some (xstore', w') \<and>
    pk_buf xstore' = [] \<and> writer_rel base (store_shm_fmt xstore') w' bs' cur' \<and>
    concat bs' @ cur_list cur' = concat bs @ cur_list cur @
      (if unat (fmt_entry_size (store_shm_fmt xstore)) < 41 + length (concat (map pack (pk_buf xstore))) then []
       else [entry_record_of type (concat (map pack (pk_buf xstore)))]) \<and>
    length bs' \<le> length bs + 2 \<and> frame (store_shm_fmt xstore') w' = frame (store_shm_fmt xstore) w \<and>
    (cur = None \<longrightarrow> timems div 1000 - shm_last_time xstore \<le> shm_flush_timeout xstore \<longrightarrow> bs' = bs)"
proof -
  let ?d = "concat (map pack (pk_buf xstore))"
  obtain rc fmt1 w1 where p: "xm_shm_format_put (store_shm_fmt xstore) w (entry_record_of type ?d) = (rc, fmt1, w1)"
    by (metis prod_cases3)
  obtain bs1 cur1 where 1: "writer_rel base fmt1 w1 bs1 cur1"
    "concat bs1 @ cur_list cur1 = concat bs @ cur_list cur @ (if rc = PutOk then [entry_record_of type ?d] else [])"
    "length bs1 \<le> length bs + 1" "cur = None \<longrightarrow> bs1 = bs" "rc = PutFull \<longrightarrow> length bs1 = ring_count (ring_of base w)"
    "rc = PutTooLarge \<longleftrightarrow> unat (fmt_entry_size (store_shm_fmt xstore)) < 41 + length ?d"
    using put_log [OF assms(1) entry_record_ok [OF assms(3)] p] by (auto simp: entry_record_of_def)
  have nf: "rc \<noteq> PutFull" using 1(3,5) assms(2) by auto
  then have put: "xm_shm_entry_record_put reader (store_shm_fmt xstore) w type ?d = Some (rc, fmt1, w1)"
    by (simp add: xm_shm_entry_record_put_def p put_loop.simps)
  define x1 where "x1 = xstore\<lparr>store_shm_fmt := fmt1, pk_buf := []\<rparr>"
  obtain x2 w2 where f: "xstore_shm_flush timems x1 w1 = (x2, w2)" by (cases "xstore_shm_flush timems x1 w1")
  have "writer_rel base (store_shm_fmt x1) w1 bs1 cur1" using 1(1) by (simp add: x1_def)
  then obtain bs2 cur2 where "writer_rel base (store_shm_fmt x2) w2 bs2 cur2"
    "concat bs2 @ cur_list cur2 = concat bs1 @ cur_list cur1" "pk_buf x2 = []" "length bs2 \<le> length bs1 + 1"
    "frame (store_shm_fmt x2) w2 = frame fmt1 w1"
    "timems div 1000 - shm_last_time xstore \<le> shm_flush_timeout xstore \<longrightarrow> bs2 = bs1"
    using shm_flush_rel [OF _ f] by (fastforce simp: x1_def)
  moreover have "xm_store_flush pack reader timems xstore w type = Some (x2, w2)"
    using put f by (simp add: xm_store_flush_def Let_def x1_def)
  ultimately show ?thesis
    using 1(2,3,4,6) nf put_frame [OF p] by (cases rc) (auto intro!: exI [of _ bs2] exI [of _ cur2])
qed

definition demo_store :: xm_store where
  "demo_store = \<lparr>store_shm_fmt = demo_writer, pk_buf = [PackUint8 5], shm_last_time = 0, shm_flush_timeout = 10\<rparr>"

end
