(* ===== verification/Reader.thy ===== *)
theory Reader
  imports Store
begin

text \<open>
  The readers of the Java interface, \<open>api/java/jni/xm_entry_reader.c\<close>: a table of contexts that Java
  addresses by number, each opened on a mapped file or on a shared segment, read record by record
  and closed.  Reading itself is in \<open>Shmformat\<close>.
\<close>

section \<open>State and operations\<close>

text \<open>The pointers of a context are \<open>NULL\<close> until it is opened; \<open>close\<close> frees what they point to and
  leaves them as they are.\<close>

datatype reader_slot = Unopened | Opened reader_context | Freed

type_synonym reader_table = "reader_slot list"

definition MAX_ENTRY_RCD_CONTEXT_N :: nat where "MAX_ENTRY_RCD_CONTEXT_N = 64"

definition entry_rcd_contexts :: reader_table where
  "entry_rcd_contexts = replicate MAX_ENTRY_RCD_CONTEXT_N Unopened"

definition entry_rcd_context_get :: "int \<Rightarrow> nat option" where
  "entry_rcd_context_get rid = (if rid \<ge> int MAX_ENTRY_RCD_CONTEXT_N \<or> rid < 0 then None else Some (nat rid))"

text \<open>What is opened has no iterator; a context that is already open is overwritten.\<close>

definition slot_open :: "(xm_shm_format \<times> xm_shm_header) option \<Rightarrow> nat \<Rightarrow> shm_world \<Rightarrow> reader_table
    \<Rightarrow> int \<times> shm_world \<times> reader_table" where
  "slot_open made i w tab =
     (case made of
        None \<Rightarrow> (- 1, w, tab)
      | Some (fmt, mh) \<Rightarrow> (0, w\<lparr>w_hdr := mh\<rparr>, tab[i := Opened \<lparr>shm_fmt = fmt, eiter = False\<rparr>]))"

definition openMMap :: "shm_system \<Rightarrow> int \<Rightarrow> string option \<Rightarrow> shm_world \<Rightarrow> reader_table \<Rightarrow> int \<times> shm_world \<times> reader_table" where
  "openMMap sys rid jfname w tab =
     (case (entry_rcd_context_get rid, jfname) of
        (Some i, Some fname) \<Rightarrow>
          if fname = [] then (- 1, w, tab)
          else slot_open (xm_shm_format_with_mmap_create sys (w_hdr w) fname 0 0 0 False) i w tab
      | _ \<Rightarrow> (- 1, w, tab))"

definition openSHM :: "shm_system \<Rightarrow> int \<Rightarrow> string option \<Rightarrow> int \<Rightarrow> shm_world \<Rightarrow> reader_table \<Rightarrow> int \<times> shm_world \<times> reader_table" where
  "openSHM sys rid key proj_id w tab =
     (case (entry_rcd_context_get rid, key) of
        (Some i, Some open_key) \<Rightarrow>
          if open_key = [] then (- 1, w, tab)
          else slot_open (xm_shm_format_with_shm_create sys (w_hdr w) open_key proj_id 0 0 0 False) i w tab
      | _ \<Rightarrow> (- 1, w, tab))"

text \<open>\<open>read\<close>: its result with the record it stores in the Java object.  \<open>None\<close> is the use of a
  pointer that is \<open>NULL\<close> or freed.\<close>

definition read_code :: "read_result \<Rightarrow> int \<times> (u8 \<times> u8 list) option" where
  "read_code r = (case r of ReadRecord t d \<Rightarrow> (0, Some (t, d)) | ReadEnd \<Rightarrow> (- 1, None) | ReadNone \<Rightarrow> (- 2, None))"

definition java_read :: "int \<Rightarrow> shm_world \<Rightarrow> reader_table
    \<Rightarrow> ((int \<times> (u8 \<times> u8 list) option) \<times> shm_world \<times> reader_table) option" where
  "java_read rid w tab =
     (case entry_rcd_context_get rid of
        None \<Rightarrow> Some ((- 1, None), w, tab)
      | Some i \<Rightarrow>
          (case tab ! i of
             Opened c \<Rightarrow> (let (r, c, w) = entry_read c w in Some (read_code r, w, tab[i := Opened c]))
           | _ \<Rightarrow> None))"

text \<open>\<open>close\<close> commits the block of an open iterator.\<close>

definition java_close :: "int \<Rightarrow> shm_world \<Rightarrow> reader_table \<Rightarrow> (shm_world \<times> reader_table) option" where
  "java_close rid w tab =
     (case entry_rcd_context_get rid of
        None \<Rightarrow> Some (w, tab)
      | Some i \<Rightarrow>
          (case tab ! i of
             Opened c \<Rightarrow>
               (let w = (if eiter c then snd (xm_shm_entry_iterator_commit (shm_fmt c) w) else w)
                in Some (w, tab[i := Freed]))
           | _ \<Rightarrow> None))"

fun java_reads :: "nat \<Rightarrow> int \<Rightarrow> shm_world \<Rightarrow> reader_table
    \<Rightarrow> ((int \<times> (u8 \<times> u8 list) option) list \<times> shm_world \<times> reader_table) option" where
  "java_reads 0 rid w tab = Some ([], w, tab)"
| "java_reads (Suc n) rid w tab =
     Option.bind (java_read rid w tab) (\<lambda>(r, w, tab). map_option (\<lambda>(rs, w, tab). (r # rs, w, tab)) (java_reads n rid w tab))"

section \<open>Reading through the table\<close>

lemma java_reads_entry:
  assumes "entry_rcd_context_get rid = Some i" "i < length tab" "tab ! i = Opened c"
  shows "java_reads n rid w tab =
    (let (rs, c, w) = entry_reads n c w in Some (map read_code rs, w, tab[i := Opened c]))"
  using assms
proof (induction n arbitrary: c w tab)
  case 0
  then have "tab[i := Opened c] = tab" by (metis list_update_id)
  then show ?case by simp
next
  case (Suc n)
  obtain r c1 w1 where e: "entry_read c w = (r, c1, w1)" by (metis prod_cases3)
  obtain rs c2 w2 where es: "entry_reads n c1 w1 = (rs, c2, w2)" by (metis prod_cases3)
  have "java_read rid w tab = Some (read_code r, w1, tab[i := Opened c1])"
    using Suc.prems by (simp add: java_read_def e)
  moreover have "java_reads n rid w1 (tab[i := Opened c1]) = Some (map read_code rs, w2, tab[i := Opened c2])"
    using Suc.IH [of "tab[i := Opened c1]" c1 w1] Suc.prems es by simp
  ultimately show ?case using e es by simp
qed

text \<open>Some of the records of the open block.\<close>

lemma read_some:
  "open_rel base c w rs bs \<Longrightarrow> n \<le> length rs \<Longrightarrow>
   \<exists>c'. entry_reads n c w = (map (\<lambda>r. ReadRecord (r_type r) (r_data r)) (take n rs), c', w) \<and>
     open_rel base c' w (drop n rs) bs"
proof (induction n arbitrary: c rs)
  case (Suc n)
  then obtain r rs' where rs: "rs = r # rs'" by (cases rs) auto
  obtain c1 where c1: "entry_read c w = (ReadRecord (r_type r) (r_data r), c1, w)" "open_rel base c1 w rs' bs"
    using read_open_record Suc.prems(1) rs by blast
  then show ?case using Suc.IH [OF c1(2)] Suc.prems(2) rs by auto
qed simp

lemma reads_open_block:
  assumes "reader_rel base c w (rs # bs)" "0 < n" "n \<le> length rs"
  shows "\<exists>c' w'. entry_reads n c w = (map (\<lambda>r. ReadRecord (r_type r) (r_data r)) (take n rs), c', w') \<and>
    open_rel base c' w' (drop n rs) bs"
proof -
  obtain c1 w1 where o: "entry_read c w = entry_read c1 w1" "open_rel base c1 w1 rs bs"
    using open_block [OF assms(1)] by blast
  have "entry_reads n c w = entry_reads n c1 w1" using assms(2) o(1) by (cases n) simp_all
  then show ?thesis using read_some [OF o(2) assms(3)] by auto
qed

text \<open>Committing the open block leaves those behind it, for any reader.\<close>

definition fresh_reader :: "u64 \<Rightarrow> reader_context \<Rightarrow> bool" where
  "fresh_reader base c \<longleftrightarrow> \<not> eiter c \<and> \<not> is_write (fmt_shm_int (shm_fmt c)) \<and>
     shm_address_get (fmt_shm_int (shm_fmt c)) = memory_address_get base"

lemma reads_then_close:
  assumes "reader_rel base c w (rs # bs)" "0 < n" "n \<le> length rs" "fresh_reader base c'"
    "entry_rcd_context_get rid = Some i" "i < length tab" "tab ! i = Opened c"
  shows "\<exists>w1 tab1 w2 tab2. java_reads n rid w tab = Some (map (\<lambda>r. (0, Some (r_type r, r_data r))) (take n rs), w1, tab1) \<and>
    java_close rid w1 tab1 = Some (w2, tab2) \<and> tab2 = tab[i := Freed] \<and> reader_rel base c' w2 bs"
proof -
  obtain c1 w1 where r: "entry_reads n c w = (map (\<lambda>r. ReadRecord (r_type r) (r_data r)) (take n rs), c1, w1)"
    "open_rel base c1 w1 (drop n rs) bs" using reads_open_block [OF assms(1-3)] by blast
  obtain fmt w2 where c: "xm_shm_entry_iterator_commit (shm_fmt c1) w1 = (fmt, w2)"
    "reader_rel base (c1\<lparr>shm_fmt := fmt, eiter := False\<rparr>) w2 bs" using commit_open_block [OF r(2)] by blast
  have "eiter c1" using r(2) by (simp add: open_rel_def)
  then have "java_close rid w1 (tab[i := Opened c1]) = Some (w2, tab[i := Freed])"
    using assms(5,6) c(1) by (simp add: java_close_def)
  moreover have "java_reads n rid w tab = Some (map (\<lambda>r. (0, Some (r_type r, r_data r))) (take n rs), w1, tab[i := Opened c1])"
    using java_reads_entry [OF assms(5-7), of n w] r(1) by (simp add: read_code_def comp_def)
  moreover have "reader_rel base c' w2 bs" using c(2) assms(4) by (simp add: reader_rel_def fresh_reader_def)
  ultimately show ?thesis by blast
qed

section \<open>Properties\<close>

text \<open>Property C29. Closing a reader in the middle of a block loses the rest of the block: whoever opens the
  shared memory next gets the records of the blocks behind it and nothing else.\<close>

theorem close_loses_rest:
  assumes "reader_rel base c w (rs # bs)" "0 < n" "n \<le> length rs" "fresh_reader base c'"
    "entry_rcd_context_get rid = Some i" "i < length tab" "tab ! i = Opened c"
  shows "\<exists>w1 tab1 w2 tab2 res c2 w3.
    java_reads n rid w tab = Some (map (\<lambda>r. (0, Some (r_type r, r_data r))) (take n rs), w1, tab1) \<and>
    java_close rid w1 tab1 = Some (w2, tab2) \<and>
    entry_reads (length (concat bs) + length bs) c' w2 = (res, c2, w3) \<and>
    records_of res = map (\<lambda>r. (r_type r, r_data r)) (concat bs) \<and> fst (entry_read c2 w3) = ReadNone"
proof -
  obtain w1 tab1 w2 tab2 where r: "java_reads n rid w tab = Some (map (\<lambda>r. (0, Some (r_type r, r_data r))) (take n rs), w1, tab1)"
    "java_close rid w1 tab1 = Some (w2, tab2)" "reader_rel base c' w2 bs"
    using reads_then_close [OF assms] by blast
  obtain c2 w3 where "entry_reads (length (concat bs) + length bs) c' w2 = (concat (map block_results bs), c2, w3)"
    "reader_rel base c2 w3 []" using read_blocks [OF r(3)] by blast
  then show ?thesis using r(1,2) read_nothing by (auto simp: records_of_blocks)
qed

text \<open>A ring with one block of two records, opened as context 3.\<close>

definition demo_records :: "xm_shm_entry_record list" where
  "demo_records = [entry_record_of 1 [1, 2, 3], entry_record_of 2 [4]]"

definition demo_block_world :: shm_world where
  "demo_block_world = \<lparr>w_hdr = demo_header\<lparr>shm_entries_count_cur := 1, shm_write_entry_pos := 1\<rparr>,
     w_mem = mem_write (\<lambda>a. 0) 0x11000 (header_bytes demo_records @ concat (map rcd_bytes demo_records)), w_time = 0\<rparr>"

definition demo_table :: reader_table where
  "demo_table = entry_rcd_contexts[3 := Opened demo_reader]"

lemma demo_block: "reader_rel 0x10000 demo_reader demo_block_world [demo_records]"
proof -
  let ?q = "ring_of 0x10000 demo_block_world"
  let ?bs = "header_bytes demo_records @ concat (map rcd_bytes demo_records)"
  have f: "ring_count ?q = 15" "ring_size ?q = 4096" "ring_start ?q = 0x11000"
    by (simp_all add: ring_count_def ring_size_def ring_start_def ring_of_def demo_block_world_def demo_header_fields)
  have inv: "ring_inv ?q"
    unfolding ring_inv_def f by (simp add: ring_of_def demo_block_world_def demo_header_fields)
  have queue: "ring_queue ?q = [mem_bytes (mem_write (\<lambda>a. 0) 0x11000 ?bs) 0x11000 4096]"
    by (simp add: ring_queue_def f slot_def) (simp add: ring_of_def demo_block_world_def demo_header_fields)
  have len: "length ?bs \<le> 4096" by (simp add: demo_records_def entry_record_of_def)
  then have "mem_bytes (mem_write (\<lambda>a. 0) 0x11000 ?bs) 0x11000 (length ?bs + (4096 - length ?bs)) =
      ?bs @ mem_bytes (mem_write (\<lambda>a. 0) 0x11000 ?bs) (0x11000 + of_nat (length ?bs)) (4096 - length ?bs)"
    by (subst mem_bytes_append) (simp del: length_append)
  then have "block_ok demo_records (mem_bytes (mem_write (\<lambda>a. 0) 0x11000 ?bs) 0x11000 4096)"
    using len by (auto simp: block_ok_def simp del: length_append)
  then show ?thesis
    using inv f queue by (simp add: reader_rel_def demo_reader_def xm_shm_format_create_def)
qed

theorem close_loses_rest_witness:
  "\<exists>w1 tab1 w2 tab2 c2 w3. java_reads 1 3 demo_block_world demo_table = Some ([(0, Some (1, [1, 2, 3]))], w1, tab1) \<and>
    java_close 3 w1 tab1 = Some (w2, tab2) \<and> entry_reads 0 demo_reader w2 = ([], c2, w3) \<and>
    fst (entry_read c2 w3) = ReadNone"
proof -
  have a: "0 < (1 :: nat)" "1 \<le> length demo_records" "fresh_reader 0x10000 demo_reader"
    "entry_rcd_context_get 3 = Some 3" "3 < length demo_table" "demo_table ! 3 = Opened demo_reader"
    by (simp_all add: demo_records_def fresh_reader_def demo_reader_def xm_shm_format_create_def entry_rcd_context_get_def
      MAX_ENTRY_RCD_CONTEXT_N_def demo_table_def entry_rcd_contexts_def)
  show ?thesis
    using close_loses_rest [OF demo_block a] by (simp add: demo_records_def entry_record_of_def)
qed

end
