(* ===== verification/Segments.thy ===== *)
theory Segments
  imports Prelude
begin

text \<open>
  The life of the System V segments that hold the shared memory, \<open>lib/shm/xm_shm_memory.c\<close>: a
  writer removes the old segment of its key, unless somebody uses it, and makes a new one; readers
  attach to it; whoever detaches last removes it.  The segments are those of the operating
  system: the first section says what the system calls do to them.
\<close>

section \<open>System calls\<close>

text \<open>The segments in the order they were made, the place of one being its id.  A removed segment
  is no longer found by its key; it has gone when nobody is attached to it.\<close>

record segment =
  seg_key :: int
  seg_size :: u64
  shm_nattch :: nat
  seg_removed :: bool

type_synonym segments = "segment list"

definition shmget :: "segments \<Rightarrow> int \<Rightarrow> nat option" where
  "shmget segs k = find (\<lambda>i. seg_key (segs ! i) = k \<and> \<not> seg_removed (segs ! i)) [0..<length segs]"

definition seg_exists :: "segments \<Rightarrow> nat \<Rightarrow> bool" where
  "seg_exists segs i \<longleftrightarrow> i < length segs \<and> (seg_removed (segs ! i) \<longrightarrow> 0 < shm_nattch (segs ! i))"

text \<open>\<open>IPC_CREAT | IPC_EXCL\<close>; \<open>room\<close> is whether the system has the memory.\<close>

definition shmget_new :: "bool \<Rightarrow> segments \<Rightarrow> int \<Rightarrow> u64 \<Rightarrow> (nat \<times> segments) option" where
  "shmget_new room segs k sz =
     (if shmget segs k = None \<and> sz \<noteq> 0 \<and> room
      then Some (length segs, segs @ [\<lparr>seg_key = k, seg_size = sz, shm_nattch = 0, seg_removed = False\<rparr>])
      else None)"

definition shmat :: "bool \<Rightarrow> segments \<Rightarrow> nat \<Rightarrow> segments option" where
  "shmat room segs i =
     (if seg_exists segs i \<and> room
      then Some (segs[i := (segs ! i)\<lparr>shm_nattch := shm_nattch (segs ! i) + 1\<rparr>]) else None)"

definition shmdt :: "segments \<Rightarrow> nat \<Rightarrow> segments" where
  "shmdt segs i = segs[i := (segs ! i)\<lparr>shm_nattch := shm_nattch (segs ! i) - 1\<rparr>]"

definition ipc_stat :: "segments \<Rightarrow> nat \<Rightarrow> nat option" where
  "ipc_stat segs i = (if seg_exists segs i then Some (shm_nattch (segs ! i)) else None)"

definition ipc_rmid :: "segments \<Rightarrow> nat \<Rightarrow> segments" where
  "ipc_rmid segs i = segs[i := (segs ! i)\<lparr>seg_removed := True\<rparr>]"

section \<open>Operations\<close>

text \<open>\<open>_del_existed_shm\<close> in its two parts: \<open>Inl\<close> is its result, \<open>Inr\<close> the segment it goes on to remove.\<close>

definition del_check :: "segments \<Rightarrow> int \<Rightarrow> int + nat" where
  "del_check segs k =
     (case shmget segs k of
        None \<Rightarrow> Inl 0
      | Some i \<Rightarrow> (case ipc_stat segs i of
           None \<Rightarrow> Inl (- 1)
         | Some n \<Rightarrow> if n = 0 then Inr i else Inl (- 1)))"

definition del_existed_shm :: "segments \<Rightarrow> int \<Rightarrow> int \<times> segments" where
  "del_existed_shm segs k = (case del_check segs k of Inl rc \<Rightarrow> (rc, segs) | Inr i \<Rightarrow> (0, ipc_rmid segs i))"

text \<open>What the system grants to a call: the key that \<open>ftok\<close> makes of the path, the memory for a new
  segment, the room to attach it.\<close>

record ipc_grant =
  ftok :: "int option"
  room_new :: bool
  room_at :: bool

text \<open>The part of \<open>_create_shm_memory\<close> behind the removal, and the whole.\<close>

definition new_segment :: "ipc_grant \<Rightarrow> segments \<Rightarrow> int \<Rightarrow> u64 \<Rightarrow> nat option \<times> segments" where
  "new_segment g segs k sz =
     (case shmget_new (room_new g) segs k sz of
        None \<Rightarrow> (None, segs)
      | Some (i, segs) \<Rightarrow>
          (case shmat (room_at g) segs i of None \<Rightarrow> (None, segs) | Some segs \<Rightarrow> (Some i, segs)))"

definition create_shm_memory :: "ipc_grant \<Rightarrow> segments \<Rightarrow> u64 \<Rightarrow> nat option \<times> segments" where
  "create_shm_memory g segs sz =
     (case ftok g of
        None \<Rightarrow> (None, segs)
      | Some k \<Rightarrow>
          (let (rc, segs) = del_existed_shm segs k
           in if rc = - 1 then (None, segs) else new_segment g segs k sz))"

definition open_shm_memory :: "ipc_grant \<Rightarrow> segments \<Rightarrow> nat option \<times> segments" where
  "open_shm_memory g segs =
     (case ftok g of
        None \<Rightarrow> (None, segs)
      | Some k \<Rightarrow>
          (case shmget segs k of
             None \<Rightarrow> (None, segs)
           | Some i \<Rightarrow> (case shmat (room_at g) segs i of None \<Rightarrow> (None, segs) | Some segs \<Rightarrow> (Some i, segs))))"

text \<open>\<open>xm_shm_memory_destroy\<close> of a process attached to segment \<open>own\<close>; the flag says whether it detached.\<close>

definition shm_memory_destroy :: "ipc_grant \<Rightarrow> segments \<Rightarrow> nat \<Rightarrow> bool \<times> segments" where
  "shm_memory_destroy g segs own =
     (case Option.bind (ftok g) (shmget segs) of
        None \<Rightarrow> (False, segs)
      | Some i \<Rightarrow>
          (let segs = shmdt segs own
           in (True, if ipc_stat segs i = Some 0 then ipc_rmid segs i else segs)))"

section \<open>Processes\<close>

text \<open>The processes that share the memory of one path, and what they do; each operation is taken
  as one step.  A handle is the process with the segment it is attached to.\<close>

datatype shm_op = CreateShm nat u64 | OpenShm nat | DestroyShm nat

record shm_users =
  segs :: segments
  handles :: "(nat \<times> nat) list"

definition add_handle :: "nat \<Rightarrow> nat option \<times> segments \<Rightarrow> shm_users \<Rightarrow> shm_users" where
  "add_handle p r u = u\<lparr>segs := snd r, handles := (case fst r of None \<Rightarrow> handles u | Some i \<Rightarrow> (p, i) # handles u)\<rparr>"

fun shm_use :: "ipc_grant \<times> shm_op \<Rightarrow> shm_users \<Rightarrow> shm_users" where
  "shm_use (g, CreateShm p sz) u =
     (if map_of (handles u) p = None then add_handle p (create_shm_memory g (segs u) sz) u else u)"
| "shm_use (g, OpenShm p) u =
     (if map_of (handles u) p = None then add_handle p (open_shm_memory g (segs u)) u else u)"
| "shm_use (g, DestroyShm p) u =
     (case map_of (handles u) p of
        None \<Rightarrow> u
      | Some i \<Rightarrow>
          (let (detached, s) = shm_memory_destroy g (segs u) i
           in u\<lparr>segs := s, handles := (if detached then filter (\<lambda>h. fst h \<noteq> p) (handles u) else handles u)\<rparr>))"

section \<open>One segment for all\<close>

definition one_left :: "int \<Rightarrow> segments \<Rightarrow> bool" where
  "one_left k ss \<longleftrightarrow> (\<forall>s \<in> set ss. seg_key s = k) \<and>
     (\<forall>i < length ss. \<forall>j < length ss. \<not> seg_removed (ss ! i) \<longrightarrow> \<not> seg_removed (ss ! j) \<longrightarrow> i = j)"

lemma shmget_Some: "one_left k ss \<Longrightarrow> shmget ss k = Some i \<longleftrightarrow> i < length ss \<and> \<not> seg_removed (ss ! i)"
proof -
  assume o: "one_left k ss"
  let ?P = "\<lambda>i. seg_key (ss ! i) = k \<and> \<not> seg_removed (ss ! i)"
  have "shmget ss k = Some i \<longleftrightarrow> i < length ss \<and> ?P i \<and> (\<forall>j < i. \<not> ?P j)"
    by (auto simp: shmget_def find_Some_iff)
  moreover have "\<not> ?P j" if "i < length ss" "\<not> seg_removed (ss ! i)" "j < i" for j
    using o that unfolding one_left_def by (metis less_trans nat_neq_iff)
  moreover have "seg_key (ss ! i) = k" if "i < length ss" using o that by (simp add: one_left_def)
  ultimately show ?thesis by blast
qed

lemma shmget_None: "one_left k ss \<Longrightarrow> shmget ss k = None \<longleftrightarrow> (\<forall>i < length ss. seg_removed (ss ! i))"
  by (auto simp: shmget_def one_left_def find_None_iff)

lemma one_left_update:
  assumes "one_left k ss" "seg_key s = k" "seg_removed (ss ! i) \<longrightarrow> seg_removed s"
  shows "one_left k (ss[i := s])"
proof -
  have "\<forall>x \<in> set (ss[i := s]). seg_key x = k"
    using assms(1,2) set_update_subset_insert [of ss i s] by (auto simp: one_left_def)
  moreover have "\<not> seg_removed (ss ! j)" if "j < length ss" "\<not> seg_removed (ss[i := s] ! j)" for j
    using that assms(3) by (cases "j = i") auto
  ultimately show ?thesis using assms(1) by (simp add: one_left_def)
qed

lemma seg_key_nth: "one_left k ss \<Longrightarrow> i < length ss \<Longrightarrow> seg_key (ss ! i) = k"
  by (simp add: one_left_def)

definition users_inv :: "int \<Rightarrow> shm_users \<Rightarrow> bool" where
  "users_inv k u \<longleftrightarrow> one_left k (segs u) \<and> distinct (map fst (handles u)) \<and>
     (\<forall>h \<in> set (handles u). shmget (segs u) k = Some (snd h)) \<and>
     (\<forall>i < length (segs u). shm_nattch (segs u ! i) = length (filter (\<lambda>h. snd h = i) (handles u)))"

lemma inv_nattch:
  assumes "users_inv k u" "shmget (segs u) k = Some i"
  shows "i < length (segs u)" "\<not> seg_removed (segs u ! i)" "shm_nattch (segs u ! i) = length (handles u)"
proof -
  have "filter (\<lambda>h. snd h = i) (handles u) = handles u" using assms by (simp add: users_inv_def)
  moreover show "i < length (segs u)" "\<not> seg_removed (segs u ! i)"
    using assms shmget_Some [of k "segs u" i] by (simp_all add: users_inv_def)
  ultimately show "shm_nattch (segs u ! i) = length (handles u)" using assms by (simp add: users_inv_def)
qed

text \<open>What is left of the segments once a writer may go on: none that is not removed.\<close>

lemma del_existed:
  assumes "users_inv k u"
  shows "del_existed_shm (segs u) k =
    (if handles u \<noteq> [] then (- 1, segs u)
     else (0, case shmget (segs u) k of None \<Rightarrow> segs u | Some i \<Rightarrow> ipc_rmid (segs u) i))"
proof (cases "shmget (segs u) k")
  case None
  then have "handles u = []" using assms by (cases "handles u") (auto simp: users_inv_def)
  then show ?thesis using None by (simp add: del_existed_shm_def del_check_def)
next
  case (Some i)
  then show ?thesis using inv_nattch [OF assms Some]
    by (simp add: del_existed_shm_def del_check_def ipc_stat_def seg_exists_def)
qed

lemma all_removed:
  assumes "users_inv k u" "handles u = []"
  shows "one_left k (snd (del_existed_shm (segs u) k))" "shmget (snd (del_existed_shm (segs u) k)) k = None"
    "\<forall>s \<in> set (snd (del_existed_shm (segs u) k)). shm_nattch s = 0"
proof -
  have o: "one_left k (segs u)" "\<forall>s \<in> set (segs u). shm_nattch s = 0"
    using assms by (auto simp: users_inv_def in_set_conv_nth)
  show one: "one_left k (snd (del_existed_shm (segs u) k))"
    using o(1) assms(2) shmget_Some [OF o(1)] seg_key_nth [OF o(1)]
    by (auto simp: del_existed [OF assms(1)] ipc_rmid_def intro!: one_left_update split: option.split)
  show "\<forall>s \<in> set (snd (del_existed_shm (segs u) k)). shm_nattch s = 0"
    using o assms(2) shmget_Some [OF o(1)]
    by (auto simp: del_existed [OF assms(1)] ipc_rmid_def set_conv_nth nth_list_update split: option.splits if_splits)
  have others: "seg_removed (segs u ! j)" if "shmget (segs u) k = Some i" "j < length (segs u)" "j \<noteq> i" for i j
    using that o(1) shmget_Some [OF o(1)] by (auto simp: one_left_def)
  have "seg_removed (ipc_rmid (segs u) i ! j)" if "shmget (segs u) k = Some i" "j < length (segs u)" for i j
    using others [OF that] that(2) by (cases "j = i") (simp_all add: ipc_rmid_def)
  then show "shmget (snd (del_existed_shm (segs u) k)) k = None"
    unfolding shmget_None [OF one] using assms(2) shmget_None [OF o(1)]
    by (auto simp: del_existed [OF assms(1)] ipc_rmid_def split: option.split)
qed

text \<open>The result of a writer's call.\<close>

lemma create_result:
  assumes "users_inv k u" "ftok g = Some k"
  shows "create_shm_memory g (segs u) sz =
    (if handles u \<noteq> [] then (None, segs u)
     else let ss = snd (del_existed_shm (segs u) k); new = \<lparr>seg_key = k, seg_size = sz, shm_nattch = 0, seg_removed = False\<rparr>
          in if sz = 0 \<or> \<not> room_new g then (None, ss)
             else if \<not> room_at g then (None, ss @ [new])
             else (Some (length ss), ss @ [new\<lparr>shm_nattch := 1\<rparr>]))"
proof (cases "handles u = []")
  case True
  then have d: "fst (del_existed_shm (segs u) k) = 0" by (simp add: del_existed [OF assms(1)])
  show ?thesis
    using True assms(2) d all_removed(2) [OF assms(1) True]
    by (simp add: create_shm_memory_def case_prod_beta Let_def new_segment_def shmget_new_def shmat_def seg_exists_def)
next
  case False
  then show ?thesis using assms(2) by (simp add: create_shm_memory_def del_existed [OF assms(1)])
qed

lemma inv_cong:
  "users_inv k (u\<lparr>segs := ss, handles := hs\<rparr>) = users_inv k \<lparr>segs = ss, handles = hs\<rparr>"
  "users_inv k \<lparr>segs = segs u, handles = handles u\<rparr> = users_inv k u"
  by (simp_all add: users_inv_def)

lemma inv_new:
  assumes "one_left k ss" "shmget ss k = None" "\<forall>s \<in> set ss. shm_nattch s = 0" "seg_key new = k" "\<not> seg_removed new"
    "hs = [] \<and> shm_nattch new = 0 \<or> (\<exists>p. hs = [(p, length ss)]) \<and> shm_nattch new = 1"
  shows "users_inv k \<lparr>segs = ss @ [new], handles = hs\<rparr>"
proof -
  have one: "one_left k (ss @ [new])"
    using assms(1,2,4) shmget_None [OF assms(1)] by (auto simp: one_left_def nth_append less_Suc_eq)
  moreover have "shmget (ss @ [new]) k = Some (length ss)" using assms(5) by (simp add: shmget_Some [OF one])
  ultimately show ?thesis using assms(3,6) by (auto simp: users_inv_def nth_append less_Suc_eq)
qed

lemma inv_create:
  assumes "users_inv k u" "ftok g = Some k"
  shows "users_inv k (add_handle p (create_shm_memory g (segs u) sz) u)"
proof (cases "handles u = []")
  case True
  note left = all_removed [OF assms(1) True]
  have "users_inv k \<lparr>segs = snd (del_existed_shm (segs u) k), handles = []\<rparr>"
    using left by (auto simp: users_inv_def)
  then show ?thesis
    using True inv_new [OF left] by (auto simp: create_result [OF assms] add_handle_def Let_def inv_cong)
next
  case False
  then show ?thesis using assms(1) by (simp add: create_result [OF assms] add_handle_def)
qed

lemma inv_open:
  assumes "users_inv k u" "ftok g = Some k" "map_of (handles u) p = None"
  shows "users_inv k (add_handle p (open_shm_memory g (segs u)) u)"
proof (cases "shmget (segs u) k")
  case None
  then show ?thesis using assms by (simp add: open_shm_memory_def add_handle_def)
next
  case (Some i)
  have o: "one_left k (segs u)" using assms(1) by (simp add: users_inv_def)
  note i = inv_nattch [OF assms(1) Some]
  let ?s = "(segs u ! i)\<lparr>shm_nattch := shm_nattch (segs u ! i) + 1\<rparr>"
  have one: "one_left k ((segs u)[i := ?s])" using o seg_key_nth [OF o i(1)] by (intro one_left_update) simp_all
  have same: "shmget ((segs u)[i := ?s]) k = Some i" unfolding shmget_Some [OF one] using i by simp
  have "p \<notin> fst ` set (handles u)" using assms(3) by (simp add: map_of_eq_None_iff)
  then have "users_inv k \<lparr>segs = (segs u)[i := ?s], handles = (p, i) # handles u\<rparr>"
    using assms(1) one same Some i(1) by (auto simp: users_inv_def nth_list_update)
  then show ?thesis
    using assms(1,2) Some i by (auto simp: open_shm_memory_def add_handle_def shmat_def seg_exists_def inv_cong)
qed

text \<open>Detaching: the last one removes the segment.\<close>

lemma keep_removed: "\<not> seg_removed s \<Longrightarrow> s\<lparr>shm_nattch := n, seg_removed := False\<rparr> = s\<lparr>shm_nattch := n\<rparr>"
  by (cases s) simp

lemma filter_handle: "distinct (map fst hs) \<Longrightarrow> (p, i) \<in> set hs \<Longrightarrow> filter (\<lambda>h. fst h = p) hs = [(p, i)]"
  by (induction hs) (auto simp: filter_empty_conv image_iff)

lemma destroy_result:
  assumes "users_inv k u" "ftok g = Some k" "map_of (handles u) p = Some i"
  shows "shm_memory_destroy g (segs u) i = (True, (segs u)[i := (segs u ! i)
    \<lparr>shm_nattch := length (handles u) - 1, seg_removed := length (handles u) = 1\<rparr>])"
proof -
  have k: "shmget (segs u) k = Some i" using assms(1) map_of_SomeD [OF assms(3)] by (auto simp: users_inv_def)
  have "0 < length (handles u)" using assms(3) by (cases "handles u") auto
  then consider "length (handles u) = 1" | n where "length (handles u) = Suc (Suc n)"
    by (metis One_nat_def gr0_conv_Suc nat.exhaust)
  then show ?thesis
    using assms(2) k inv_nattch [OF assms(1) k]
    by cases (simp_all add: shm_memory_destroy_def shmdt_def ipc_stat_def ipc_rmid_def seg_exists_def keep_removed)
qed

lemma inv_destroy:
  assumes "users_inv k u" "ftok g = Some k" "map_of (handles u) p = Some i"
  shows "users_inv k (shm_use (g, DestroyShm p) u)"
proof -
  have k: "shmget (segs u) k = Some i" using assms(1) map_of_SomeD [OF assms(3)] by (auto simp: users_inv_def)
  have o: "one_left k (segs u)" "distinct (map fst (handles u))" "\<forall>h \<in> set (handles u). snd h = i"
    using assms(1) k by (simp_all add: users_inv_def)
  note i = inv_nattch [OF assms(1) k]
  let ?hs = "filter (\<lambda>h. fst h \<noteq> p) (handles u)"
  let ?ss = "(segs u)[i := (segs u ! i)\<lparr>shm_nattch := length (handles u) - 1, seg_removed := length (handles u) = 1\<rparr>]"
  have n: "length ?hs = length (handles u) - 1"
    using filter_handle [OF o(2) map_of_SomeD [OF assms(3)]] sum_length_filter_compl [of "\<lambda>h. fst h = p" "handles u"] by simp
  have one: "one_left k ?ss" using o(1) seg_key_nth [OF o(1) i(1)] i(2) by (intro one_left_update) simp_all
  have "shmget ?ss k = Some (snd h)" if "h \<in> set ?hs" for h
  proof -
    have "0 < length ?hs" using that by (rule length_pos_if_in_set)
    then have "length (handles u) \<noteq> 1" using n by simp
    then have "shmget ?ss k = Some i" unfolding shmget_Some [OF one] using i(1) by simp
    then show ?thesis using that o(3) by simp
  qed
  then have "\<forall>h \<in> set ?hs. shmget ?ss k = Some (snd h)" by blast
  moreover have "filter (\<lambda>h. snd h = j) ?hs = (if j = i then ?hs else [])" for j
    using o(3) by (auto simp: filter_empty_conv intro!: filter_cong)
  ultimately have "users_inv k \<lparr>segs = ?ss, handles = ?hs\<rparr>"
    using assms(1) one o(2,3) n i(1) by (simp add: users_inv_def nth_list_update distinct_map_filter filter_empty_conv)
  then show ?thesis using assms(3) by (simp add: destroy_result [OF assms] inv_cong)
qed

lemma destroy_none: "(\<And>i. map_of (handles u) p = Some i \<Longrightarrow> users_inv k (shm_use (g, DestroyShm p) u)) \<Longrightarrow>
    users_inv k u \<Longrightarrow> users_inv k (shm_use (g, DestroyShm p) u)"
  by (cases "map_of (handles u) p") auto

lemma inv_use:
  assumes "users_inv k u" "ftok g = None \<or> ftok g = Some k"
  shows "users_inv k (shm_use (g, d) u)"
proof (cases "ftok g")
  case None
  then have "create_shm_memory g (segs u) sz = (None, segs u)" "open_shm_memory g (segs u) = (None, segs u)"
    "shm_memory_destroy g (segs u) i = (False, segs u)" for sz i
    by (simp_all add: create_shm_memory_def open_shm_memory_def shm_memory_destroy_def)
  then show ?thesis using assms(1) by (cases d) (simp_all add: add_handle_def split: option.split)
next
  case (Some k')
  then have g: "ftok g = Some k" using assms(2) by simp
  show ?thesis
    using assms(1) inv_create [OF assms(1) g] inv_open [OF assms(1) g] inv_destroy [OF assms(1) g]
    by (cases d) (auto simp del: shm_use.simps(3) simp: destroy_none)
qed

definition no_users :: shm_users where
  "no_users = \<lparr>segs = [], handles = []\<rparr>"

lemma inv_uses:
  assumes "\<forall>(g, d) \<in> set ops. ftok g = None \<or> ftok g = Some k"
  shows "users_inv k (fold shm_use ops no_users)"
proof -
  have "users_inv k u \<Longrightarrow> users_inv k (fold shm_use ops u)" for u
    using assms by (induction ops arbitrary: u) (auto simp: inv_use)
  moreover have "users_inv k no_users" by (simp add: users_inv_def no_users_def one_left_def)
  ultimately show ?thesis by blast
qed

section \<open>Properties\<close>

text \<open>Property C28. However processes create, open and destroy the shared memory of a path, one operation
  at a time, those attached to it share one segment, the one that the key finds, and the system
  counts just them; a writer gets a new segment exactly if nobody is attached (and the system
  grants it), and when the last process destroys its memory no segment is left behind the key.\<close>

theorem segment_shared:
  assumes "\<forall>(g, d) \<in> set ops. ftok g = None \<or> ftok g = Some k" "u = fold shm_use ops no_users" "ftok g = Some k"
  shows "(\<forall>(p, i) \<in> set (handles u). shmget (segs u) k = Some i \<and> shm_nattch (segs u ! i) = length (handles u)) \<and>
    (fst (create_shm_memory g (segs u) sz) \<noteq> None \<longleftrightarrow> handles u = [] \<and> sz \<noteq> 0 \<and> room_new g \<and> room_at g) \<and>
    (map (\<lambda>h. fst h) (handles u) = [p] \<longrightarrow> shmget (segs (shm_use (g, DestroyShm p) u)) k = None)"
proof (intro conjI ballI impI)
  have inv: "users_inv k u" unfolding assms(2) by (rule inv_uses [OF assms(1)])
  show "case h of (p, i) \<Rightarrow> shmget (segs u) k = Some i \<and> shm_nattch (segs u ! i) = length (handles u)"
    if "h \<in> set (handles u)" for h
    using that inv inv_nattch(3) [OF inv] by (auto simp: users_inv_def)
  show "fst (create_shm_memory g (segs u) sz) \<noteq> None \<longleftrightarrow> handles u = [] \<and> sz \<noteq> 0 \<and> room_new g \<and> room_at g"
    by (simp add: create_result [OF inv assms(3)] Let_def)
  assume "map (\<lambda>h. fst h) (handles u) = [p]"
  then obtain i where h: "handles u = [(p, i)]" by auto
  then have k: "shmget (segs u) k = Some i" using inv by (simp add: users_inv_def)
  have o: "one_left k (segs u)" using inv by (simp add: users_inv_def)
  let ?ss = "(segs u)[i := (segs u ! i)\<lparr>shm_nattch := 0, seg_removed := True\<rparr>]"
  have use: "segs (shm_use (g, DestroyShm p) u) = ?ss" using destroy_result [OF inv assms(3), of p i] h by simp
  have "one_left k ?ss" using o seg_key_nth [OF o inv_nattch(1) [OF inv k]] by (intro one_left_update) simp_all
  moreover have "seg_removed (?ss ! j)" if "j < length (segs u)" for j
    using that o inv_nattch(1,2) [OF inv k] by (cases "j = i") (auto simp: one_left_def)
  ultimately show "shmget (segs (shm_use (g, DestroyShm p) u)) k = None"
    unfolding use by (simp add: shmget_None)
qed

definition demo_grant :: ipc_grant where
  "demo_grant = \<lparr>ftok = Some 7, room_new = True, room_at = True\<rparr>"

definition demo_uses :: "(ipc_grant \<times> shm_op) list" where
  "demo_uses = map (Pair demo_grant) [CreateShm 1 8192, OpenShm 2, CreateShm 3 8192, DestroyShm 1]"

theorem segment_shared_witness:
  "handles (fold shm_use demo_uses no_users) = [(2, 0)] \<and>
   shmget (segs (shm_use (demo_grant, DestroyShm 2) (fold shm_use demo_uses no_users))) 7 = None"
proof -
  have a: "\<forall>(g, d) \<in> set demo_uses. ftok g = None \<or> ftok g = Some 7" "ftok demo_grant = Some 7"
    by (simp_all add: demo_uses_def demo_grant_def)
  have h: "handles (fold shm_use demo_uses no_users) = [(2, 0)]" by code_simp
  show ?thesis using segment_shared [OF a(1) refl a(2), of 1 2] h by simp
qed

text \<open>The removal is not one step: a reader that attaches between the check for users and the
  removal is left with the old segment, while the writer goes on with a new one.\<close>

theorem segment_race:
  "\<exists>ss s1 s2 i j. del_check ss 7 = Inr i \<and> open_shm_memory demo_grant ss = (Some i, s1) \<and>
     new_segment demo_grant (ipc_rmid s1 i) 7 8192 = (Some j, s2) \<and> i \<noteq> j \<and>
     shm_nattch (s2 ! i) = 1 \<and> shm_nattch (s2 ! j) = 1 \<and> shmget s2 7 = Some j"
  by (intro exI [of _ "[\<lparr>seg_key = 7, seg_size = 8192, shm_nattch = 0, seg_removed = False\<rparr>]"]
      exI [of _ "[\<lparr>seg_key = 7, seg_size = 8192, shm_nattch = 1, seg_removed = False\<rparr>]"]
      exI [of _ "[\<lparr>seg_key = 7, seg_size = 8192, shm_nattch = 1, seg_removed = True\<rparr>,
        \<lparr>seg_key = 7, seg_size = 8192, shm_nattch = 1, seg_removed = False\<rparr>]"] exI [of _ 0] exI [of _ 1]) code_simp

end
