(* ===== verification/Threads.thy ===== *)
theory Threads
  imports Aesrand
begin

text \<open>
  The threads that share \<open>src/xm_validate.c\<close>: every sending thread and the receiving one call
  \<open>xm_validate_gen\<close> without a lock, and the block it encrypts is one static array.  A state has
  that array and, for each thread, the point it has reached in the function; a step is one of
  the function's three statements in one of the threads.
\<close>

section \<open>Steps\<close>

datatype gen_point = Before | SourceStored | BothStored | Encrypted "u8 list"

record gen_system =
  aes_block :: "u32 list"
  points :: "nat \<Rightarrow> gen_point"

definition encrypt_block :: "u32 list \<Rightarrow> u32 list \<Rightarrow> u8 list" where
  "encrypt_block rks blk = rijndaelEncrypt rks AES_ROUNDS (concat (map (le_bytes 4) blk))"

text \<open>\<open>gen_step rks src dst\<close>: thread \<open>t\<close> asks for the bytes of \<open>src t\<close> and \<open>dst t\<close>; \<open>rks\<close> is the key
  schedule.\<close>

inductive gen_step :: "u32 list \<Rightarrow> (nat \<Rightarrow> u32) \<Rightarrow> (nat \<Rightarrow> u32) \<Rightarrow> gen_system \<Rightarrow> gen_system \<Rightarrow> bool"
  for rks src dst where
  store_source:
    "points s t = Before \<Longrightarrow>
     gen_step rks src dst s (s\<lparr>aes_block := (aes_block s)[0 := src t], points := (points s)(t := SourceStored)\<rparr>)"
| store_destination:
    "points s t = SourceStored \<Longrightarrow>
     gen_step rks src dst s (s\<lparr>aes_block := (aes_block s)[1 := dst t], points := (points s)(t := BothStored)\<rparr>)"
| encrypt:
    "points s t = BothStored \<Longrightarrow>
     gen_step rks src dst s (s\<lparr>points := (points s)(t := Encrypted (encrypt_block rks (aes_block s)))\<rparr>)"

inductive_cases gen_stepE: "gen_step rks src dst s s'"

inductive gen_reachable :: "u32 list \<Rightarrow> (nat \<Rightarrow> u32) \<Rightarrow> (nat \<Rightarrow> u32) \<Rightarrow> gen_system \<Rightarrow> gen_system \<Rightarrow> bool"
  for rks src dst s0 where
  start: "gen_reachable rks src dst s0 s0"
| step: "gen_reachable rks src dst s0 s \<Longrightarrow> gen_step rks src dst s s' \<Longrightarrow> gen_reachable rks src dst s0 s'"

text \<open>No thread has begun; the block is that of \<open>vs\<close>.\<close>

definition gen_initial :: "validate_state \<Rightarrow> gen_system" where
  "gen_initial vs = \<lparr>aes_block = aes_input vs, points = (\<lambda>t. Before)\<rparr>"

section \<open>What the threads get\<close>

lemma gen_bytes:
  "fst (xm_validate_gen s d vs) = encrypt_block (aes_sched vs) ((aes_input vs)[0 := s, 1 := d])"
  by (simp add: xm_validate_gen_def encrypt_block_def Let_def)

definition words_of_threads ::
  "u32 list \<Rightarrow> (nat \<Rightarrow> u32) \<Rightarrow> (nat \<Rightarrow> u32) \<Rightarrow> u32 list \<Rightarrow> gen_system \<Rightarrow> bool" where
  "words_of_threads rks src dst blk s \<longleftrightarrow>
     (\<exists>a b. aes_block s = blk[0 := a, 1 := b] \<and>
        ((\<exists>t. points s t \<noteq> Before) \<longrightarrow> a \<in> range src) \<and>
        ((\<exists>t. points s t \<noteq> Before \<and> points s t \<noteq> SourceStored) \<longrightarrow> b \<in> range dst)) \<and>
     (\<forall>t out. points s t = Encrypted out \<longrightarrow>
        (\<exists>t1 t2. out = encrypt_block rks (blk[0 := src t1, 1 := dst t2])))"

lemma words_step:
  assumes "gen_step rks src dst s s'" "words_of_threads rks src dst blk s"
  shows "words_of_threads rks src dst blk s'"
proof -
  obtain a b where blk: "aes_block s = blk[0 := a, 1 := b]"
    and a: "(\<exists>t. points s t \<noteq> Before) \<longrightarrow> a \<in> range src"
    and b: "(\<exists>t. points s t \<noteq> Before \<and> points s t \<noteq> SourceStored) \<longrightarrow> b \<in> range dst"
    and out: "\<forall>t out. points s t = Encrypted out \<longrightarrow> (\<exists>t1 t2. out = encrypt_block rks (blk[0 := src t1, 1 := dst t2]))"
    using assms(2) by (auto simp: words_of_threads_def)
  from assms(1) show ?thesis
  proof (cases rule: gen_step.cases)
    case (store_source t)
    have blk': "aes_block s' = blk[0 := src t, 1 := b]" using store_source by (simp add: blk list_update_swap)
    have "(\<exists>t. points s t \<noteq> Before \<and> points s t \<noteq> SourceStored)" if "points s' u \<noteq> Before" "points s' u \<noteq> SourceStored" for u
      using that store_source by (auto split: if_splits)
    then have b': "(\<exists>t. points s' t \<noteq> Before \<and> points s' t \<noteq> SourceStored) \<longrightarrow> b \<in> range dst" using b by blast
    have "points s u = Encrypted out'" if "points s' u = Encrypted out'" for u out'
      using that store_source by (auto split: if_splits)
    then show ?thesis unfolding words_of_threads_def using blk' b' out by blast
  next
    case (store_destination t)
    have blk': "aes_block s' = blk[0 := a, 1 := dst t]" using store_destination by (simp add: blk)
    have a': "a \<in> range src" using a store_destination(2) by (metis gen_point.distinct(1))
    have "points s u = Encrypted out'" if "points s' u = Encrypted out'" for u out'
      using that store_destination by (auto split: if_splits)
    then show ?thesis unfolding words_of_threads_def using blk' a' out by blast
  next
    case (encrypt t)
    have ab: "a \<in> range src" "b \<in> range dst" using a b encrypt(2) by (metis gen_point.distinct(3,7))+
    then obtain t1 t2 where t: "a = src t1" "b = dst t2" by blast
    have "aes_block s' = blk[0 := a, 1 := b]" using encrypt blk by simp
    moreover have "\<exists>t1 t2. out' = encrypt_block rks (blk[0 := src t1, 1 := dst t2])" if "points s' u = Encrypted out'" for u out'
    proof (cases "u = t")
      case True
      then have "out' = encrypt_block rks (blk[0 := src t1, 1 := dst t2])" using that encrypt(1) by (simp add: blk t)
      then show ?thesis by blast
    next
      case False
      then show ?thesis using that encrypt(1) out by simp
    qed
    ultimately show ?thesis using ab unfolding words_of_threads_def by blast
  qed
qed

lemma words_reachable:
  assumes "gen_reachable rks src dst (gen_initial vs) s"
  shows "words_of_threads rks src dst (aes_input vs) s"
  using assms
proof (induction rule: gen_reachable.induct)
  case start
  have "aes_input vs = (aes_input vs)[0 := aes_input vs ! 0, 1 := aes_input vs ! 1]" by simp
  then show ?case unfolding words_of_threads_def gen_initial_def
    by (intro conjI exI [of _ "aes_input vs ! 0"] exI [of _ "aes_input vs ! 1"]) simp_all
next
  case (step s s')
  then show ?case using words_step by blast
qed

lemma gen_inj:
  assumes "length (aes_input st0) = 4" "length (aes_sched st0) = 44"
    "fst (xm_validate_gen s d (xm_validate_init key st0)) = fst (xm_validate_gen s' d' (xm_validate_init key st0))"
  shows "s = s' \<and> d = d'"
proof -
  obtain a b c e where st: "aes_input st0 = [a, b, c, e]"
    using assms(1) by (auto simp: numeral_eq_Suc length_Suc_conv)
  have z: "aes_input (xm_validate_init key st0) = [0, 0, 0, 0]"
    by (simp add: xm_validate_init_def AES_BLOCK_WORDS_def st upt_rec [of _ 4])
  have g: "fst (xm_validate_gen s t (xm_validate_init key st0)) =
      rijndaelEncrypt (snd (rijndaelKeySetupEnc (aes_sched st0) key 128)) 10
        (le_bytes 4 s @ le_bytes 4 t @ le_bytes 4 (0 :: u32) @ le_bytes 4 (0 :: u32))" for s t
    by (simp add: xm_validate_gen_def z) (simp add: xm_validate_init_def AES_KEY_BYTES_def AES_ROUNDS_def)
  show ?thesis using Encrypt_128_inj [OF _ _ assms(2) assms(3) [unfolded g]] by (auto dest: le_bytes_inj)
qed

section \<open>Properties\<close>

text \<open>Whatever the interleaving of the threads, the bytes a thread gets are those of some
  thread's source address and some thread's destination address.\<close>

theorem gen_bytes_of_some_threads:
  assumes "gen_reachable (aes_sched vs) src dst (gen_initial vs) s" "points s t = Encrypted out"
  shows "\<exists>t1 t2. out = fst (xm_validate_gen (src t1) (dst t2) vs)"
  using words_reachable [OF assms(1)] assms(2) by (auto simp: words_of_threads_def gen_bytes)

theorem gen_bytes_of_some_threads_witness:
  "\<exists>s t1 t2. gen_reachable (replicate 44 0) (\<lambda>t. 1) (\<lambda>t. 2) (gen_initial \<lparr>aes_input = [0, 0, 0, 0], aes_sched = replicate 44 0\<rparr>) s \<and>
     points s 0 = Encrypted (fst (xm_validate_gen ((\<lambda>t. 1) t1) ((\<lambda>t. 2) t2) \<lparr>aes_input = [0, 0, 0, 0], aes_sched = replicate 44 0\<rparr>))"
proof -
  let ?vs = "\<lparr>aes_input = [0, 0, 0, 0], aes_sched = replicate 44 0\<rparr>"
  let ?s = "\<lparr>aes_block = [1, 2, 0, 0], points = (\<lambda>t. Before)(0 := Encrypted (encrypt_block (replicate 44 0) [1, 2, 0, 0]))\<rparr>"
  have 1: "gen_step (replicate 44 0) (\<lambda>t. 1) (\<lambda>t. 2) (gen_initial ?vs) \<lparr>aes_block = [1, 0, 0, 0], points = (\<lambda>t. Before)(0 := SourceStored)\<rparr>"
    using gen_step.store_source [of "gen_initial ?vs" 0 "replicate 44 0" "\<lambda>t. 1" "\<lambda>t. 2"] by (simp add: gen_initial_def)
  have 2: "gen_step (replicate 44 0) (\<lambda>t. 1) (\<lambda>t. 2) \<lparr>aes_block = [1, 0, 0, 0], points = (\<lambda>t. Before)(0 := SourceStored)\<rparr>
      \<lparr>aes_block = [1, 2, 0, 0], points = (\<lambda>t. Before)(0 := BothStored)\<rparr>"
    using gen_step.store_destination [of "\<lparr>aes_block = [1, 0, 0, 0], points = (\<lambda>t. Before)(0 := SourceStored)\<rparr>" 0
      "replicate 44 0" "\<lambda>t. 1" "\<lambda>t. 2"] by simp
  have 3: "gen_step (replicate 44 0) (\<lambda>t. 1) (\<lambda>t. 2) \<lparr>aes_block = [1, 2, 0, 0], points = (\<lambda>t. Before)(0 := BothStored)\<rparr> ?s"
    using gen_step.encrypt [of "\<lparr>aes_block = [1, 2, 0, 0], points = (\<lambda>t. Before)(0 := BothStored)\<rparr>" 0
      "replicate 44 0" "\<lambda>t. 1" "\<lambda>t. 2"] by simp
  have r: "gen_reachable (aes_sched ?vs) (\<lambda>t. 1) (\<lambda>t. 2) (gen_initial ?vs) ?s"
    using gen_reachable.step [OF gen_reachable.step [OF gen_reachable.step [OF gen_reachable.start 1] 2] 3] by simp
  then show ?thesis using gen_bytes_of_some_threads [OF r, of 0] by fastforce
qed

text \<open>Property C37. The function does not survive its use by several threads: when two of them ask for
  different pairs, there is an interleaving in which the first gets bytes that are not those of
  its pair, so that the answer to its probe will be rejected.\<close>

theorem gen_race:
  assumes "length (aes_input st0) = 4" "length (aes_sched st0) = 44" "vs = xm_validate_init key st0"
    "(src 0, dst 0) \<noteq> (src 1, dst 1)"
  shows "\<exists>s out. gen_reachable (aes_sched vs) src dst (gen_initial vs) s \<and> points s 0 = Encrypted out \<and>
    out = fst (xm_validate_gen (src 1) (dst 1) vs) \<and> out \<noteq> fst (xm_validate_gen (src 0) (dst 0) vs)"
proof -
  let ?r = "gen_reachable (aes_sched vs) src dst (gen_initial vs)" and ?st = "gen_step (aes_sched vs) src dst"
  let ?s = "\<lambda>f. \<lparr>aes_block = (aes_input vs)[0 := src 1, 1 := dst 1], points = f\<rparr>"
  have r0: "?r (gen_initial vs)" by (rule gen_reachable.start)
  define s1 where "s1 = \<lparr>aes_block = (aes_input vs)[0 := src 0], points = (\<lambda>t. Before)(0 := SourceStored)\<rparr>"
  have "?st (gen_initial vs) s1"
    using gen_step.store_source [of "gen_initial vs" 0 "aes_sched vs" src dst] by (simp add: gen_initial_def s1_def)
  with r0 have r1: "?r s1" by (rule gen_reachable.step)
  define s2 where "s2 = \<lparr>aes_block = (aes_input vs)[0 := src 0, 1 := dst 0], points = (\<lambda>t. Before)(0 := BothStored)\<rparr>"
  have "?st s1 s2"
    using gen_step.store_destination [of s1 0 "aes_sched vs" src dst] by (simp add: s1_def s2_def)
  with r1 have r2: "?r s2" by (rule gen_reachable.step)
  define s3 where "s3 = \<lparr>aes_block = (aes_input vs)[0 := src 1, 1 := dst 0],
    points = (\<lambda>t. Before)(0 := BothStored, 1 := SourceStored)\<rparr>"
  have "?st s2 s3"
    using gen_step.store_source [of s2 1 "aes_sched vs" src dst] by (simp add: s2_def s3_def list_update_swap)
  with r2 have r3: "?r s3" by (rule gen_reachable.step)
  define s4 where "s4 = ?s ((\<lambda>t. Before)(0 := BothStored, 1 := BothStored))"
  have "?st s3 s4"
    using gen_step.store_destination [of s3 1 "aes_sched vs" src dst] by (simp add: s3_def s4_def fun_upd_twist)
  with r3 have r4: "?r s4" by (rule gen_reachable.step)
  define s5 where "s5 = s4\<lparr>points := (points s4)(0 := Encrypted (encrypt_block (aes_sched vs) (aes_block s4)))\<rparr>"
  have "?st s4 s5" unfolding s5_def by (rule gen_step.encrypt) (simp add: s4_def)
  with r4 have r5: "?r s5" by (rule gen_reachable.step)
  have "points s5 0 = Encrypted (fst (xm_validate_gen (src 1) (dst 1) vs))"
    by (simp add: s5_def s4_def gen_bytes)
  moreover have "fst (xm_validate_gen (src 1) (dst 1) vs) \<noteq> fst (xm_validate_gen (src 0) (dst 0) vs)"
    using gen_inj [OF assms(1,2), of "src 1" "dst 1" key "src 0" "dst 0"] assms(3,4) by auto
  ultimately show ?thesis using r5 by blast
qed

theorem gen_race_witness:
  "\<exists>s out. gen_reachable (aes_sched (xm_validate_init (replicate 16 7) \<lparr>aes_input = replicate 4 0, aes_sched = replicate 44 0\<rparr>))
      (\<lambda>t. 1) of_nat (gen_initial (xm_validate_init (replicate 16 7) \<lparr>aes_input = replicate 4 0, aes_sched = replicate 44 0\<rparr>)) s \<and>
    points s 0 = Encrypted out \<and>
    out \<noteq> fst (xm_validate_gen 1 0 (xm_validate_init (replicate 16 7) \<lparr>aes_input = replicate 4 0, aes_sched = replicate 44 0\<rparr>))"
  using gen_race [of "\<lparr>aes_input = replicate 4 0, aes_sched = replicate 44 0\<rparr>" _ "replicate 16 7" "\<lambda>t. 1" of_nat] by fastforce

end
