(* ===== verification/Packet.thy ===== *)
theory Packet
  imports Libc Memory "HOL-Library.Signed_Division"
begin

text \<open>
  Packet buffers and header construction, \<open>src/probe/xm_packet.[ch]\<close>: a packet is the function
  from offsets to bytes, multi-byte fields are little-endian loads and stores at the offsets the
  C structures have, and the one's complement checksums run over 16-bit words.
\<close>

unbundle bit_operations_syntax

section \<open>Buffers\<close>

type_synonym packet = "nat \<Rightarrow> u8"

definition put_bytes :: "packet \<Rightarrow> nat \<Rightarrow> u8 list \<Rightarrow> packet" where
  "put_bytes p off bs = (\<lambda>i. if off \<le> i \<and> i < off + length bs then bs ! (i - off) else p i)"

definition load :: "nat \<Rightarrow> packet \<Rightarrow> nat \<Rightarrow> 'a::len word" where
  "load n p off = le_word (map p [off..<off + n])"

definition store :: "nat \<Rightarrow> packet \<Rightarrow> nat \<Rightarrow> 'a::len word \<Rightarrow> packet" where
  "store n p off w = put_bytes p off (le_bytes n w)"

abbreviation load16 :: "packet \<Rightarrow> nat \<Rightarrow> u16" where "load16 \<equiv> load 2"
abbreviation load32 :: "packet \<Rightarrow> nat \<Rightarrow> u32" where "load32 \<equiv> load 4"
abbreviation store16 :: "packet \<Rightarrow> nat \<Rightarrow> u16 \<Rightarrow> packet" where "store16 \<equiv> store 2"
abbreviation store32 :: "packet \<Rightarrow> nat \<Rightarrow> u32 \<Rightarrow> packet" where "store32 \<equiv> store 4"

text \<open>The two four-bit fields of a byte: the first declared one is the low half.\<close>

definition lo_nibble :: "u8 \<Rightarrow> u8" where "lo_nibble b = b AND 0x0F"

definition put_lo :: "packet \<Rightarrow> nat \<Rightarrow> u8 \<Rightarrow> packet" where
  "put_lo p off v = p(off := (p off AND 0xF0) OR (v AND 0x0F))"

definition put_hi :: "packet \<Rightarrow> nat \<Rightarrow> u8 \<Rightarrow> packet" where
  "put_hi p off v = p(off := (p off AND 0x0F) OR push_bit 4 (v AND 0x0F))"

text \<open>The structure that starts at an offset of another.\<close>

definition at_offset :: "packet \<Rightarrow> nat \<Rightarrow> packet" where
  "at_offset p off = (\<lambda>i. p (off + i))"

lemma put_bytes_at [simp]:
  "put_bytes p off bs i = (if off \<le> i \<and> i < off + length bs then bs ! (i - off) else p i)"
  by (simp add: put_bytes_def)

lemma load_of_store [simp]: "LENGTH('a) \<le> 8 * n \<Longrightarrow> load n (store n p off (w :: 'a::len word)) off = w"
proof -
  have "map (store n p off w) [off..<off + n] = le_bytes n w"
    by (rule nth_equalityI) (simp_all add: store_def)
  then show "LENGTH('a) \<le> 8 * n \<Longrightarrow> ?thesis" by (simp add: load_def le_word_le_bytes)
qed

lemma load_store_apart [simp]: "off + n \<le> off' \<or> off' + k \<le> off \<Longrightarrow> load k (store n p off w) off' = load k p off'"
  by (auto simp: load_def store_def intro!: arg_cong [of _ _ le_word] map_cong)

lemma store_apart [simp]: "i < off \<or> off + n \<le> i \<Longrightarrow> store n p off w i = p i"
  by (auto simp: store_def)

lemma load_upd_apart [simp]: "i < off \<or> off + n \<le> i \<Longrightarrow> load n (p(i := b)) off = load n p off"
  by (auto simp: load_def intro!: arg_cong [of _ _ le_word] map_cong)

lemma load_lo_hi_apart [simp]:
  "i < off \<or> off + n \<le> i \<Longrightarrow> load n (put_lo p i b) off = load n p off"
  "i < off \<or> off + n \<le> i \<Longrightarrow> load n (put_hi p i b) off = load n p off"
  by (simp_all add: put_lo_def put_hi_def)

lemma put_lo_hi_apart [simp]: "i \<noteq> j \<Longrightarrow> put_lo p i b j = p j" "i \<noteq> j \<Longrightarrow> put_hi p i b j = p j"
  by (simp_all add: put_lo_def put_hi_def)

lemma nibbles_low [simp]: "(b AND 240 OR n) AND 15 = n AND (15 :: u8)"
  by (simp add: bit.conj_disj_distrib2 and.assoc)

lemma nibbles_none [simp]: "(b AND 240) AND 15 = (0 :: u8)"
  by (simp add: and.assoc)

lemma at_offset_at [simp]: "at_offset p off i = p (off + i)"
  by (simp add: at_offset_def)

lemma load_at_offset [simp]: "load n (at_offset p off) i = load n p (off + i)"
proof -
  have "map (at_offset p off) [i..<i + n] = map p [off + i..<off + i + n]"
    by (rule nth_equalityI) (simp_all add: at_offset_def add.assoc)
  then show ?thesis by (simp add: load_def)
qed

lemma load_cong: "(\<And>i. off \<le> i \<Longrightarrow> i < off + n \<Longrightarrow> p i = q i) \<Longrightarrow> load n p off = load n q off"
  by (auto simp: load_def intro!: arg_cong [of _ _ le_word] map_cong)

section \<open>Header construction\<close>

definition ETHERTYPE_IP :: u16 where "ETHERTYPE_IP = 0x0800"
definition MAXTTL :: u8 where "MAXTTL = 255"
definition ICMP_ECHO :: u8 where "ICMP_ECHO = 8"

text \<open>The sizes of the structures.\<close>

definition sizeof_ether_header :: nat where "sizeof_ether_header = 14"
definition sizeof_ip :: nat where "sizeof_ip = 20"
definition sizeof_tcphdr :: nat where "sizeof_tcphdr = 20"
definition sizeof_icmp :: nat where "sizeof_icmp = 28"

lemmas header_sizes = sizeof_ether_header_def sizeof_ip_def sizeof_tcphdr_def sizeof_icmp_def

definition xm_make_eth_header :: "packet \<Rightarrow> nat \<Rightarrow> u8 list \<Rightarrow> u8 list \<Rightarrow> packet" where
  "xm_make_eth_header p ethh src dst =
     (let p = put_bytes p (ethh + 6) (take 6 src);
          p = put_bytes p ethh (take 6 dst)
      in store16 p (ethh + 12) (htons ETHERTYPE_IP))"

definition xm_make_ip_header :: "packet \<Rightarrow> nat \<Rightarrow> u8 \<Rightarrow> u16 \<Rightarrow> packet" where
  "xm_make_ip_header p iph protocol len =
     (let p = put_lo p iph 5;
          p = put_hi p iph 4;
          p = p(iph + 1 := 0);
          p = store16 p (iph + 2) len;
          p = store16 p (iph + 4) (htons 54321);
          p = store16 p (iph + 6) 0;
          p = p(iph + 8 := MAXTTL);
          p = p(iph + 9 := protocol)
      in store16 p (iph + 10) 0)"

definition xm_make_icmp_header :: "packet \<Rightarrow> nat \<Rightarrow> packet" where
  "xm_make_icmp_header p buf =
     (let p = p(buf := ICMP_ECHO);
          p = p(buf + 1 := 0)
      in store16 p (buf + 6) 0)"

text \<open>\<open>random\<close> is the number that the C library returns.\<close>

definition xm_make_tcp_header :: "u32 \<Rightarrow> packet \<Rightarrow> nat \<Rightarrow> u16 \<Rightarrow> u16 \<Rightarrow> packet" where
  "xm_make_tcp_header random p tcp dest_port th_flags =
     (let p = store32 p (tcp + 4) random;
          p = store32 p (tcp + 8) 0;
          p = put_lo p (tcp + 12) 0;
          p = put_hi p (tcp + 12) 5;
          p = p(tcp + 13 := 0);
          p = p(tcp + 13 := p (tcp + 13) OR ucast th_flags);
          p = store16 p (tcp + 14) (htons 65535);
          p = store16 p (tcp + 16) 0;
          p = store16 p (tcp + 18) 0
      in store16 p (tcp + 2) (htons dest_port))"

definition xm_make_udp_header :: "packet \<Rightarrow> nat \<Rightarrow> u16 \<Rightarrow> u16 \<Rightarrow> packet" where
  "xm_make_udp_header p udp dest_port len =
     (let p = store16 p (udp + 2) (htons dest_port);
          p = store16 p (udp + 4) (htons len)
      in store16 p (udp + 6) 0)"

section \<open>Checksums\<close>

text \<open>The loops over the 16-bit words; \<open>sum\<close> is an \<open>unsigned long\<close>.\<close>

fun sum_words :: "packet \<Rightarrow> nat \<Rightarrow> nat \<Rightarrow> u64 \<Rightarrow> u64" where
  "sum_words p pos 0 s = s"
| "sum_words p pos (Suc nwords) s = sum_words p (pos + 2) nwords (s + ucast (load16 p pos))"

definition xm_in_checksum :: "packet \<Rightarrow> nat \<Rightarrow> nat \<Rightarrow> u16" where
  "xm_in_checksum p ip_pkt len =
     (let sum = sum_words p ip_pkt (len div 2) 0;
          sum = drop_bit 16 sum + (sum AND 0xffff);
          sum = sum + drop_bit 16 sum
      in ucast (NOT sum))"

definition xm_ip_checksum :: "packet \<Rightarrow> nat \<Rightarrow> u16" where
  "xm_ip_checksum p buf = xm_in_checksum p buf sizeof_ip"

definition xm_icmp_checksum :: "packet \<Rightarrow> nat \<Rightarrow> u16" where
  "xm_icmp_checksum p buf = xm_in_checksum p buf sizeof_icmp"

definition xm_tcp_checksum :: "u16 \<Rightarrow> u32 \<Rightarrow> u32 \<Rightarrow> packet \<Rightarrow> nat \<Rightarrow> u16" where
  "xm_tcp_checksum len_tcp saddr daddr p tcp_pkt =
     (let nleft = unat len_tcp;
          sum = sum_words p tcp_pkt (nleft div 2) 0;
          sum = (if odd nleft then sum + ucast (load16 p (tcp_pkt + 2 * (nleft div 2)) AND ntohs 0xFF00) else sum);
          sum = sum + (ucast saddr AND 0xffff);
          sum = sum + ucast (drop_bit 16 saddr);
          sum = sum + (ucast daddr AND 0xffff);
          sum = sum + ucast (drop_bit 16 daddr);
          sum = sum + ucast (htons len_tcp);
          sum = sum + ucast (htons 6);
          sum = drop_bit 16 sum + (sum AND 0xffff);
          sum = sum + drop_bit 16 sum
      in ucast (NOT sum))"

section \<open>Source ports\<close>

text \<open>\<open>None\<close> is the division by zero; \<open>%\<close> on \<open>int32_t\<close> truncates.\<close>

definition xm_check_dst_port :: "u16 \<Rightarrow> u32 \<Rightarrow> u16 \<Rightarrow> u16 \<Rightarrow> u32 \<Rightarrow> u32 list \<Rightarrow> bool option" where
  "xm_check_dst_port port num_ports source_port_first source_port_last packet_streams validation =
     (if port > source_port_last \<or> port < source_port_first then Some False
      else if num_ports = 0 then None
      else (let to_validate = uint port - uint source_port_first;
                mi = sint (validation ! 1 mod num_ports);
                ma = sint ((validation ! 1 + packet_streams - 1) mod num_ports);
                n = sint num_ports
            in Some ((ma - mi) smod n \<ge> (to_validate - mi) smod n)))"

definition xm_get_src_port :: "u32 \<Rightarrow> u32 \<Rightarrow> u16 \<Rightarrow> u32 list \<Rightarrow> u16 option" where
  "xm_get_src_port num_ports probe_num source_port_first validation =
     (if num_ports = 0 then None
      else Some (ucast (ucast source_port_first + (validation ! 1 + probe_num) mod num_ports)))"

section \<open>What the checksums are\<close>

text \<open>The one's complement of the sum of 16-bit words, by the sum as a natural number.\<close>

definition ones_comp :: "nat \<Rightarrow> nat" where
  "ones_comp s = (if s = 0 then 65535 else 65534 - (s - 1) mod 65535)"

lemma ones_comp_verify: "ones_comp (s + ones_comp s) = 0"
proof (cases "s = 0")
  case False
  define r q where "r = (s - 1) mod 65535" "q = (s - 1) div 65535"
  have "s - 1 = 65535 * q + r" "r < 65535" by (simp_all add: r_q_def)
  then have r: "s + (65534 - r) - 1 = 65535 * q + 65534" using False by linarith
  have "(s + (65534 - r) - 1) mod 65535 = 65534" unfolding r by simp
  then show ?thesis using False by (simp add: ones_comp_def r_q_def)
qed (simp add: ones_comp_def)

lemma unat_u16_le: "unat (w :: u16) \<le> 65535"
  using unsigned_less [of w, where ?'a = nat] by simp

lemma ones_comp_fold:
  assumes "t = s div 65536 + s mod 65536" "s < 2 ^ 32"
  shows "ones_comp s = 65535 - (t + t div 65536) mod 65536"
proof -
  define a b where "a = s div 65536" "b = s mod 65536"
  have ab: "s = 65535 * a + t" "t = a + b" "a < 65536" "b < 65536"
    using assms by (auto simp: a_b_def algebra_simps)
  show ?thesis
  proof (cases "s = 0")
    case False
    then have t: "1 \<le> t" "t \<le> 131070" using ab by auto
    have "(s - 1) mod 65535 = (65535 * a + (t - 1)) mod 65535" using ab(1) t(1) by simp
    then have m: "(s - 1) mod 65535 = (t - 1) mod 65535" by simp
    consider "t \<le> 65535" | "65536 \<le> t" by linarith
    then show ?thesis
    proof cases
      case 1
      then show ?thesis using m t False by (simp add: ones_comp_def)
    next
      case 2
      then have "t = 65536 + (t - 65536)" "t - 65536 \<le> 65534" using t(2) by simp_all
      then obtain u where "t = 65536 + u" "u \<le> 65534" by blast
      moreover from this have "(65536 + u + (65536 + u) div 65536) mod 65536 = Suc u"
        using mod_add_self1 [of 65536 "Suc u"] div_add_self1 [of 65536 u] by (simp del: div_add_self1 mod_add_self1)
      ultimately show ?thesis using m False by (simp add: ones_comp_def)
    qed
  qed (use assms in \<open>simp add: ones_comp_def\<close>)
qed

lemma finish_checksum:
  assumes "unat (s :: u64) < 2 ^ 32"
  shows "unat (let s = drop_bit 16 s + (s AND 0xffff); s = s + drop_bit 16 s in ucast (NOT s) :: u16) = ones_comp (unat s)"
proof -
  define t where "t = drop_bit 16 s + (s AND 0xffff)"
  have "s AND 0xffff = take_bit 16 s" by (simp add: take_bit_eq_mask mask_eq_exp_minus_1)
  then have ut: "unat t = unat s div 65536 + unat s mod 65536"
    using assms by (simp add: t_def unat_word_ariths drop_bit_eq_div unat_div take_bit_eq_mod unat_mod)
  then have "unat t < 131072" using assms by auto
  then have "unat (t + drop_bit 16 t) = unat t + unat t div 65536"
    by (simp add: unat_word_ariths drop_bit_eq_div unat_div)
  moreover have "unat (ucast (NOT (t + drop_bit 16 t)) :: u16) = 65535 - unat (t + drop_bit 16 t) mod 65536"
  proof -
    have "(ucast (NOT (t + drop_bit 16 t)) :: u16) = NOT (ucast (t + drop_bit 16 t))"
      by (rule bit_word_eqI) (simp add: bit_simps)
    moreover have "unat (NOT w) = 65535 - unat w" for w :: u16
      
    proof -
      have "NOT w = - 1 - w" by (simp add: not_eq_complement)
      then show ?thesis by (simp add: unat_sub word_le_nat_alt unsigned_minus_1_eq_mask mask_eq_exp_minus_1 unat_u16_le)
    qed
    ultimately show ?thesis by (simp add: unsigned_ucast_eq take_bit_eq_mod)
  qed
  ultimately show ?thesis using ones_comp_fold [OF ut] assms by (simp add: t_def Let_def)
qed

text \<open>The sum of the words.\<close>

definition word_sum :: "packet \<Rightarrow> nat \<Rightarrow> nat \<Rightarrow> nat" where
  "word_sum p pos n = (\<Sum>i < n. unat (load16 p (pos + 2 * i)))"

lemma word_sum_le: "word_sum p pos n \<le> 65535 * n"
  unfolding word_sum_def using sum_bounded_above [of "{..<n}" "\<lambda>i. unat (load16 p (pos + 2 * i))" 65535] unat_u16_le
  by (simp add: mult.commute)

lemma sum_words_sum:
  "unat s + 65535 * n < 2 ^ 64 \<Longrightarrow> unat (sum_words p pos n s) = unat s + word_sum p pos n"
proof (induction n arbitrary: pos s)
  case (Suc n)
  have w: "unat (load16 p pos) \<le> 65535" by (rule unat_u16_le)
  then have "unat (s + ucast (load16 p pos)) = unat s + unat (load16 p pos)"
    using Suc.prems by (subst unat_add_small) (simp_all add: unat_ucast_small)
  then show ?case using Suc w by (simp add: word_sum_def sum.lessThan_Suc_shift algebra_simps del: sum.lessThan_Suc)
qed (simp add: word_sum_def)

lemma word_sum_store:
  assumes "k < n" "load16 p (pos + 2 * k) = 0"
  shows "word_sum (store16 p (pos + 2 * k) w) pos n = word_sum p pos n + unat w"
proof -
  let ?q = "store16 p (pos + 2 * k) w"
  have "i \<noteq> k \<Longrightarrow> load16 ?q (pos + 2 * i) = load16 p (pos + 2 * i)" for i
    by (rule load_store_apart) presburger
  then have "(\<Sum>i \<in> {..<n} - {k}. unat (load16 ?q (pos + 2 * i))) = (\<Sum>i \<in> {..<n} - {k}. unat (load16 p (pos + 2 * i)))"
    by (intro sum.cong) auto
  then show ?thesis using assms by (simp add: word_sum_def sum.remove [of "{..<n}" k])
qed

lemma in_checksum_unat:
  "len \<le> 65535 \<Longrightarrow> unat (xm_in_checksum p pos len) = ones_comp (word_sum p pos (len div 2))"
  using word_sum_le [of p pos "len div 2"] finish_checksum [of "sum_words p pos (len div 2) 0"]
  by (simp add: xm_in_checksum_def sum_words_sum del: Let_def) (simp add: Let_def)

text \<open>A checksum stored into a field that held zero makes the checksum of the whole zero.\<close>

lemma in_checksum_verifies:
  assumes "len \<le> 65535" "k < len div 2" "load16 p (pos + 2 * k) = 0"
  shows "xm_in_checksum (store16 p (pos + 2 * k) (xm_in_checksum p pos len)) pos len = 0"
  using assms in_checksum_unat [OF assms(1)] by (simp add: word_sum_store ones_comp_verify flip: unat_eq_0)

text \<open>The sums read nothing outside of the words they run over.\<close>

lemma sum_words_cong:
  "(\<And>i. pos \<le> i \<Longrightarrow> i < pos + 2 * n \<Longrightarrow> p i = q i) \<Longrightarrow> sum_words p pos n s = sum_words q pos n s"
proof (induction n arbitrary: pos s)
  case (Suc n)
  have "load16 p pos = load16 q pos" by (rule load_cong) (simp add: Suc.prems)
  moreover have "sum_words p (pos + 2) n s' = sum_words q (pos + 2) n s'" for s'
    using Suc.prems by (intro Suc.IH) simp
  ultimately show ?case by simp
qed simp

lemma tcp_checksum_cong:
  assumes "even (unat len)" "\<And>i. pos \<le> i \<Longrightarrow> i < pos + unat len \<Longrightarrow> p i = q i"
  shows "xm_tcp_checksum len s d p pos = xm_tcp_checksum len s d q pos"
proof -
  have "sum_words p pos (unat len div 2) 0 = sum_words q pos (unat len div 2) 0"
    using assms by (intro sum_words_cong) simp
  then show ?thesis using assms(1) by (simp add: xm_tcp_checksum_def)
qed

lemma in_checksum_cong:
  "(\<And>i. pos \<le> i \<Longrightarrow> i < pos + len \<Longrightarrow> p i = q i) \<Longrightarrow> xm_in_checksum p pos len = xm_in_checksum q pos len"
proof -
  assume "\<And>i. pos \<le> i \<Longrightarrow> i < pos + len \<Longrightarrow> p i = q i"
  then have "sum_words p pos (len div 2) 0 = sum_words q pos (len div 2) 0"
    by (intro sum_words_cong) simp
  then show ?thesis by (simp add: xm_in_checksum_def)
qed

lemma ip_checksum_verifies:
  "load16 p (pos + 10) = 0 \<Longrightarrow> xm_ip_checksum (store16 p (pos + 10) (xm_ip_checksum p pos)) pos = 0"
  using in_checksum_verifies [of sizeof_ip 5 p pos] by (simp add: xm_ip_checksum_def sizeof_ip_def)

lemma icmp_checksum_verifies:
  "load16 p (pos + 2) = 0 \<Longrightarrow> xm_icmp_checksum (store16 p (pos + 2) (xm_icmp_checksum p pos)) pos = 0"
  using in_checksum_verifies [of sizeof_icmp 1 p pos] by (simp add: xm_icmp_checksum_def sizeof_icmp_def)

text \<open>The sum of the pseudo header that a TCP checksum includes.\<close>

definition pseudo_sum :: "u32 \<Rightarrow> u32 \<Rightarrow> u16 \<Rightarrow> nat" where
  "pseudo_sum saddr daddr len = unat saddr mod 65536 + unat saddr div 65536
     + unat daddr mod 65536 + unat daddr div 65536 + unat (htons len) + unat (htons 6)"

lemma tcp_checksum_unat:
  assumes "even (unat len)"
  shows "unat (xm_tcp_checksum len s d p pos) = ones_comp (word_sum p pos (unat len div 2) + pseudo_sum s d len)"
proof -
  have small: "word_sum p pos (unat len div 2) \<le> 65535 * 32767"
  proof -
    have "unat len div 2 \<le> 32767" using unat_u16_le [of len] by simp
    then show ?thesis using word_sum_le [of p pos "unat len div 2"] by simp
  qed
  define w0 where "w0 = sum_words p pos (unat len div 2) 0"
  have w0: "unat w0 = word_sum p pos (unat len div 2)"
    unfolding w0_def by (subst sum_words_sum) (use unat_u16_le [of len] in simp_all)
  have lo: "unat (ucast a AND 0xffff :: u64) = unat a mod 65536" for a :: u32
  proof -
    have "ucast a AND 0xffff = take_bit 16 (ucast a :: u64)" by (simp add: take_bit_eq_mask mask_eq_exp_minus_1)
    then show ?thesis by (simp add: take_bit_eq_mod unat_mod)
  qed
  have hi: "unat (drop_bit 16 a) = unat a div 65536" for a :: u32
    by (simp add: drop_bit_eq_div unat_div)
  have hw: "unat (ucast (b :: u16) :: u64) = unat b" for b
    using unat_u16_le [of b] by (subst unat_ucast_small) simp_all
  define w1 where "w1 = w0 + (ucast s AND 0xffff) + ucast (drop_bit 16 s) + (ucast d AND 0xffff) +
    ucast (drop_bit 16 d) + ucast (htons len) + ucast (htons 6)"
  have b: "unat s div 65536 < 65536" "unat d div 65536 < 65536" using unat_lt_u32 [of s] unat_lt_u32 [of d] by auto
  have "unat w1 = word_sum p pos (unat len div 2) + pseudo_sum s d len"
    using small b unat_u16_le [of "htons len"] unat_u16_le [of "htons 6"]
    by (simp add: w1_def pseudo_sum_def unat_word_ariths w0 lo hi hw)
  moreover have "word_sum p pos (unat len div 2) + pseudo_sum s d len < 2 ^ 32"
    using small b unat_u16_le [of "htons len"] unat_u16_le [of "htons 6"] by (simp add: pseudo_sum_def)
  ultimately show ?thesis
    using finish_checksum [of w1] assms by (simp add: xm_tcp_checksum_def Let_def w1_def w0_def)
qed

lemma tcp_checksum_verifies:
  assumes "load16 p (pos + 16) = 0" "unat len = 20"
  shows "xm_tcp_checksum len s d (store16 p (pos + 16) (xm_tcp_checksum len s d p pos)) pos = 0"
proof -
  let ?c = "xm_tcp_checksum len s d p pos"
  have "word_sum (store16 p (pos + 2 * 8) ?c) pos 10 = word_sum p pos 10 + unat ?c"
    using assms by (intro word_sum_store) simp_all
  moreover have "even (unat len)" using assms(2) by simp
  ultimately have "unat (xm_tcp_checksum len s d (store16 p (pos + 16) ?c) pos) =
      ones_comp (word_sum p pos 10 + pseudo_sum s d len + ones_comp (word_sum p pos 10 + pseudo_sum s d len))"
    using assms(2) by (simp add: tcp_checksum_unat ac_simps)
  then show ?thesis unfolding ones_comp_verify by (simp flip: unat_eq_0)
qed

section \<open>The window of accepted ports\<close>

lemma smod_small: "\<bar>a\<bar> < n \<Longrightarrow> a smod n = (a :: int)"
  by (simp add: smod_int_alt_def abs_mult_sgn mult.commute)

lemma smod_diff: "a < n \<Longrightarrow> b < n \<Longrightarrow> (int a - int b) smod int n = int a - int b"
  by (rule smod_small) linarith

definition port_count :: "u16 \<Rightarrow> u16 \<Rightarrow> u32" where
  "port_count lo hi = of_int (uint hi - uint lo + 1)"

lemma uint_diff: "lo \<le> hi \<Longrightarrow> uint hi - uint lo = int (unat hi - unat lo)" for lo hi :: u16
  by (simp only: word_le_nat_alt uint_nat of_nat_diff)

lemma port_count_unat: "lo \<le> hi \<Longrightarrow> unat (port_count lo hi) = unat hi - unat lo + 1"
proof -
  assume "lo \<le> hi"
  then have "uint hi - uint lo + 1 = int (unat hi - unat lo + 1)"
    by (simp only: uint_diff of_nat_add of_nat_1)
  then have "port_count lo hi = of_nat (unat hi - unat lo + 1)"
    by (simp only: port_count_def of_int_of_nat_eq)
  moreover have "unat hi - unat lo + 1 < 4294967296" using unat_u16_le [of hi] by simp
  ultimately show ?thesis by (simp only: unat_of_nat_u32)
qed

lemma check_dst_port_window:
  assumes "lo \<le> hi"
  shows "xm_check_dst_port port (port_count lo hi) lo hi streams validation =
    Some (lo \<le> port \<and> port \<le> hi \<and>
      unat port - unat lo \<le> unat (validation ! 1 + streams - 1) mod (unat hi - unat lo + 1))"
proof (cases "lo \<le> port \<and> port \<le> hi")
  case True
  let ?n = "port_count lo hi"
  have n: "unat ?n = unat hi - unat lo + 1" by (rule port_count_unat [OF assms])
  have nn: "unat ?n \<le> 65536" using n unat_u16_le [of hi] by simp
  have nz: "?n \<noteq> 0" using n by (metis add_is_0 unsigned_0 zero_neq_one)
  have pos: "unat w mod unat ?n < unat ?n" for w :: u32 using n by simp
  have s: "sint (w mod ?n) = int (unat w mod unat ?n)" for w
  proof -
    show ?thesis using nn pos [of w] by (subst sint_small) (simp_all add: unat_mod)
  qed
  have sn: "sint ?n = int (unat ?n)" using nn by (subst sint_small) simp_all
  let ?ma = "int (unat (validation ! 1 + streams - 1) mod unat ?n)" and ?mi = "int (unat (validation ! 1) mod unat ?n)"
  have t: "uint port - uint lo = int (unat port - unat lo)"
    using True by (intro uint_diff) simp
  have "unat port - unat lo < unat ?n" using True n by (auto simp: word_le_nat_alt)
  then have "(uint port - uint lo - ?mi) smod int (unat ?n) = uint port - uint lo - ?mi"
    unfolding t by (rule smod_diff [OF _ pos])
  moreover have "(?ma - ?mi) smod int (unat ?n) = ?ma - ?mi" by (rule smod_diff [OF pos pos])
  ultimately have "xm_check_dst_port port ?n lo hi streams validation = Some (uint port - uint lo \<le> ?ma)"
    using True nz by (auto simp: xm_check_dst_port_def s sn)
  then show ?thesis using True by (simp only: t n) simp
next
  case False
  then show ?thesis by (auto simp: xm_check_dst_port_def)
qed

lemma get_src_port_window:
  assumes "lo \<le> hi"
  obtains port where "xm_get_src_port (port_count lo hi) i lo validation = Some port"
    "lo \<le> port" "port \<le> hi"
    "unat port - unat lo = unat (validation ! 1 + i) mod (unat hi - unat lo + 1)"
proof -
  let ?n = "port_count lo hi"
  have n: "unat ?n = unat hi - unat lo + 1" by (rule port_count_unat [OF assms])
  have nz: "?n \<noteq> 0" using n by (metis add_is_0 unsigned_0 zero_neq_one)
  let ?k = "unat (validation ! 1 + i) mod (unat hi - unat lo + 1)"
  have k: "unat lo + ?k \<le> unat hi"
  proof -
    have "?k < unat hi - unat lo + 1" by simp
    moreover have "unat lo \<le> unat hi" using assms by (simp add: word_le_nat_alt)
    ultimately show ?thesis by linarith
  qed
  define port :: u16 where "port = ucast (ucast lo + (validation ! 1 + i) mod ?n)"
  have "unat (ucast lo + (validation ! 1 + i) mod ?n :: u32) = unat lo + ?k"
    using k unat_u16_le [of hi] by (simp add: unat_word_ariths unat_mod n unsigned_ucast_eq take_bit_nat_eq_self)
  then have p: "unat port = unat lo + ?k"
    unfolding port_def using k unat_u16_le [of hi] by (subst unat_ucast_small) simp_all
  show thesis
    by (rule that [of port]) (use p k nz in \<open>simp_all add: xm_get_src_port_def port_def word_le_nat_alt\<close>)
qed

section \<open>Properties\<close>

text \<open>The source port a sender takes for a stream lies in the configured range, and the
  receiver accepts it back exactly if it does not lie above the port of the last stream in the
  range: with one stream always, with several not when the streams' ports wrap around.\<close>

theorem own_port_accepted:
  assumes "lo \<le> hi"
  shows "\<exists>port. xm_get_src_port (port_count lo hi) i lo validation = Some port \<and> lo \<le> port \<and> port \<le> hi \<and>
    xm_check_dst_port port (port_count lo hi) lo hi streams validation =
      Some (unat (validation ! 1 + i) mod (unat hi - unat lo + 1) \<le>
        unat (validation ! 1 + streams - 1) mod (unat hi - unat lo + 1)) \<and>
    (streams = 1 \<longrightarrow> i = 0 \<longrightarrow> xm_check_dst_port port (port_count lo hi) lo hi streams validation = Some True)"
proof -
  obtain port where "xm_get_src_port (port_count lo hi) i lo validation = Some port"
    "lo \<le> port" "port \<le> hi" "unat port - unat lo = unat (validation ! 1 + i) mod (unat hi - unat lo + 1)"
    using get_src_port_window [OF assms] by metis
  then show ?thesis by (intro exI [of _ port]) (simp add: check_dst_port_window [OF assms])
qed

theorem own_port_accepted_witness:
  "\<exists>port. xm_get_src_port (port_count 32768 61000) 0 32768 [0, 7] = Some port \<and>
    xm_check_dst_port port (port_count 32768 61000) 32768 61000 1 [0, 7] = Some True"
proof -
  have le: "(32768 :: u16) \<le> 61000" by simp
  show ?thesis using own_port_accepted [OF le, of 0 "[0, 7]" 1] by auto
qed

text \<open>The window of accepted ports is not the window of the ports in use: of ten ports
  with two streams, one stream's own port is refused when the two wrap around, and a port below
  both is accepted when they do not.\<close>

theorem port_window_diverges:
  "xm_get_src_port (port_count 10 19) 0 10 [0, 9] = Some 19 \<and>
   xm_check_dst_port 19 (port_count 10 19) 10 19 2 [0, 9] = Some False \<and>
   xm_get_src_port (port_count 10 19) 0 10 [0, 5] = Some 15 \<and> xm_get_src_port (port_count 10 19) 1 10 [0, 5] = Some 16 \<and>
   xm_check_dst_port 12 (port_count 10 19) 10 19 2 [0, 5] = Some True"
  by (simp add: check_dst_port_window) (simp add: xm_get_src_port_def port_count_def)

end
