(* ===== verification/Probes.thy ===== *)
theory Probes
  imports Packet Aesrand Store
begin

text \<open>
  The probe modules of \<open>src/probe\<close>: each makes the packets of a scan, recognises the answers to
  them by the validation words of the address pair, and stores what an answer says.  A probe is
  a record of functions; what the modules keep in static variables is a state passed to them.
\<close>

unbundle bit_operations_syntax

section \<open>State and interface\<close>

text \<open>The fields of \<open>xm_context_t\<close> that probes read.\<close>

record probe_context =
  source_port_first :: u16
  source_port_last :: u16
  target_port :: u16
  packet_streams :: int

text \<open>The static variables of a probe module.\<close>

record probe_static =
  gcontext :: probe_context
  num_ports :: u32

text \<open>The verdict on a packet: accepted or not, and what the calls leave in the caller's source
  address and validation words and in the static state of \<open>xm_validate.c\<close>; \<open>None\<close> is a division
  by zero.\<close>

type_synonym verdict = "(bool \<times> u32 \<times> u32 list \<times> validate_state) option"

record xm_probe =
  probe_name :: string
  packet_length :: u64
  probe_type :: u8
  port_args :: bool
  probe_context_init :: "probe_context \<Rightarrow> probe_static \<Rightarrow> probe_static"
  probe_thread_init :: "u32 \<Rightarrow> packet \<Rightarrow> u8 list \<Rightarrow> u8 list \<Rightarrow> u16 \<Rightarrow> packet"
  probe_make_packet :: "probe_static \<Rightarrow> u64 \<times> u64 \<Rightarrow> packet \<Rightarrow> u32 \<Rightarrow> u32 \<Rightarrow> u8 \<Rightarrow> u32 list \<Rightarrow> u32 \<Rightarrow> packet option"
  probe_validate_packet :: "probe_static \<Rightarrow> packet \<Rightarrow> u32 \<Rightarrow> u32 \<Rightarrow> u32 list \<Rightarrow> validate_state \<Rightarrow> verdict"
  probe_process_packet :: "packet \<Rightarrow> xm_store \<Rightarrow> xm_store"

definition MAX_PACKET_SIZE :: nat where "MAX_PACKET_SIZE = 4096"
definition IPPROTO_ICMP :: u8 where "IPPROTO_ICMP = 1"
definition IPPROTO_TCP :: u8 where "IPPROTO_TCP = 6"
definition TH_SYN :: u16 where "TH_SYN = 2"
definition TH_RST :: u8 where "TH_RST = 4"
definition TH_ACK :: u16 where "TH_ACK = 16"

definition PROBE_TCP_SYN :: u8 where "PROBE_TCP_SYN = 1"
definition PROBE_ICMP_ECHO :: u8 where "PROBE_ICMP_ECHO = 2"
definition PROBE_ICMP_ECHO_TIME :: u8 where "PROBE_ICMP_ECHO_TIME = 3"

definition ICMP_SMALLEST_SIZE :: nat where "ICMP_SMALLEST_SIZE = 5"
definition ICMP_TIMXCEED_UNREACH_HEADER_SIZE :: nat where "ICMP_TIMXCEED_UNREACH_HEADER_SIZE = 8"
definition ICMP_ECHOREPLY :: u8 where "ICMP_ECHOREPLY = 0"
definition ICMP_UNREACH :: u8 where "ICMP_UNREACH = 3"
definition ICMP_SOURCEQUENCH :: u8 where "ICMP_SOURCEQUENCH = 4"
definition ICMP_REDIRECT :: u8 where "ICMP_REDIRECT = 5"
definition ICMP_TIMXCEED :: u8 where "ICMP_TIMXCEED = 11"

lemmas probe_consts =
  IPPROTO_ICMP_def IPPROTO_TCP_def TH_SYN_def TH_RST_def TH_ACK_def ICMP_SMALLEST_SIZE_def
  ICMP_TIMXCEED_UNREACH_HEADER_SIZE_def ICMP_ECHOREPLY_def ICMP_UNREACH_def ICMP_SOURCEQUENCH_def
  ICMP_REDIRECT_def ICMP_TIMXCEED_def header_sizes

text \<open>The headers of a frame, and the header length of an IP packet.\<close>

definition ip_at :: nat where "ip_at = sizeof_ether_header"
definition payload_at :: nat where "payload_at = sizeof_ether_header + sizeof_ip"

definition ip_hl :: "packet \<Rightarrow> nat" where "ip_hl ip_hdr = unat (lo_nibble (ip_hdr 0))"

section \<open>TCP SYN scan\<close>

definition synscan_probe_context_init :: "probe_context \<Rightarrow> probe_static \<Rightarrow> probe_static" where
  "synscan_probe_context_init context st =
     st\<lparr>gcontext := context,
        num_ports := of_int (uint (source_port_last context) - uint (source_port_first context) + 1)\<rparr>"

definition synscan_probe_thread_init :: "u32 \<Rightarrow> packet \<Rightarrow> u8 list \<Rightarrow> u8 list \<Rightarrow> u16 \<Rightarrow> packet" where
  "synscan_probe_thread_init random pbuf smac dmac dport =
     (let p = put_bytes pbuf 0 (replicate MAX_PACKET_SIZE 0);
          p = xm_make_eth_header p 0 smac dmac;
          len = htons (of_nat (sizeof_ip + sizeof_tcphdr));
          p = xm_make_ip_header p ip_at IPPROTO_TCP len
      in xm_make_tcp_header random p payload_at dport TH_SYN)"

definition synscan_probe_make_packet ::
  "probe_static \<Rightarrow> u64 \<times> u64 \<Rightarrow> packet \<Rightarrow> u32 \<Rightarrow> u32 \<Rightarrow> u8 \<Rightarrow> u32 list \<Rightarrow> u32 \<Rightarrow> packet option" where
  "synscan_probe_make_packet st tv pbuf sip dip ttl validation probe_num =
     (let tcp_seq = validation ! 0;
          p = store32 pbuf (ip_at + 12) sip;
          p = store32 p (ip_at + 16) dip;
          p = p(ip_at + 8 := ttl)
      in case xm_get_src_port (num_ports st) probe_num (source_port_first (gcontext st)) validation of
           None \<Rightarrow> None
         | Some port \<Rightarrow>
             (let p = store16 p payload_at (htons port);
                  p = store32 p (payload_at + 4) tcp_seq;
                  p = store16 p (payload_at + 16) 0;
                  p = store16 p (payload_at + 16)
                        (xm_tcp_checksum (of_nat sizeof_tcphdr) (load32 p (ip_at + 12)) (load32 p (ip_at + 16)) p payload_at);
                  p = store16 p (ip_at + 10) 0
              in Some (store16 p (ip_at + 10) (xm_ip_checksum p ip_at))))"

definition synscan_probe_validate_packet ::
  "probe_static \<Rightarrow> packet \<Rightarrow> u32 \<Rightarrow> u32 \<Rightarrow> u32 list \<Rightarrow> validate_state \<Rightarrow> verdict" where
  "synscan_probe_validate_packet st ip_hdr len sip validation vs =
     (let result = (\<lambda>ok. Some (ok, sip, validation, vs))
      in if ip_hdr 9 \<noteq> IPPROTO_TCP then result False
         else if 4 * ip_hl ip_hdr + sizeof_tcphdr > unat len then result False
         else (let tcp = at_offset ip_hdr (4 * ip_hl ip_hdr);
                   sport = load16 tcp 0;
                   dport = load16 tcp 2
               in if ntohs sport \<noteq> target_port (gcontext st) then result False
                  else case xm_check_dst_port (ntohs dport) (num_ports st) (source_port_first (gcontext st))
                         (source_port_last (gcontext st)) (of_int (packet_streams (gcontext st))) validation of
                      None \<Rightarrow> None
                    | Some ok \<Rightarrow>
                        if \<not> ok then result False
                        else if tcp 13 AND TH_RST \<noteq> 0 then
                          result (\<not> (htonl (load32 tcp 8) \<noteq> htonl (validation ! 0) \<and>
                                     htonl (load32 tcp 8) \<noteq> htonl (validation ! 0) + 1))
                        else result (\<not> htonl (load32 tcp 8) \<noteq> htonl (validation ! 0) + 1)))"

definition synscan_probe_process_packet :: "packet \<Rightarrow> xm_store \<Rightarrow> xm_store" where
  "synscan_probe_process_packet pbuf xstore =
     (let ip_hdr = at_offset pbuf ip_at;
          tcp = at_offset ip_hdr (4 * ip_hl ip_hdr);
          (success, msg) = (if tcp 13 AND TH_RST \<noteq> 0 then (0, ''rst'') else (1, ''synacn''));
          s = xm_store_map_start xstore (Some ''tcp'') 7;
          s = xm_store_write_uint8 s (Some ''success'') success;
          s = xm_store_write_kv s ''msg'' (Some msg);
          s = xm_store_write_uint16 s (Some ''sport'') (ntohs (load16 tcp 0));
          s = xm_store_write_uint16 s (Some ''dport'') (ntohs (load16 tcp 2));
          s = xm_store_write_uint32 s (Some ''seqnum'') (ntohl (load32 tcp 4));
          s = xm_store_write_uint32 s (Some ''acknum'') (ntohl (load32 tcp 8))
      in xm_store_write_uint32 s (Some ''window'') (ucast (ntohs (load16 tcp 14))))"

definition probe_tcp_synscan :: xm_probe where
  "probe_tcp_synscan =
     \<lparr>probe_name = ''tcp_synscan'', packet_length = 54, probe_type = PROBE_TCP_SYN, port_args = True,
      probe_context_init = synscan_probe_context_init, probe_thread_init = synscan_probe_thread_init,
      probe_make_packet = synscan_probe_make_packet, probe_validate_packet = synscan_probe_validate_packet,
      probe_process_packet = synscan_probe_process_packet\<rparr>"

section \<open>TCP SYN/ACK scan\<close>

definition synackscan_probe_context_init :: "probe_context \<Rightarrow> probe_static \<Rightarrow> probe_static" where
  "synackscan_probe_context_init context st =
     st\<lparr>gcontext := context,
        num_ports := of_int (uint (source_port_last context) - uint (source_port_first context) + 1)\<rparr>"

definition synackscan_probe_thread_init :: "u32 \<Rightarrow> packet \<Rightarrow> u8 list \<Rightarrow> u8 list \<Rightarrow> u16 \<Rightarrow> packet" where
  "synackscan_probe_thread_init random pbuf smac dmac dport =
     (let p = put_bytes pbuf 0 (replicate MAX_PACKET_SIZE 0);
          p = xm_make_eth_header p 0 smac dmac;
          len = htons (of_nat (sizeof_ip + sizeof_tcphdr));
          p = xm_make_ip_header p ip_at IPPROTO_TCP len
      in xm_make_tcp_header random p payload_at dport (TH_SYN OR TH_ACK))"

definition synackscan_probe_make_packet ::
  "probe_static \<Rightarrow> u64 \<times> u64 \<Rightarrow> packet \<Rightarrow> u32 \<Rightarrow> u32 \<Rightarrow> u8 \<Rightarrow> u32 list \<Rightarrow> u32 \<Rightarrow> packet option" where
  "synackscan_probe_make_packet st tv pbuf sip dip ttl validation probe_num =
     (let tcp_seq = validation ! 0;
          p = store32 pbuf (ip_at + 12) sip;
          p = store32 p (ip_at + 16) dip;
          p = p(ip_at + 8 := ttl)
      in case xm_get_src_port (num_ports st) probe_num (source_port_first (gcontext st)) validation of
           None \<Rightarrow> None
         | Some port \<Rightarrow>
             (let p = store16 p payload_at (htons port);
                  p = store32 p (payload_at + 4) tcp_seq;
                  p = store16 p (payload_at + 16) 0;
                  p = store16 p (payload_at + 16)
                        (xm_tcp_checksum (of_nat sizeof_tcphdr) (load32 p (ip_at + 12)) (load32 p (ip_at + 16)) p payload_at);
                  p = store16 p (ip_at + 10) 0
              in Some (store16 p (ip_at + 10) (xm_ip_checksum p ip_at))))"

definition synackscan_probe_validate_packet ::
  "probe_static \<Rightarrow> packet \<Rightarrow> u32 \<Rightarrow> u32 \<Rightarrow> u32 list \<Rightarrow> validate_state \<Rightarrow> verdict" where
  "synackscan_probe_validate_packet st ip_hdr len sip validation vs =
     (let result = (\<lambda>ok. Some (ok, sip, validation, vs))
      in if ip_hdr 9 \<noteq> IPPROTO_TCP then result False
         else if 4 * ip_hl ip_hdr + sizeof_tcphdr > unat len then result False
         else (let tcp = at_offset ip_hdr (4 * ip_hl ip_hdr);
                   sport = load16 tcp 0;
                   dport = load16 tcp 2
               in if ntohs sport \<noteq> target_port (gcontext st) then result False
                  else case xm_check_dst_port (ntohs dport) (num_ports st) (source_port_first (gcontext st))
                         (source_port_last (gcontext st)) (of_int (packet_streams (gcontext st))) validation of
                      None \<Rightarrow> None
                    | Some ok \<Rightarrow>
                        if \<not> ok then result False
                        else if tcp 13 AND TH_RST \<noteq> 0 then
                          result (\<not> (htonl (load32 tcp 8) \<noteq> htonl (validation ! 0) + 1 \<and>
                                     htonl (load32 tcp 4) \<noteq> htonl (validation ! 2) \<and>
                                     htonl (load32 tcp 4) \<noteq> htonl (validation ! 2) + 1))
                        else result (\<not> htonl (load32 tcp 8) \<noteq> htonl (validation ! 0) + 1)))"

definition synackscan_probe_process_packet :: "packet \<Rightarrow> xm_store \<Rightarrow> xm_store" where
  "synackscan_probe_process_packet pbuf xstore =
     (let ip_hdr = at_offset pbuf ip_at;
          tcp = at_offset ip_hdr (4 * ip_hl ip_hdr);
          success = 1;
          msg = (if tcp 13 AND TH_RST \<noteq> 0 then ''rst'' else ''synack'');
          s = xm_store_map_start xstore (Some ''tcp'') 7;
          s = xm_store_write_uint8 s (Some ''success'') success;
          s = xm_store_write_kv s ''msg'' (Some msg);
          s = xm_store_write_uint16 s (Some ''sport'') (ntohs (load16 tcp 0));
          s = xm_store_write_uint16 s (Some ''dport'') (ntohs (load16 tcp 2));
          s = xm_store_write_uint32 s (Some ''seqnum'') (ntohl (load32 tcp 4));
          s = xm_store_write_uint32 s (Some ''acknum'') (ntohl (load32 tcp 8))
      in xm_store_write_uint32 s (Some ''window'') (ucast (ntohs (load16 tcp 14))))"

definition probe_tcp_synackscan :: xm_probe where
  "probe_tcp_synackscan =
     \<lparr>probe_name = ''tcp_synackscan'', packet_length = 54, probe_type = PROBE_TCP_SYN, port_args = True,
      probe_context_init = synackscan_probe_context_init, probe_thread_init = synackscan_probe_thread_init,
      probe_make_packet = synackscan_probe_make_packet, probe_validate_packet = synackscan_probe_validate_packet,
      probe_process_packet = synackscan_probe_process_packet\<rparr>"

section \<open>ICMP echo\<close>

text \<open>The bytes that \<open>xm_validate_gen\<close> writes, seen as the words of the array they are written
  to.\<close>

definition validation_words :: "u8 list \<Rightarrow> u32 list" where
  "validation_words bs = map (\<lambda>i. le_word (take 4 (drop (4 * i) bs))) [0..<4]"

definition icmp_probe_context_init :: "probe_context \<Rightarrow> probe_static \<Rightarrow> probe_static" where
  "icmp_probe_context_init context st = st\<lparr>gcontext := context\<rparr>"

definition icmp_probe_thread_init :: "u32 \<Rightarrow> packet \<Rightarrow> u8 list \<Rightarrow> u8 list \<Rightarrow> u16 \<Rightarrow> packet" where
  "icmp_probe_thread_init random pbuf smac dmac dport =
     (let p = put_bytes pbuf 0 (replicate MAX_PACKET_SIZE 0);
          p = xm_make_eth_header p 0 smac dmac;
          len = htons (of_nat (sizeof_ip + sizeof_icmp - 8));
          p = xm_make_ip_header p ip_at IPPROTO_ICMP len
      in xm_make_icmp_header p payload_at)"

definition icmp_probe_make_packet ::
  "probe_static \<Rightarrow> u64 \<times> u64 \<Rightarrow> packet \<Rightarrow> u32 \<Rightarrow> u32 \<Rightarrow> u8 \<Rightarrow> u32 list \<Rightarrow> u32 \<Rightarrow> packet option" where
  "icmp_probe_make_packet st tv pbuf sip dip ttl validation probe_num =
     (let icmp_idnum = ucast (validation ! 1 AND 0xFFFF);
          icmp_seqnum = ucast (validation ! 2 AND 0xFFFF);
          p = store32 pbuf (ip_at + 12) sip;
          p = store32 p (ip_at + 16) dip;
          p = p(ip_at + 8 := ttl);
          p = store16 p (payload_at + 4) icmp_idnum;
          p = store16 p (payload_at + 6) icmp_seqnum;
          p = store16 p (payload_at + 2) 0;
          p = store16 p (payload_at + 2) (xm_icmp_checksum p payload_at);
          p = store16 p (ip_at + 10) 0
      in Some (store16 p (ip_at + 10) (xm_ip_checksum p ip_at)))"

definition icmp_probe_validate_packet ::
  "probe_static \<Rightarrow> packet \<Rightarrow> u32 \<Rightarrow> u32 \<Rightarrow> u32 list \<Rightarrow> validate_state \<Rightarrow> verdict" where
  "icmp_probe_validate_packet st ip_hdr len sip validation vs =
     (let result = (\<lambda>ok. Some (ok, sip, validation, vs));
          check = (\<lambda>icmp_idnum icmp_seqnum sip validation vs.
            if ucast (icmp_idnum :: u16) \<noteq> validation ! 1 AND (0xFFFF :: u32) then Some (False, sip, validation, vs)
            else if ucast (icmp_seqnum :: u16) \<noteq> validation ! 2 AND 0xFFFF then Some (False, sip, validation, vs)
            else Some (True, sip, validation, vs))
      in if ip_hdr 9 \<noteq> IPPROTO_ICMP then result False
         else if 4 * ip_hl ip_hdr + ICMP_SMALLEST_SIZE > unat len then result False
         else (let icmp_h = at_offset ip_hdr (4 * ip_hl ip_hdr);
                   icmp_idnum = load16 icmp_h 4;
                   icmp_seqnum = load16 icmp_h 6
               in if icmp_h 0 = ICMP_TIMXCEED \<or> icmp_h 0 = ICMP_UNREACH then
                    (if 4 * ip_hl ip_hdr + ICMP_TIMXCEED_UNREACH_HEADER_SIZE + sizeof_ip > unat len then result False
                     else (let ip_inner = at_offset icmp_h 8
                           in if 4 * ip_hl ip_hdr + ICMP_TIMXCEED_UNREACH_HEADER_SIZE + 4 * ip_hl ip_inner + 8 > unat len
                              then result False
                              else (let icmp_inner = at_offset ip_inner (4 * ip_hl ip_hdr);
                                        icmp_idnum = load16 icmp_inner 4;
                                        icmp_seqnum = load16 icmp_inner 6;
                                        sip = load32 ip_hdr 16;
                                        (bytes, vs) = xm_validate_gen (load32 ip_hdr 16) (load32 ip_inner 16) vs
                                    in check icmp_idnum icmp_seqnum sip (validation_words bytes) vs)))
                  else check icmp_idnum icmp_seqnum sip validation vs))"

definition icmp_probe_process_packet :: "packet \<Rightarrow> xm_store \<Rightarrow> xm_store" where
  "icmp_probe_process_packet pbuf xstore =
     (let ip_hdr = at_offset pbuf ip_at;
          icmp_hdr = at_offset ip_hdr (4 * ip_hl ip_hdr);
          (msg, success) =
            (if icmp_hdr 0 = ICMP_ECHOREPLY then (''echoreply'', 1)
             else if icmp_hdr 0 = ICMP_UNREACH then (''unreach'', 0)
             else if icmp_hdr 0 = ICMP_SOURCEQUENCH then (''sourcequench'', 0)
             else if icmp_hdr 0 = ICMP_REDIRECT then (''redirect'', 0)
             else if icmp_hdr 0 = ICMP_TIMXCEED then (''timxceed'', 0)
             else (''other'', 0));
          s = xm_store_map_start xstore (Some ''icmp'') 6;
          s = xm_store_write_uint8 s (Some ''success'') success;
          s = xm_store_write_kv s ''msg'' (Some msg);
          s = xm_store_write_uint8 s (Some ''type'') (icmp_hdr 0);
          s = xm_store_write_uint8 s (Some ''code'') (icmp_hdr 1);
          s = xm_store_write_uint32 s (Some ''id'') (ucast (ntohs (load16 icmp_hdr 4)))
      in xm_store_write_uint32 s (Some ''seq'') (ucast (ntohs (load16 icmp_hdr 6))))"

definition probe_icmp_echo :: xm_probe where
  "probe_icmp_echo =
     \<lparr>probe_name = ''icmp_echoscan'', packet_length = 62, probe_type = PROBE_ICMP_ECHO, port_args = False,
      probe_context_init = icmp_probe_context_init, probe_thread_init = icmp_probe_thread_init,
      probe_make_packet = icmp_probe_make_packet, probe_validate_packet = icmp_probe_validate_packet,
      probe_process_packet = icmp_probe_process_packet\<rparr>"

section \<open>ICMP echo with a timestamp\<close>

text \<open>The time \<open>tv\<close> is what \<open>gettimeofday\<close> gives, seconds and microseconds.\<close>

definition icmp_time_probe_context_init :: "probe_context \<Rightarrow> probe_static \<Rightarrow> probe_static" where
  "icmp_time_probe_context_init context st = st\<lparr>gcontext := context\<rparr>"

definition icmp_time_probe_thread_init :: "u32 \<Rightarrow> packet \<Rightarrow> u8 list \<Rightarrow> u8 list \<Rightarrow> u16 \<Rightarrow> packet" where
  "icmp_time_probe_thread_init random pbuf smac dmac dport =
     (let p = put_bytes pbuf 0 (replicate MAX_PACKET_SIZE 0);
          p = xm_make_eth_header p 0 smac dmac;
          len = htons (of_nat (sizeof_ip + sizeof_icmp - 8));
          p = xm_make_ip_header p ip_at IPPROTO_ICMP len
      in xm_make_icmp_header p payload_at)"

definition icmp_time_probe_make_packet ::
  "probe_static \<Rightarrow> u64 \<times> u64 \<Rightarrow> packet \<Rightarrow> u32 \<Rightarrow> u32 \<Rightarrow> u8 \<Rightarrow> u32 list \<Rightarrow> u32 \<Rightarrow> packet option" where
  "icmp_time_probe_make_packet st tv pbuf sip dip ttl validation probe_num =
     (let icmp_idnum = ucast (validation ! 1 AND 0xFFFF);
          icmp_seqnum = ucast (validation ! 2 AND 0xFFFF);
          p = store32 pbuf (ip_at + 12) sip;
          p = store32 p (ip_at + 16) dip;
          p = p(ip_at + 8 := ttl);
          p = store16 p (payload_at + 4) icmp_idnum;
          p = store16 p (payload_at + 6) icmp_seqnum;
          p = store32 p (payload_at + 8) (ucast (fst tv));
          p = store32 p (payload_at + 12) (ucast (snd tv));
          p = store32 p (payload_at + 16) dip;
          p = store16 p (payload_at + 2) 0;
          p = store16 p (payload_at + 2) (xm_icmp_checksum p payload_at);
          p = store16 p (ip_at + 10) 0
      in Some (store16 p (ip_at + 10) (xm_ip_checksum p ip_at)))"

definition icmp_time_probe_validate_packet ::
  "probe_static \<Rightarrow> packet \<Rightarrow> u32 \<Rightarrow> u32 \<Rightarrow> u32 list \<Rightarrow> validate_state \<Rightarrow> verdict" where
  "icmp_time_probe_validate_packet st ip_hdr len sip validation vs =
     (let result = (\<lambda>ok. Some (ok, sip, validation, vs));
          check = (\<lambda>icmp_idnum icmp_seqnum sip validation vs.
            if ucast (icmp_idnum :: u16) \<noteq> validation ! 1 AND (0xFFFF :: u32) then Some (False, sip, validation, vs)
            else if ucast (icmp_seqnum :: u16) \<noteq> validation ! 2 AND 0xFFFF then Some (False, sip, validation, vs)
            else Some (True, sip, validation, vs))
      in if ip_hdr 9 \<noteq> IPPROTO_ICMP then result False
         else if 4 * ip_hl ip_hdr + ICMP_SMALLEST_SIZE > unat len then result False
         else (let icmp_h = at_offset ip_hdr (4 * ip_hl ip_hdr);
                   icmp_idnum = load16 icmp_h 4;
                   icmp_seqnum = load16 icmp_h 6
               in if icmp_h 0 = ICMP_TIMXCEED \<or> icmp_h 0 = ICMP_UNREACH then
                    (if 4 * ip_hl ip_hdr + ICMP_TIMXCEED_UNREACH_HEADER_SIZE + sizeof_ip > unat len then result False
                     else (let ip_inner = at_offset icmp_h 8
                           in if 4 * ip_hl ip_hdr + ICMP_TIMXCEED_UNREACH_HEADER_SIZE + 4 * ip_hl ip_inner + 8 > unat len
                              then result False
                              else (let icmp_inner = at_offset ip_inner (4 * ip_hl ip_hdr);
                                        icmp_idnum = load16 icmp_inner 4;
                                        icmp_seqnum = load16 icmp_inner 6;
                                        sip = load32 ip_hdr 16;
                                        (bytes, vs) = xm_validate_gen (load32 ip_hdr 16) (load32 ip_inner 16) vs
                                    in check icmp_idnum icmp_seqnum sip (validation_words bytes) vs)))
                  else check icmp_idnum icmp_seqnum sip validation vs))"

definition icmp_time_probe_process_packet :: "packet \<Rightarrow> xm_store \<Rightarrow> xm_store" where
  "icmp_time_probe_process_packet pbuf xstore =
     (let ip_hdr = at_offset pbuf ip_at;
          icmp_hdr = at_offset ip_hdr (4 * ip_hl ip_hdr);
          payload = at_offset icmp_hdr 8;
          (msg, success) =
            (if icmp_hdr 0 = ICMP_ECHOREPLY then (''echoreply'', 1)
             else if icmp_hdr 0 = ICMP_UNREACH then (''unreach'', 0)
             else if icmp_hdr 0 = ICMP_SOURCEQUENCH then (''sourcequench'', 0)
             else if icmp_hdr 0 = ICMP_REDIRECT then (''redirect'', 0)
             else if icmp_hdr 0 = ICMP_TIMXCEED then (''timxceed'', 0)
             else (''other'', 0));
          s = xm_store_map_start xstore (Some ''icmpTime'') 9;
          s = xm_store_write_uint8 s (Some ''success'') success;
          s = xm_store_write_kv s ''msg'' (Some msg);
          s = xm_store_write_uint8 s (Some ''type'') (icmp_hdr 0);
          s = xm_store_write_uint8 s (Some ''code'') (icmp_hdr 1);
          s = xm_store_write_uint32 s (Some ''id'') (ucast (ntohs (load16 icmp_hdr 4)));
          s = xm_store_write_uint32 s (Some ''seq'') (ucast (ntohs (load16 icmp_hdr 6)));
          s = xm_store_write_uint64 s (Some ''sentTimestampTS'') (ucast (load32 payload 0));
          s = xm_store_write_uint64 s (Some ''sentTimestampUS'') (ucast (load32 payload 4))
      in xm_store_write_uint64 s (Some ''dstRaw'') (ucast (load32 payload 8)))"

definition probe_icmp_echo_time :: xm_probe where
  "probe_icmp_echo_time =
     \<lparr>probe_name = ''icmp_echo_time'', packet_length = 62, probe_type = PROBE_ICMP_ECHO_TIME, port_args = False,
      probe_context_init = icmp_time_probe_context_init, probe_thread_init = icmp_time_probe_thread_init,
      probe_make_packet = icmp_time_probe_make_packet, probe_validate_packet = icmp_time_probe_validate_packet,
      probe_process_packet = icmp_time_probe_process_packet\<rparr>"

section \<open>The table of probes\<close>

definition probes :: "xm_probe list" where
  "probes = [probe_tcp_synscan, probe_tcp_synackscan, probe_icmp_echo, probe_icmp_echo_time]"

definition xm_probe_get_by_name :: "string option \<Rightarrow> xm_probe option" where
  "xm_probe_get_by_name name =
     (case name of
        None \<Rightarrow> None
      | Some n \<Rightarrow> if length n = 0 then None else find (\<lambda>p. probe_name p = n) probes)"

definition xm_probe_ip_store :: "xm_probe \<Rightarrow> xm_store \<Rightarrow> packet \<Rightarrow> xm_store" where
  "xm_probe_ip_store probe xstore ip =
     (let s = xm_store_map_start xstore None 3;
          s = xm_store_write_uint8 s (Some ''type'') (probe_type probe);
          s = xm_store_map_start s (Some ''ip'') 4;
          s = xm_store_write_uint32 s (Some ''srcIP'') (load32 ip 12);
          s = xm_store_write_uint32 s (Some ''dstIP'') (load32 ip 16);
          s = xm_store_write_uint32 s (Some ''ipid'') (ucast (ntohs (load16 ip 4)))
      in xm_store_write_uint32 s (Some ''ttl'') (ucast (ip 8)))"

section \<open>Packets\<close>

text \<open>The two TCP probes differ in the flags they send, in how they take a reset, and in what they
  store; the two ICMP probes in their payload.\<close>

lemma synackscan_make_packet: "synackscan_probe_make_packet = synscan_probe_make_packet"
  by (intro ext) (simp add: synackscan_probe_make_packet_def synscan_probe_make_packet_def)

lemma icmp_time_validate: "icmp_time_probe_validate_packet = icmp_probe_validate_packet"
  by (intro ext) (simp only: icmp_time_probe_validate_packet_def icmp_probe_validate_packet_def)

lemma icmp_time_thread_init: "icmp_time_probe_thread_init = icmp_probe_thread_init"
  by (intro ext) (simp only: icmp_time_probe_thread_init_def icmp_probe_thread_init_def)

text \<open>What the buffer of a sending thread holds from its initialisation on.\<close>

definition ip_template :: "u8 \<Rightarrow> u8 list \<Rightarrow> u8 list \<Rightarrow> packet \<Rightarrow> bool" where
  "ip_template proto smac dmac p \<longleftrightarrow>
     (\<forall>i < 6. p i = dmac ! i) \<and> (\<forall>i < 6. p (6 + i) = smac ! i) \<and> load16 p 12 = htons ETHERTYPE_IP \<and>
     p 14 = 0x45 \<and> p 15 = 0 \<and> load16 p 16 = htons 40 \<and> load16 p 18 = htons 54321 \<and> load16 p 20 = 0 \<and> p 23 = proto"

definition tcp_template :: "u8 \<Rightarrow> u8 list \<Rightarrow> u8 list \<Rightarrow> u16 \<Rightarrow> packet \<Rightarrow> bool" where
  "tcp_template flags smac dmac dport p \<longleftrightarrow> ip_template IPPROTO_TCP smac dmac p \<and>
     load16 p 36 = htons dport \<and> load32 p 42 = 0 \<and> p 46 = 0x50 \<and> p 47 = flags \<and>
     load16 p 48 = htons 65535 \<and> load16 p 52 = 0"

definition icmp_template :: "u8 list \<Rightarrow> u8 list \<Rightarrow> packet \<Rightarrow> bool" where
  "icmp_template smac dmac p \<longleftrightarrow> ip_template IPPROTO_ICMP smac dmac p \<and> p 34 = ICMP_ECHO \<and> p 35 = 0 \<and>
     (\<forall>i < 8. p (54 + i) = 0)"

lemmas frame_defs = ip_at_def payload_at_def header_sizes Let_def

lemma load_zero: "(\<And>i. off \<le> i \<Longrightarrow> i < off + n \<Longrightarrow> p i = 0) \<Longrightarrow> load n p off = 0"
proof -
  assume "\<And>i. off \<le> i \<Longrightarrow> i < off + n \<Longrightarrow> p i = 0"
  then have "map p [off..<off + n] = replicate n 0" by (auto simp: list_eq_iff_nth_eq)
  moreover have "le_word (replicate n 0) = (0 :: 'a word)" by (induction n) simp_all
  ultimately show ?thesis by (simp add: load_def)
qed

lemma ip_template_init:
  assumes "length smac = 6" "length dmac = 6"
  shows "ip_template proto smac dmac (xm_make_ip_header (xm_make_eth_header p 0 smac dmac) 14 proto (htons 40))"
  using assms by (simp add: ip_template_def xm_make_ip_header_def xm_make_eth_header_def put_lo_def put_hi_def Let_def)

lemma ip_template_apart:
  assumes "ip_template proto smac dmac p" "\<And>i. i < 22 \<or> i = 23 \<Longrightarrow> q i = p i"
  shows "ip_template proto smac dmac q"
proof -
  have "load16 q 12 = load16 p 12" "load16 q 16 = load16 p 16" "load16 q 18 = load16 p 18" "load16 q 20 = load16 p 20"
    by (rule load_cong, simp add: assms(2))+
  then show ?thesis using assms by (simp add: ip_template_def)
qed

lemma synscan_thread_init:
  assumes "length smac = 6" "length dmac = 6"
  shows "tcp_template 2 smac dmac dport (synscan_probe_thread_init random pbuf smac dmac dport)"
    and "tcp_template 18 smac dmac dport (synackscan_probe_thread_init random pbuf smac dmac dport)"
proof -
  let ?e = "\<lambda>p. xm_make_ip_header (xm_make_eth_header p 0 smac dmac) 14 IPPROTO_TCP (htons 40)"
  have t: "ip_template IPPROTO_TCP smac dmac (xm_make_tcp_header random (?e p) 34 dport f)" for p f
    by (rule ip_template_apart [OF ip_template_init [OF assms]])
      (auto simp: xm_make_tcp_header_def Let_def put_lo_def put_hi_def)
  show "tcp_template 2 smac dmac dport (synscan_probe_thread_init random pbuf smac dmac dport)"
    and "tcp_template 18 smac dmac dport (synackscan_probe_thread_init random pbuf smac dmac dport)"
    using t by (simp_all add: tcp_template_def synscan_probe_thread_init_def synackscan_probe_thread_init_def
      frame_defs TH_SYN_def TH_ACK_def) (simp_all add: xm_make_tcp_header_def put_lo_def put_hi_def Let_def)
qed

lemma icmp_thread_init:
  assumes "length smac = 6" "length dmac = 6"
  shows "icmp_template smac dmac (icmp_probe_thread_init random pbuf smac dmac dport)"
proof -
  let ?e = "\<lambda>p. xm_make_ip_header (xm_make_eth_header p 0 smac dmac) 14 IPPROTO_ICMP (htons 40)"
  have "ip_template IPPROTO_ICMP smac dmac (xm_make_icmp_header (?e p) 34)" for p
    by (rule ip_template_apart [OF ip_template_init [OF assms]]) (auto simp: xm_make_icmp_header_def Let_def)
  then show ?thesis
    by (simp add: icmp_template_def icmp_probe_thread_init_def frame_defs)
      (simp add: xm_make_icmp_header_def xm_make_ip_header_def xm_make_eth_header_def put_lo_def put_hi_def
        MAX_PACKET_SIZE_def Let_def assms)
qed

text \<open>A TCP packet made in such a buffer: the fields of the probe, both checksums, and the buffer is
  ready for the next one.\<close>

definition tcp_probe_ok :: "u32 \<Rightarrow> u32 \<Rightarrow> u8 \<Rightarrow> u16 \<Rightarrow> u32 \<Rightarrow> packet \<Rightarrow> bool" where
  "tcp_probe_ok sip dip ttl sport seqnum p \<longleftrightarrow>
     p 22 = ttl \<and> load32 p 26 = sip \<and> load32 p 30 = dip \<and> load16 p 34 = htons sport \<and> load32 p 38 = seqnum \<and>
     xm_ip_checksum p 14 = 0 \<and> xm_tcp_checksum 20 sip dip p 34 = 0"

lemma synscan_make:
  assumes "tcp_template flags smac dmac dport p"
    "xm_get_src_port (num_ports st) i (source_port_first (gcontext st)) validation = Some port"
  shows "\<exists>p'. synscan_probe_make_packet st tv p sip dip ttl validation i = Some p' \<and>
    tcp_template flags smac dmac dport p' \<and> tcp_probe_ok sip dip ttl port (validation ! 0) p'"
proof -
  define p1 where "p1 = store16 (store32 (store16 ((store32 (store32 p 26 sip) 30 dip)(22 := ttl)) 34 (htons port)) 38 (validation ! 0)) 50 0"
  define p2 where "p2 = store16 (store16 p1 50 (xm_tcp_checksum 20 sip dip p1 34)) 24 0"
  define p' where "p' = store16 p2 24 (xm_ip_checksum p2 14)"
  have "load32 p1 26 = sip" "load32 p1 30 = dip" by (simp_all add: p1_def)
  then have m: "synscan_probe_make_packet st tv p sip dip ttl validation i = Some p'"
    by (simp add: synscan_probe_make_packet_def assms(2) frame_defs p1_def p2_def p'_def)
  have "xm_tcp_checksum 20 sip dip p' 34 = xm_tcp_checksum 20 sip dip (store16 p1 (34 + 16) (xm_tcp_checksum 20 sip dip p1 34)) 34"
    by (rule tcp_checksum_cong) (simp_all add: p'_def p2_def)
  also have "\<dots> = 0" by (rule tcp_checksum_verifies) (simp_all add: p1_def)
  finally have tcp: "xm_tcp_checksum 20 sip dip p' 34 = 0" .
  have "xm_ip_checksum (store16 p2 (14 + 10) (xm_ip_checksum p2 14)) 14 = 0"
    by (rule ip_checksum_verifies) (simp add: p2_def)
  then have ip: "xm_ip_checksum p' 14 = 0" by (simp add: p'_def)
  have "ip_template IPPROTO_TCP smac dmac p'"
    by (rule ip_template_apart [of _ _ _ p]) (use assms(1) in \<open>auto simp: tcp_template_def p'_def p2_def p1_def\<close>)
  then have "tcp_template flags smac dmac dport p'"
    using assms(1) by (simp add: tcp_template_def p'_def p2_def p1_def)
  moreover have "tcp_probe_ok sip dip ttl port (validation ! 0) p'"
    using tcp ip by (simp add: tcp_probe_ok_def) (simp add: p'_def p2_def p1_def)
  ultimately show ?thesis using m by blast
qed

text \<open>An ICMP packet; the checksum covers the 28 bytes of the structure.\<close>

definition icmp_probe_ok :: "u32 \<Rightarrow> u32 \<Rightarrow> u8 \<Rightarrow> u32 list \<Rightarrow> packet \<Rightarrow> bool" where
  "icmp_probe_ok sip dip ttl validation p \<longleftrightarrow>
     p 22 = ttl \<and> load32 p 26 = sip \<and> load32 p 30 = dip \<and>
     load16 p 38 = ucast (validation ! 1) \<and> load16 p 40 = ucast (validation ! 2) \<and>
     xm_ip_checksum p 14 = 0 \<and> xm_icmp_checksum p 34 = 0"

lemma ucast_and_mask: "ucast (w AND 0xFFFF) = (ucast w :: u16)" for w :: u32
proof -
  have "w AND 0xFFFF = take_bit 16 w" by (simp add: take_bit_eq_mask mask_eq_exp_minus_1)
  then show ?thesis by (simp only:) (rule bit_word_eqI, simp add: bit_simps)
qed

lemma icmp_make_from:
  assumes "icmp_template smac dmac p0" "\<And>i. i < 22 \<or> i = 23 \<or> i = 34 \<or> i = 35 \<or> 54 \<le> i \<Longrightarrow> p1 i = p0 i"
    "p1 22 = ttl" "load32 p1 26 = sip" "load32 p1 30 = dip" "load16 p1 36 = 0"
    "load16 p1 38 = ucast (validation ! 1)" "load16 p1 40 = ucast (validation ! 2)"
    "p2 = store16 (store16 p1 36 (xm_icmp_checksum p1 34)) 24 0"
    "p' = store16 p2 24 (xm_ip_checksum p2 14)"
  shows "icmp_template smac dmac p' \<and> icmp_probe_ok sip dip ttl validation p'"
proof -
  have "xm_icmp_checksum p' 34 = xm_icmp_checksum (store16 p1 (34 + 2) (xm_icmp_checksum p1 34)) 34"
    unfolding xm_icmp_checksum_def by (rule in_checksum_cong) (simp_all add: assms(9,10) xm_icmp_checksum_def)
  also have "\<dots> = 0" by (rule icmp_checksum_verifies) (simp add: assms(6))
  finally have icmp: "xm_icmp_checksum p' 34 = 0" .
  have "xm_ip_checksum (store16 p2 (14 + 10) (xm_ip_checksum p2 14)) 14 = 0"
    by (rule ip_checksum_verifies) (simp add: assms(9))
  then have ip: "xm_ip_checksum p' 14 = 0" by (simp add: assms(10))
  have "ip_template IPPROTO_ICMP smac dmac p'"
    by (rule ip_template_apart [of _ _ _ p0]) (use assms(1,2) in \<open>auto simp: icmp_template_def assms(9,10)\<close>)
  then have "icmp_template smac dmac p'" using assms(1,2) by (simp add: icmp_template_def assms(9,10))
  moreover have "icmp_probe_ok sip dip ttl validation p'"
    using icmp ip assms(3-8) by (simp add: icmp_probe_ok_def) (simp add: assms(9,10))
  ultimately show ?thesis by blast
qed

lemma icmp_make:
  assumes "icmp_template smac dmac p"
  shows "\<exists>p'. icmp_probe_make_packet st tv p sip dip ttl validation i = Some p' \<and>
    icmp_template smac dmac p' \<and> icmp_probe_ok sip dip ttl validation p'"
proof -
  define p1 where "p1 = store16 (store16 (store16 ((store32 (store32 p 26 sip) 30 dip)(22 := ttl)) 38 (ucast (validation ! 1)))
    40 (ucast (validation ! 2))) 36 0"
  define p2 where "p2 = store16 (store16 p1 36 (xm_icmp_checksum p1 34)) 24 0"
  define p' where "p' = store16 p2 24 (xm_ip_checksum p2 14)"
  have "icmp_probe_make_packet st tv p sip dip ttl validation i = Some p'"
    by (simp add: icmp_probe_make_packet_def frame_defs ucast_and_mask p1_def p2_def p'_def)
  moreover have "icmp_template smac dmac p' \<and> icmp_probe_ok sip dip ttl validation p'"
    by (rule icmp_make_from [OF assms _ _ _ _ _ _ _ p2_def p'_def]) (auto simp: p1_def)
  ultimately show ?thesis by blast
qed

text \<open>The payload of the timed probe lies in the structure, so the buffer's tail stays zero.\<close>

lemma icmp_time_make:
  assumes "icmp_template smac dmac p"
  shows "\<exists>p'. icmp_time_probe_make_packet st tv p sip dip ttl validation i = Some p' \<and>
    icmp_template smac dmac p' \<and> icmp_probe_ok sip dip ttl validation p' \<and>
    load32 p' 42 = ucast (fst tv) \<and> load32 p' 46 = ucast (snd tv) \<and> load32 p' 50 = dip"
proof -
  define p1 where "p1 = store16 (store32 (store32 (store32 (store16 (store16 ((store32 (store32 p 26 sip) 30 dip)(22 := ttl))
    38 (ucast (validation ! 1))) 40 (ucast (validation ! 2))) 42 (ucast (fst tv))) 46 (ucast (snd tv))) 50 dip) 36 0"
  define p2 where "p2 = store16 (store16 p1 36 (xm_icmp_checksum p1 34)) 24 0"
  define p' where "p' = store16 p2 24 (xm_ip_checksum p2 14)"
  have "icmp_time_probe_make_packet st tv p sip dip ttl validation i = Some p'"
    by (simp add: icmp_time_probe_make_packet_def frame_defs ucast_and_mask p1_def p2_def p'_def)
  moreover have "icmp_template smac dmac p' \<and> icmp_probe_ok sip dip ttl validation p'"
    by (rule icmp_make_from [OF assms _ _ _ _ _ _ _ p2_def p'_def]) (auto simp: p1_def)
  moreover have "load32 p' 42 = ucast (fst tv)" "load32 p' 46 = ucast (snd tv)" "load32 p' 50 = dip"
    by (simp_all add: p'_def p2_def p1_def)
  ultimately show ?thesis by blast
qed

section \<open>Verdicts\<close>

definition verdict_of :: "bool \<Rightarrow> u32 \<Rightarrow> u32 list \<Rightarrow> validate_state \<Rightarrow> verdict" where
  "verdict_of ok sip validation vs = Some (ok, sip, validation, vs)"

text \<open>A TCP packet is accepted if it is an answer from the port scanned to a port in the window,
  that acknowledges the sequence number sent.\<close>

definition tcp_answer :: "probe_context \<Rightarrow> u32 list \<Rightarrow> packet \<Rightarrow> nat \<Rightarrow> bool" where
  "tcp_answer ctx validation r len \<longleftrightarrow>
     r 9 = IPPROTO_TCP \<and> 4 * ip_hl r + 20 \<le> len \<and> ntohs (load16 r (4 * ip_hl r)) = target_port ctx \<and>
     (let port = ntohs (load16 r (4 * ip_hl r + 2)); lo = source_port_first ctx; hi = source_port_last ctx
      in lo \<le> port \<and> port \<le> hi \<and>
         unat port - unat lo \<le> unat (validation ! 1 + of_int (packet_streams ctx) - 1) mod (unat hi - unat lo + 1))"

lemma synscan_validate_iff:
  assumes "source_port_first ctx \<le> source_port_last ctx"
  shows "synscan_probe_validate_packet (synscan_probe_context_init ctx st) r len sip validation vs =
    verdict_of (tcp_answer ctx validation r (unat len) \<and>
      (ntohl (load32 r (4 * ip_hl r + 8)) = ntohl (validation ! 0) + 1 \<or>
       r (4 * ip_hl r + 13) AND TH_RST \<noteq> 0 \<and> load32 r (4 * ip_hl r + 8) = validation ! 0)) sip validation vs"
  using check_dst_port_window [OF assms, unfolded port_count_def]
  by (auto simp: synscan_probe_validate_packet_def synscan_probe_context_init_def verdict_of_def tcp_answer_def
    Let_def sizeof_tcphdr_def)

lemma synackscan_validate_iff:
  assumes "source_port_first ctx \<le> source_port_last ctx"
  shows "synackscan_probe_validate_packet (synackscan_probe_context_init ctx st) r len sip validation vs =
    verdict_of (tcp_answer ctx validation r (unat len) \<and>
      (ntohl (load32 r (4 * ip_hl r + 8)) = ntohl (validation ! 0) + 1 \<or>
       r (4 * ip_hl r + 13) AND TH_RST \<noteq> 0 \<and>
         (load32 r (4 * ip_hl r + 4) = validation ! 2 \<or>
          ntohl (load32 r (4 * ip_hl r + 4)) = ntohl (validation ! 2) + 1))) sip validation vs"
  using check_dst_port_window [OF assms, unfolded port_count_def]
  by (auto simp: synackscan_probe_validate_packet_def synackscan_probe_context_init_def verdict_of_def tcp_answer_def
    Let_def sizeof_tcphdr_def)

text \<open>An ICMP packet is judged by its own numbers, an error message by those of the packet it
  quotes, against words generated anew for the quoted address.\<close>

lemma low_half_eq: "ucast (x :: u16) = w AND (0xFFFF :: u32) \<longleftrightarrow> x = ucast w"
proof
  assume "ucast x = w AND 0xFFFF"
  then have "(ucast (ucast x :: u32) :: u16) = ucast (w AND 0xFFFF)" by simp
  moreover have "(ucast (ucast x :: u32) :: u16) = x" by (rule bit_word_eqI) (simp add: bit_simps)
  ultimately show "x = ucast w" by (simp add: ucast_and_mask)
next
  assume "x = ucast w"
  moreover have "w AND 0xFFFF = take_bit 16 w" by (simp add: take_bit_eq_mask mask_eq_exp_minus_1)
  ultimately show "ucast x = w AND 0xFFFF"
    by (simp only:) (rule bit_word_eqI, auto simp: bit_simps)
qed

definition icmp_numbers :: "u32 list \<Rightarrow> packet \<Rightarrow> nat \<Rightarrow> bool" where
  "icmp_numbers validation r off \<longleftrightarrow>
     load16 r (off + 4) = ucast (validation ! 1) \<and> load16 r (off + 6) = ucast (validation ! 2)"

lemma icmp_validate_direct:
  assumes "r 9 = IPPROTO_ICMP" "4 * ip_hl r + 5 \<le> unat len"
    "r (4 * ip_hl r) \<noteq> ICMP_TIMXCEED" "r (4 * ip_hl r) \<noteq> ICMP_UNREACH"
  shows "icmp_probe_validate_packet st r len sip validation vs =
    verdict_of (icmp_numbers validation r (4 * ip_hl r)) sip validation vs"
  using assms by (simp add: icmp_probe_validate_packet_def verdict_of_def icmp_numbers_def low_half_eq
    ICMP_SMALLEST_SIZE_def)

lemma icmp_validate_error:
  assumes "r 9 = IPPROTO_ICMP" "4 * ip_hl r + 28 \<le> unat len"
    "4 * ip_hl r + 16 + 4 * ip_hl (at_offset r (4 * ip_hl r + 8)) \<le> unat len"
    "r (4 * ip_hl r) = ICMP_TIMXCEED \<or> r (4 * ip_hl r) = ICMP_UNREACH"
    "xm_validate_gen (load32 r 16) (load32 r (4 * ip_hl r + 24)) vs = (bytes, vs')"
  shows "icmp_probe_validate_packet st r len sip validation vs =
    verdict_of (icmp_numbers (validation_words bytes) r (8 * ip_hl r + 8)) (load32 r 16) (validation_words bytes) vs'"
proof -
  have o: "at_offset (at_offset r (4 * ip_hl r)) 8 = at_offset r (4 * ip_hl r + 8)"
    by (simp add: at_offset_def add.assoc)
  have s: "4 * ip_hl r + (8 + (4 * ip_hl r + k)) = 8 * ip_hl r + 8 + k" for k by simp
  show ?thesis
    using assms by (simp add: icmp_probe_validate_packet_def o verdict_of_def icmp_numbers_def low_half_eq s
      ICMP_SMALLEST_SIZE_def ICMP_TIMXCEED_UNREACH_HEADER_SIZE_def sizeof_ip_def add.assoc)
qed

section \<open>Results\<close>

text \<open>Each probe appends calls to the packer's; what it appends does not depend on what is there.\<close>

lemma complete_calls:
  assumes "0 < n"
  shows "complete n (PackStr l # PackStrBody s # cs) \<longleftrightarrow> l = of_nat (length s) \<and> complete (n - 1) cs"
    "complete n (PackMap k # cs) \<longleftrightarrow> complete (n - 1 + 2 * unat k) cs"
    "complete n (PackUint8 v1 # cs) \<longleftrightarrow> complete (n - 1) cs"
    "complete n (PackUint16 v2 # cs) \<longleftrightarrow> complete (n - 1) cs"
    "complete n (PackUint32 v3 # cs) \<longleftrightarrow> complete (n - 1) cs"
    "complete n (PackUint64 v4 # cs) \<longleftrightarrow> complete (n - 1) cs"
  using assms by (cases n; simp)+

lemmas process_defs =
  probe_tcp_synscan_def probe_tcp_synackscan_def probe_icmp_echo_def probe_icmp_echo_time_def
  synscan_probe_process_packet_def synackscan_probe_process_packet_def icmp_probe_process_packet_def
  icmp_time_probe_process_packet_def xm_probe_ip_store_def

lemma result_calls:
  assumes "probe \<in> set probes"
  shows "\<exists>cs. \<forall>xstore. pk_buf (probe_process_packet probe p (xm_probe_ip_store probe xstore ip)) = pk_buf xstore @ cs \<and>
    complete 1 cs"
  using assms by (auto simp: probes_def process_defs store_defs complete_calls)

lemma result_frame:
  assumes "probe \<in> set probes"
  shows "(probe_process_packet probe p (xm_probe_ip_store probe xstore ip))\<lparr>pk_buf := []\<rparr> = xstore\<lparr>pk_buf := []\<rparr>"
  using assms by (auto simp: probes_def process_defs store_defs)

lemma result_store:
  assumes "probe \<in> set probes"
  shows "\<exists>cs. complete 1 cs \<and>
    probe_process_packet probe p (xm_probe_ip_store probe xstore ip) = xstore\<lparr>pk_buf := pk_buf xstore @ cs\<rparr>"
proof -
  let ?x = "probe_process_packet probe p (xm_probe_ip_store probe xstore ip)"
  obtain cs where "pk_buf ?x = pk_buf xstore @ cs" "complete 1 cs" using result_calls [OF assms] by blast
  moreover have "?x = ?x\<lparr>pk_buf := []\<rparr>\<lparr>pk_buf := pk_buf ?x\<rparr>" by simp
  ultimately show ?thesis using result_frame [OF assms, of p xstore ip] by (intro exI [of _ cs]) simp
qed

section \<open>Properties\<close>

text \<open>A configuration and a store for the concrete runs.\<close>

definition demo_ctx :: probe_context where
  "demo_ctx = \<lparr>source_port_first = 32768, source_port_last = 61000, target_port = 80, packet_streams = 1\<rparr>"

lemma demo_ctx_fields [simp]:
  "source_port_first demo_ctx = 32768" "source_port_last demo_ctx = 61000" "target_port demo_ctx = 80"
  "packet_streams demo_ctx = 1"
  by (simp_all add: demo_ctx_def)

definition demo_static :: probe_static where
  "demo_static = \<lparr>gcontext = demo_ctx, num_ports = 0\<rparr>"

definition demo_store0 :: xm_store where
  "demo_store0 = \<lparr>store_shm_fmt = demo_writer, pk_buf = [], shm_last_time = 0, shm_flush_timeout = 10\<rparr>"

text \<open>Property C18. A sending thread's buffer holds the fixed part of a SYN probe from its
  initialisation on; making a packet in it succeeds, keeps the fixed part for the next one, and
  gives a packet to the address and port asked for, with the validation word as sequence number,
  whose IP and TCP checksums verify.\<close>

theorem synscan_packets_correct:
  assumes "length smac = 6" "length dmac = 6" "source_port_first ctx \<le> source_port_last ctx"
  shows "tcp_template 2 smac dmac dport (synscan_probe_thread_init random pbuf smac dmac dport) \<and>
    (tcp_template 2 smac dmac dport p \<longrightarrow>
      (\<exists>p' port. synscan_probe_make_packet (synscan_probe_context_init ctx st) tv p sip dip ttl validation i = Some p' \<and>
        tcp_template 2 smac dmac dport p' \<and> tcp_probe_ok sip dip ttl port (validation ! 0) p' \<and>
        source_port_first ctx \<le> port \<and> port \<le> source_port_last ctx))"
proof -
  obtain port where port: "xm_get_src_port (port_count (source_port_first ctx) (source_port_last ctx)) i
      (source_port_first ctx) validation = Some port" "source_port_first ctx \<le> port" "port \<le> source_port_last ctx"
    by (rule get_src_port_window [OF assms(3)])
  then have "xm_get_src_port (num_ports (synscan_probe_context_init ctx st)) i
      (source_port_first (gcontext (synscan_probe_context_init ctx st))) validation = Some port"
    unfolding port_count_def synscan_probe_context_init_def by simp
  from synscan_make [OF _ this] show ?thesis using synscan_thread_init(1) [OF assms(1,2)] port(2,3) by blast
qed

theorem synscan_packets_correct_witness:
  "\<exists>p' port. synscan_probe_make_packet (synscan_probe_context_init
      demo_ctx
      demo_static)
      (0, 0) (synscan_probe_thread_init 9 (\<lambda>i. 0) [1, 2, 3, 4, 5, 6] [6, 5, 4, 3, 2, 1] 80) 0x0100007F 0x08080808 64 [1, 2, 3, 4] 0 = Some p' \<and>
    tcp_probe_ok 0x0100007F 0x08080808 64 port 1 p'"
  using synscan_packets_correct [where smac = "[1, 2, 3, 4, 5, 6]" and dmac = "[6, 5, 4, 3, 2, 1]" and dport = 80
    and ctx = demo_ctx
    and random = 9 and pbuf = "\<lambda>i. 0"
    and p = "synscan_probe_thread_init 9 (\<lambda>i. 0) [1, 2, 3, 4, 5, 6] [6, 5, 4, 3, 2, 1] 80"
    and st = demo_static
    and tv = "(0, 0)" and sip = "0x0100007F" and dip = "0x08080808" and ttl = "64" and validation = "[1, 2, 3, 4]" and i = "0"]
  by auto

text \<open>Property C19. Each packet that the two ICMP probes make in a buffer they initialised goes from the
  source to the destination asked for with the time to live asked for: the packet carries the two low halves of the
  validation words as its numbers, both its checksums verify, and the timed probe's payload is
  the time and the address.\<close>

theorem icmp_packets_correct:
  assumes "length smac = 6" "length dmac = 6"
  shows "icmp_template smac dmac (icmp_probe_thread_init random pbuf smac dmac dport) \<and>
    icmp_template smac dmac (icmp_time_probe_thread_init random pbuf smac dmac dport) \<and>
    (icmp_template smac dmac p \<longrightarrow>
      (\<exists>p'. icmp_probe_make_packet st tv p sip dip ttl validation i = Some p' \<and>
        icmp_template smac dmac p' \<and> icmp_probe_ok sip dip ttl validation p') \<and>
      (\<exists>p'. icmp_time_probe_make_packet st tv p sip dip ttl validation i = Some p' \<and>
        icmp_template smac dmac p' \<and> icmp_probe_ok sip dip ttl validation p' \<and>
        load32 p' 42 = ucast (fst tv) \<and> load32 p' 46 = ucast (snd tv) \<and> load32 p' 50 = dip))"
  unfolding icmp_time_thread_init by (intro conjI impI icmp_thread_init icmp_make icmp_time_make assms)

theorem icmp_packets_correct_witness:
  "\<exists>p'. icmp_probe_make_packet demo_static (0, 0) (icmp_probe_thread_init 0 (\<lambda>i. 9) [1, 2, 3, 4, 5, 6] [6, 5, 4, 3, 2, 1] 0)
      5 6 64 [1, 2, 3, 4] 0 = Some p' \<and> icmp_probe_ok 5 6 64 [1, 2, 3, 4] p'"
  using icmp_packets_correct [where smac = "[1, 2, 3, 4, 5, 6]" and dmac = "[6, 5, 4, 3, 2, 1]"
    and random = 0 and pbuf = "\<lambda>i. 9" and dport = 0
    and p = "icmp_probe_thread_init 0 (\<lambda>i. 9) [1, 2, 3, 4, 5, 6] [6, 5, 4, 3, 2, 1] 0"
    and st = demo_static and tv = "(0, 0)" and sip = 5 and dip = 6 and ttl = 64 and validation = "[1, 2, 3, 4]" and i = 0]
  by auto

text \<open>Without a wrap-around the ports of the streams are in the order of the streams.\<close>

lemma stream_ports_mono:
  assumes "i < s" "unat v + unat s \<le> 2 ^ 32" "unat v mod w + unat s \<le> w"
  shows "unat (v + i) mod w \<le> unat (v + s - 1 :: u32) mod w"
proof -
  have lt: "unat i < unat s" using assms(1) by (simp add: word_less_nat_alt)
  then have one: "unat (s - 1) = unat s - 1" by (simp add: unat_sub_small Suc_le_eq)
  have sums: "unat (v + i) = unat v + unat i" "unat (v + (s - 1)) = unat v + (unat s - 1)"
    using assms(2) lt one by (simp_all add: unat_add_small)
  have mods: "(unat v + k) mod w = unat v mod w + k" if "k < unat s" for k
  proof -
    have "(unat v + k) mod w = (unat v mod w + k) mod w" by (simp add: mod_add_left_eq)
    also have "\<dots> = unat v mod w + k" using assms(3) that by (intro mod_less) linarith
    finally show ?thesis .
  qed
  have "unat (v + i) mod w = unat v mod w + unat i" unfolding sums by (rule mods [OF lt])
  moreover have "unat (v + s - 1) mod w = unat v mod w + (unat s - 1)"
    using mods [of "unat s - 1"] lt sums(2) by (simp add: add_diff_eq)
  ultimately show ?thesis using lt by simp
qed

text \<open>Property C16. An answer to a packet of the SYN probe, from the port it went to, to the port it
  came from, acknowledging its sequence number, gets the same verdict from both TCP probes under
  the words it was made with: it is accepted exactly if its port does not lie above that of the
  last stream in the range of ports.  With one stream this always holds, and with several it
  holds when the ports of the streams do not wrap around.\<close>

theorem tcp_answer_accepted:
  assumes "source_port_first ctx \<le> source_port_last ctx"
    "tcp_template 2 smac dmac (target_port ctx) p"
    "synscan_probe_make_packet (synscan_probe_context_init ctx st) tv p sip dip ttl validation i = Some p'"
    "r 9 = IPPROTO_TCP" "4 * ip_hl r + 20 \<le> unat len"
    "load16 r (4 * ip_hl r) = load16 p' 36" "load16 r (4 * ip_hl r + 2) = load16 p' 34"
    "ntohl (load32 r (4 * ip_hl r + 8)) = ntohl (load32 p' 38) + 1"
  shows "\<exists>ok. synscan_probe_validate_packet (synscan_probe_context_init ctx st) r len sip' validation vs =
      Some (ok, sip', validation, vs) \<and>
    synackscan_probe_validate_packet (synackscan_probe_context_init ctx st) r len sip' validation vs =
      Some (ok, sip', validation, vs) \<and>
    (let ports = unat (source_port_last ctx) - unat (source_port_first ctx) + 1;
         streams = of_int (packet_streams ctx) :: u32
     in (ok \<longleftrightarrow> unat (validation ! 1 + i) mod ports \<le> unat (validation ! 1 + streams - 1) mod ports) \<and>
        (streams = 1 \<and> i = 0 \<longrightarrow> ok) \<and>
        (i < streams \<and> unat (validation ! 1) + unat streams \<le> 2 ^ 32 \<and>
           unat (validation ! 1) mod ports + unat streams \<le> ports \<longrightarrow> ok))"
proof -
  let ?lo = "source_port_first ctx" and ?hi = "source_port_last ctx"
  let ?ports = "unat ?hi - unat ?lo + 1" and ?streams = "of_int (packet_streams ctx) :: u32"
  obtain port where port: "xm_get_src_port (port_count ?lo ?hi) i ?lo validation = Some port" "?lo \<le> port" "port \<le> ?hi"
    "unat port - unat ?lo = unat (validation ! 1 + i) mod ?ports"
    by (rule get_src_port_window [OF assms(1)])
  have "xm_get_src_port (num_ports (synscan_probe_context_init ctx st)) i
      (source_port_first (gcontext (synscan_probe_context_init ctx st))) validation = Some port"
    using port(1) unfolding port_count_def synscan_probe_context_init_def by simp
  from synscan_make [OF assms(2) this] assms(3)
  have p': "tcp_template 2 smac dmac (target_port ctx) p'" "tcp_probe_ok sip dip ttl port (validation ! 0) p'"
    by (metis option.sel)+
  then have answer: "tcp_answer ctx validation r (unat len) \<longleftrightarrow>
      unat (validation ! 1 + i) mod ?ports \<le> unat (validation ! 1 + ?streams - 1) mod ?ports"
    using port assms(4-7) by (simp add: tcp_answer_def tcp_template_def tcp_probe_ok_def Let_def)
  have "ntohl (load32 r (4 * ip_hl r + 8)) = ntohl (validation ! 0) + 1"
    using assms(8) p'(2) by (simp add: tcp_probe_ok_def)
  moreover have "unat (validation ! 1 + i) mod ?ports \<le> unat (validation ! 1 + ?streams - 1) mod ?ports"
    if "i < ?streams" "unat (validation ! 1) + unat ?streams \<le> 2 ^ 32" "unat (validation ! 1) mod ?ports + unat ?streams \<le> ?ports"
    using that by (rule stream_ports_mono)
  ultimately show ?thesis
    by (auto simp: synscan_validate_iff [OF assms(1)] synackscan_validate_iff [OF assms(1)] verdict_of_def Let_def answer)
qed

theorem tcp_answer_accepted_witness:
  "\<exists>p'. synscan_probe_make_packet (synscan_probe_context_init
      demo_ctx
      demo_static)
      (0, 0) (synscan_probe_thread_init 9 (\<lambda>i. 0) [1, 2, 3, 4, 5, 6] [6, 5, 4, 3, 2, 1] 80) 1 2 64 [1, 2, 3, 4] 0 = Some p' \<and>
    synscan_probe_validate_packet (synscan_probe_context_init
      demo_ctx
      demo_static)
      (store32 (store16 (store16 ((\<lambda>i. 0)(0 := 0x45, 9 := 6)) 20 (load16 p' 36)) 22 (load16 p' 34)) 28 (htonl (ntohl (load32 p' 38) + 1)))
      40 7 [1, 2, 3, 4] \<lparr>aes_input = [], aes_sched = []\<rparr> = Some (True, 7, [1, 2, 3, 4], \<lparr>aes_input = [], aes_sched = []\<rparr>)"
proof -
    let demo_static = demo_static
  let ?p = "synscan_probe_thread_init 9 (\<lambda>i. 0) [1, 2, 3, 4, 5, 6] [6, 5, 4, 3, 2, 1] 80"
  have t: "tcp_template 2 [1, 2, 3, 4, 5, 6] [6, 5, 4, 3, 2, 1] (target_port demo_ctx) ?p"
    using synscan_thread_init(1) by simp
  obtain port where "xm_get_src_port (num_ports (synscan_probe_context_init demo_ctx demo_static)) 0
      (source_port_first (gcontext (synscan_probe_context_init demo_ctx demo_static))) [1, 2, 3, 4] = Some port"
    by (simp add: synscan_probe_context_init_def xm_get_src_port_def demo_ctx_def)
  from synscan_make [OF t this] obtain p' where
    m: "synscan_probe_make_packet (synscan_probe_context_init demo_ctx demo_static) (0, 0) ?p 1 2 64 [1, 2, 3, 4] 0 = Some p'" by blast
  let ?r = "store32 (store16 (store16 ((\<lambda>i. 0)(0 := 0x45, 9 := 6)) 20 (load16 p' 36)) 22 (load16 p' 34)) 28 (htonl (ntohl (load32 p' 38) + 1))"
  have "ip_hl ?r = 5" by (simp add: ip_hl_def lo_nibble_def)
  then show ?thesis
    using m tcp_answer_accepted [OF _ t m, of ?r 40 7 "\<lparr>aes_input = [], aes_sched = []\<rparr>"]
    by (auto simp: IPPROTO_TCP_def demo_ctx_def Let_def)
qed

text \<open>Property C40. The TCP probes read nothing beyond the length they are given, if that covers the
  IP header: packets that agree up to there get the same verdict.\<close>

theorem tcp_validate_in_bounds:
  assumes "\<forall>i < unat len. r i = r' i" "20 \<le> unat len"
  shows "synscan_probe_validate_packet st r len sip validation vs = synscan_probe_validate_packet st r' len sip validation vs \<and>
    synackscan_probe_validate_packet st r len sip validation vs = synackscan_probe_validate_packet st r' len sip validation vs"
proof -
  have head: "r 9 = r' 9" "ip_hl r = ip_hl r'" using assms by (simp_all add: ip_hl_def)
  show ?thesis
  proof (cases "4 * ip_hl r' + 20 \<le> unat len")
    case True
    let ?t = "at_offset r (4 * ip_hl r')" and ?t' = "at_offset r' (4 * ip_hl r')"
    have eqs: "?t 13 = ?t' 13" "load16 ?t 0 = load16 ?t' 0" "load16 ?t 2 = load16 ?t' 2"
      "load32 ?t 4 = load32 ?t' 4" "load32 ?t 8 = load32 ?t' 8"
      using True assms(1) by (auto intro!: load_cong)
    show ?thesis
      unfolding synscan_probe_validate_packet_def synackscan_probe_validate_packet_def head Let_def eqs by (rule conjI refl)+
  next
    case False
    then show ?thesis
      by (simp add: synscan_probe_validate_packet_def synackscan_probe_validate_packet_def head sizeof_tcphdr_def)
  qed
qed

theorem tcp_validate_in_bounds_witness:
  "synscan_probe_validate_packet demo_static (\<lambda>i. 0) 40 7 [1, 2, 3, 4] \<lparr>aes_input = [], aes_sched = []\<rparr> =
   synscan_probe_validate_packet demo_static (\<lambda>i. if i < 40 then 0 else 1) 40 7 [1, 2, 3, 4]
     \<lparr>aes_input = [], aes_sched = []\<rparr>"
  using tcp_validate_in_bounds [of 40 "\<lambda>i. 0" "\<lambda>i. if i < 40 then 0 else 1" demo_static 7 "[1, 2, 3, 4]"
    "\<lparr>aes_input = [], aes_sched = []\<rparr>"] by simp

text \<open>What the TCP probes accept, given that the receiver's window of ports is not
  empty: answers to the ports scanned that acknowledge the sequence number, and resets, which
  one probe takes with the number itself acknowledged, the other for their own sequence number
  whatever they acknowledge.\<close>

theorem tcp_accepts_exactly:
  assumes "source_port_first ctx \<le> source_port_last ctx"
  shows "((\<exists>s v w. synscan_probe_validate_packet (synscan_probe_context_init ctx st) r len sip validation vs = Some (True, s, v, w)) =
      (tcp_answer ctx validation r (unat len) \<and>
        (ntohl (load32 r (4 * ip_hl r + 8)) = ntohl (validation ! 0) + 1 \<or>
         r (4 * ip_hl r + 13) AND TH_RST \<noteq> 0 \<and> load32 r (4 * ip_hl r + 8) = validation ! 0))) \<and>
    ((\<exists>s v w. synackscan_probe_validate_packet (synackscan_probe_context_init ctx st) r len sip validation vs = Some (True, s, v, w)) =
      (tcp_answer ctx validation r (unat len) \<and>
        (ntohl (load32 r (4 * ip_hl r + 8)) = ntohl (validation ! 0) + 1 \<or>
         r (4 * ip_hl r + 13) AND TH_RST \<noteq> 0 \<and>
           (load32 r (4 * ip_hl r + 4) = validation ! 2 \<or>
            ntohl (load32 r (4 * ip_hl r + 4)) = ntohl (validation ! 2) + 1))))"
  by (simp_all add: synscan_validate_iff [OF assms] synackscan_validate_iff [OF assms] verdict_of_def)

theorem tcp_accepts_exactly_witness:
  "\<not> (\<exists>s v w. synackscan_probe_validate_packet (synackscan_probe_context_init
      demo_ctx
      demo_static)
      (\<lambda>i. 0) 40 0 [0, 0, 0, 0] \<lparr>aes_input = [], aes_sched = []\<rparr> = Some (True, s, v, w))"
  using tcp_accepts_exactly [of demo_ctx
      demo_static
      "\<lambda>i. 0" 40 0 "[0, 0, 0, 0]" "\<lparr>aes_input = [], aes_sched = []\<rparr>"]
  by (auto simp: tcp_answer_def IPPROTO_TCP_def)

text \<open>Property C20. An echo reply with the numbers of a packet of the ICMP probe is accepted under the
  words it was made with.  An error message that quotes the packet is judged under words that
  are generated again from the addresses, whatever words are given, and is reported for the
  scanner's own address; it is accepted when its IP header has no options.  With options the
  numbers are read at a wrong place, two header lengths from the start, and the message is
  accepted exactly if the numbers of the packet happen to be there too.\<close>

theorem icmp_answer_accepted:
  assumes "icmp_template smac dmac p"
    "icmp_probe_make_packet st tv p sip dip ttl (validation_words (fst (xm_validate_gen sip dip vs))) i = Some p'"
  shows "(r 9 = IPPROTO_ICMP \<longrightarrow> r (4 * ip_hl r) = ICMP_ECHOREPLY \<longrightarrow> 4 * ip_hl r + 5 \<le> unat len \<longrightarrow>
      load16 r (4 * ip_hl r + 4) = load16 p' 38 \<longrightarrow> load16 r (4 * ip_hl r + 6) = load16 p' 40 \<longrightarrow>
      icmp_probe_validate_packet st r len src (validation_words (fst (xm_validate_gen sip dip vs))) vs' =
        Some (True, src, validation_words (fst (xm_validate_gen sip dip vs)), vs')) \<and>
    (let q = 4 * ip_hl r + 8 in
      r 9 = IPPROTO_ICMP \<longrightarrow> r (4 * ip_hl r) = ICMP_UNREACH \<or> r (4 * ip_hl r) = ICMP_TIMXCEED \<longrightarrow> q + 28 \<le> unat len \<longrightarrow>
      load32 r 16 = load32 p' 26 \<longrightarrow> r q = p' 14 \<longrightarrow> load32 r (q + 16) = load32 p' 30 \<longrightarrow>
      load16 r (q + 24) = load16 p' 38 \<longrightarrow> load16 r (q + 26) = load16 p' 40 \<longrightarrow>
      icmp_probe_validate_packet st r len src v (snd (xm_validate_gen a b vs)) =
        Some (ip_hl r = 5 \<or> load16 r (8 * ip_hl r + 12) = load16 p' 38 \<and> load16 r (8 * ip_hl r + 14) = load16 p' 40,
          sip, validation_words (fst (xm_validate_gen sip dip vs)), snd (xm_validate_gen sip dip vs)))"
proof -
  let ?v = "validation_words (fst (xm_validate_gen sip dip vs))"
  have p': "icmp_template smac dmac p'" "icmp_probe_ok sip dip ttl ?v p'"
    using icmp_make [OF assms(1), of st tv sip dip ttl ?v i] assms(2) by auto
  have reply: "r 9 = IPPROTO_ICMP \<longrightarrow> r (4 * ip_hl r) = ICMP_ECHOREPLY \<longrightarrow> 4 * ip_hl r + 5 \<le> unat len \<longrightarrow>
      load16 r (4 * ip_hl r + 4) = load16 p' 38 \<longrightarrow> load16 r (4 * ip_hl r + 6) = load16 p' 40 \<longrightarrow>
      icmp_probe_validate_packet st r len src ?v vs' = Some (True, src, ?v, vs')"
    using icmp_validate_direct [of r len st src ?v vs'] p'(2)
    by (simp add: icmp_probe_ok_def icmp_numbers_def verdict_of_def ICMP_ECHOREPLY_def ICMP_TIMXCEED_def ICMP_UNREACH_def)
  have again: "xm_validate_gen sip dip (snd (xm_validate_gen a b vs)) = xm_validate_gen sip dip vs"
    by (simp add: xm_validate_gen_def Let_def list_update_swap)
  have quoted: "ip_hl (at_offset r (4 * ip_hl r + 8)) = 5" if "r (4 * ip_hl r + 8) = p' 14"
    using that p'(1) by (simp add: icmp_template_def ip_template_def ip_hl_def lo_nibble_def at_offset_def)
  have numbers: "icmp_numbers ?v r off \<longleftrightarrow> load16 r (off + 4) = load16 p' 38 \<and> load16 r (off + 6) = load16 p' 40" for off
    using p'(2) by (simp add: icmp_probe_ok_def icmp_numbers_def)
  have "let q = 4 * ip_hl r + 8 in
      r 9 = IPPROTO_ICMP \<longrightarrow> r (4 * ip_hl r) = ICMP_UNREACH \<or> r (4 * ip_hl r) = ICMP_TIMXCEED \<longrightarrow> q + 28 \<le> unat len \<longrightarrow>
      load32 r 16 = load32 p' 26 \<longrightarrow> r q = p' 14 \<longrightarrow> load32 r (q + 16) = load32 p' 30 \<longrightarrow>
      load16 r (q + 24) = load16 p' 38 \<longrightarrow> load16 r (q + 26) = load16 p' 40 \<longrightarrow>
      icmp_probe_validate_packet st r len src v (snd (xm_validate_gen a b vs)) =
        Some (ip_hl r = 5 \<or> load16 r (8 * ip_hl r + 12) = load16 p' 38 \<and> load16 r (8 * ip_hl r + 14) = load16 p' 40,
          sip, ?v, snd (xm_validate_gen sip dip vs))"
  proof (unfold Let_def, intro impI)
    assume r: "r 9 = IPPROTO_ICMP" "r (4 * ip_hl r) = ICMP_UNREACH \<or> r (4 * ip_hl r) = ICMP_TIMXCEED"
      "4 * ip_hl r + 8 + 28 \<le> unat len" "load32 r 16 = load32 p' 26" "r (4 * ip_hl r + 8) = p' 14"
      "load32 r (4 * ip_hl r + 8 + 16) = load32 p' 30" "load16 r (4 * ip_hl r + 8 + 24) = load16 p' 38"
      "load16 r (4 * ip_hl r + 8 + 26) = load16 p' 40"
    have "load32 r 16 = sip" "load32 r (4 * ip_hl r + 24) = dip"
      using r(4,6) p'(2) by (simp_all add: icmp_probe_ok_def add.commute)
    then have "xm_validate_gen (load32 r 16) (load32 r (4 * ip_hl r + 24)) (snd (xm_validate_gen a b vs)) =
        (fst (xm_validate_gen sip dip vs), snd (xm_validate_gen sip dip vs))" using again by simp
    from icmp_validate_error [OF r(1) _ _ _ this, of len st src v] r(2,3) quoted [OF r(5)]
    have "icmp_probe_validate_packet st r len src v (snd (xm_validate_gen a b vs)) =
        Some (icmp_numbers ?v r (8 * ip_hl r + 8), load32 r 16, ?v, snd (xm_validate_gen sip dip vs))"
      by (auto simp: verdict_of_def)
    moreover have "8 * ip_hl r + 8 + 4 = 4 * ip_hl r + 8 + 24" "8 * ip_hl r + 8 + 6 = 4 * ip_hl r + 8 + 26" if "ip_hl r = 5"
      using that by simp_all
    ultimately show "icmp_probe_validate_packet st r len src v (snd (xm_validate_gen a b vs)) =
        Some (ip_hl r = 5 \<or> load16 r (8 * ip_hl r + 12) = load16 p' 38 \<and> load16 r (8 * ip_hl r + 14) = load16 p' 40,
          sip, ?v, snd (xm_validate_gen sip dip vs))"
      using r(7,8) \<open>load32 r 16 = sip\<close> by (auto simp: numbers add.commute)
  qed
  then show ?thesis using reply by blast
qed

theorem icmp_answer_accepted_witness:
  "\<exists>p'. icmp_probe_make_packet demo_static
      (0, 0) (icmp_probe_thread_init 0 (\<lambda>i. 0) [1, 2, 3, 4, 5, 6] [6, 5, 4, 3, 2, 1] 0) 5 6 64
      (validation_words (fst (xm_validate_gen 5 6 \<lparr>aes_input = [0, 0, 0, 0], aes_sched = replicate 44 0\<rparr>))) 0 = Some p' \<and>
    icmp_probe_validate_packet demo_static
      (store16 (store16 ((\<lambda>i. 0)(0 := 0x45, 9 := 1)) 24 (load16 p' 38)) 26 (load16 p' 40)) 40 6
      (validation_words (fst (xm_validate_gen 5 6 \<lparr>aes_input = [0, 0, 0, 0], aes_sched = replicate 44 0\<rparr>)))
      \<lparr>aes_input = [], aes_sched = []\<rparr> =
    Some (True, 6, validation_words (fst (xm_validate_gen 5 6 \<lparr>aes_input = [0, 0, 0, 0], aes_sched = replicate 44 0\<rparr>)),
      \<lparr>aes_input = [], aes_sched = []\<rparr>)"
proof -
  let ?vs = "\<lparr>aes_input = [0, 0, 0, 0], aes_sched = replicate 44 0\<rparr>"
  let ?v = "validation_words (fst (xm_validate_gen 5 6 ?vs))"
  have t: "icmp_template [1, 2, 3, 4, 5, 6] [6, 5, 4, 3, 2, 1]
      (icmp_probe_thread_init 0 (\<lambda>i. 0) [1, 2, 3, 4, 5, 6] [6, 5, 4, 3, 2, 1] 0)"
    by (rule icmp_thread_init) simp_all
  obtain p' where m: "icmp_probe_make_packet demo_static (0, 0)
      (icmp_probe_thread_init 0 (\<lambda>i. 0) [1, 2, 3, 4, 5, 6] [6, 5, 4, 3, 2, 1] 0) 5 6 64 ?v 0 = Some p'"
    using icmp_make [OF t] by blast
  let ?r = "store16 (store16 ((\<lambda>i. 0)(0 := 0x45, 9 := 1)) 24 (load16 p' 38)) 26 (load16 p' 40)"
  have hl: "ip_hl ?r = 5" by (simp add: ip_hl_def lo_nibble_def)
  show ?thesis
    using m icmp_answer_accepted [OF t m, of ?r 40 6 "\<lparr>aes_input = [], aes_sched = []\<rparr>"] unfolding hl
    by (intro exI [of _ p']) (simp add: IPPROTO_ICMP_def ICMP_ECHOREPLY_def)
qed

text \<open>The check for the length of an ICMP packet covers five bytes of a header whose
  numbers end at the eighth: the verdict on a packet of 25 bytes depends on what follows it.\<close>

theorem icmp_reads_past_end:
  "\<exists>r r'. (\<forall>i < 25. r i = r' i) \<and>
    (\<exists>s v w. icmp_probe_validate_packet st r 25 sip [0, 0, 0, 0] vs = Some (True, s, v, w)) \<and>
    (\<exists>s v w. icmp_probe_validate_packet st r' 25 sip [0, 0, 0, 0] vs = Some (False, s, v, w))"
proof -
  let ?r = "(\<lambda>i. 0)(0 := 0x45, 9 := 1) :: packet"
  let ?r' = "store16 ?r 26 1"
  have z: "load16 ?r 24 = 0" "load16 ?r 26 = 0" by (rule load_zero, simp)+
  have hl: "ip_hl ?r = 5" "ip_hl ?r' = 5" by (simp_all add: ip_hl_def lo_nibble_def)
  have "icmp_probe_validate_packet st ?r 25 sip [0, 0, 0, 0] vs = verdict_of True sip [0, 0, 0, 0] vs"
    using icmp_validate_direct [of ?r 25 st sip "[0, 0, 0, 0]" vs] unfolding hl
    by (simp add: IPPROTO_ICMP_def ICMP_TIMXCEED_def ICMP_UNREACH_def icmp_numbers_def z)
  moreover have "icmp_probe_validate_packet st ?r' 25 sip [0, 0, 0, 0] vs = verdict_of False sip [0, 0, 0, 0] vs"
    using icmp_validate_direct [of ?r' 25 st sip "[0, 0, 0, 0]" vs] unfolding hl
    by (simp add: IPPROTO_ICMP_def ICMP_TIMXCEED_def ICMP_UNREACH_def icmp_numbers_def z)
  ultimately show ?thesis by (intro exI [of _ ?r] exI [of _ ?r']) (simp add: verdict_of_def)
qed

text \<open>What a probe stores of an answer, after the record's common part, is exactly one
  complete value of the packing format.\<close>

theorem results_complete:
  assumes "probe \<in> set probes" "pk_buf xstore = []"
  shows "complete 1 (pk_buf (probe_process_packet probe p (xm_probe_ip_store probe xstore ip)))"
  using result_calls [OF assms(1), of p ip] assms(2) by force

theorem results_complete_witness:
  "complete 1 (pk_buf (probe_process_packet probe_icmp_echo (\<lambda>i. 0) (xm_probe_ip_store probe_icmp_echo demo_store0 (\<lambda>i. 0))))"
  using results_complete [of probe_icmp_echo demo_store0 "\<lambda>i. 0" "\<lambda>i. 0"] by (simp add: probes_def demo_store0_def)

end
