(* ===== verification/Pbm.thy ===== *)
theory Pbm
  imports Libc
begin

text \<open>
  The paged bitmap of \<open>lib/common/xm_pbm.c\<close>: a set of 32-bit numbers as 65536 pages of 8192
  bytes that are allocated when their first bit is set.  The receiver keeps the addresses
  seen so far in one, the senders the list of addresses to scan.
\<close>

unbundle bit_operations_syntax

section \<open>Operations\<close>

type_synonym pbm = "u8 list option list"

definition NUM_PAGES :: nat where "NUM_PAGES = 0x10000"
definition PAGE_SIZE_IN_BYTES :: nat where "PAGE_SIZE_IN_BYTES = 0x10000 div 8"
definition PAGE_MASK :: u32 where "PAGE_MASK = 0xFFFF"

definition xm_pbm_init :: pbm where
  "xm_pbm_init = replicate NUM_PAGES None"

definition bm_check :: "u8 list \<Rightarrow> u16 \<Rightarrow> bool" where
  "bm_check bm v =
     (let page_idx = drop_bit 3 v; bit_idx = ucast (v AND 0x07) :: u8
      in bm ! unat page_idx AND push_bit (unat bit_idx) 1 \<noteq> 0)"

definition bm_set :: "u8 list \<Rightarrow> u16 \<Rightarrow> u8 list" where
  "bm_set bm v =
     (let page_idx = drop_bit 3 v; bit_idx = ucast (v AND 0x07) :: u8
      in bm[unat page_idx := bm ! unat page_idx OR push_bit (unat bit_idx) 1])"

definition xm_pbm_check :: "pbm \<Rightarrow> u32 \<Rightarrow> bool" where
  "xm_pbm_check b v =
     (let top = drop_bit 16 v; bottom = v AND PAGE_MASK
      in case b ! unat top of None \<Rightarrow> False | Some bm \<Rightarrow> bm_check bm (ucast bottom))"

definition xm_pbm_set :: "pbm \<Rightarrow> u32 \<Rightarrow> pbm" where
  "xm_pbm_set b v =
     (let top = (ucast (drop_bit 16 v) :: u16);
          bottom = (ucast (v AND PAGE_MASK) :: u16);
          bm = (case b ! unat top of None \<Rightarrow> replicate PAGE_SIZE_IN_BYTES 0 | Some bm \<Rightarrow> bm)
      in b[unat top := Some (bm_set bm bottom)])"

text \<open>
  The loop over the lines of a file.  A line that is no address is logged, and whatever
  \<open>addr\<close> holds is then added: \<open>junk\<close> is the content of that uninitialised variable in each
  iteration.
\<close>

fun load_lines :: "environment \<Rightarrow> (nat \<Rightarrow> u32) \<Rightarrow> string list \<Rightarrow> pbm \<Rightarrow> u32 \<Rightarrow> pbm \<times> u32" where
  "load_lines env junk [] b count = (b, count)"
| "load_lines env junk (line # ls) b count =
     (let line = fst (cut_at CHR ''#'' line);
          addr = (case inet_aton env line of Some a \<Rightarrow> a | None \<Rightarrow> junk (length ls))
      in load_lines env junk ls (xm_pbm_set b addr) (count + 1))"

text \<open>\<open>None\<close>: the file cannot be opened, which is logged before \<open>fgets\<close> reads from \<open>NULL\<close>.\<close>

definition xm_pbm_load_from_file ::
  "environment \<Rightarrow> (nat \<Rightarrow> u32) \<Rightarrow> pbm \<Rightarrow> string \<Rightarrow> (pbm \<times> u32) option" where
  "xm_pbm_load_from_file env junk b file =
     (case fopen env file of
        None \<Rightarrow> None
      | Some content \<Rightarrow> Some (load_lines env junk (fgets_loop 998 content) b 0))"

section \<open>A set of addresses\<close>

text \<open>The interface: a store with an abstraction to sets, an invariant, a test and an insertion.\<close>

locale addr_set =
  fixes emp :: 's and check :: "'s \<Rightarrow> u32 \<Rightarrow> bool" and ins :: "'s \<Rightarrow> u32 \<Rightarrow> 's" and inv :: "'s \<Rightarrow> bool"
  assumes inv_emp: "inv emp"
    and inv_ins: "inv s \<Longrightarrow> inv (ins s v)"
    and check_emp: "\<not> check emp v"
    and check_ins: "inv s \<Longrightarrow> check (ins s v) w \<longleftrightarrow> w = v \<or> check s w"
begin

lemma fold_ins:
  "inv s \<Longrightarrow> inv (fold (\<lambda>v s. ins s v) vs s) \<and>
     (\<forall>w. check (fold (\<lambda>v s. ins s v) vs s) w \<longleftrightarrow> w \<in> set vs \<or> check s w)"
  by (induction vs arbitrary: s) (auto simp: inv_ins check_ins)

text \<open>Reporting every address the first time it is seen.\<close>

fun firsts :: "'s \<Rightarrow> u32 list \<Rightarrow> u32 list" where
  "firsts s [] = []"
| "firsts s (v # vs) = (if check s v then firsts s vs else v # firsts (ins s v) vs)"

lemma firsts_distinct:
  assumes "inv s"
  shows "distinct (firsts s vs)" and "set (firsts s vs) = {v \<in> set vs. \<not> check s v}"
proof -
  have "distinct (firsts s vs) \<and> set (firsts s vs) = {v \<in> set vs. \<not> check s v}"
    using assms by (induction vs arbitrary: s) (auto simp: inv_ins check_ins)
  then show "distinct (firsts s vs)" and "set (firsts s vs) = {v \<in> set vs. \<not> check s v}" by auto
qed

end

section \<open>The bitmap is such a set\<close>

definition pbm_inv :: "pbm \<Rightarrow> bool" where
  "pbm_inv b \<longleftrightarrow> length b = NUM_PAGES \<and>
     (\<forall>bm. Some bm \<in> set b \<longrightarrow> length bm = PAGE_SIZE_IN_BYTES)"

definition page_bit :: "u8 list \<Rightarrow> nat \<Rightarrow> bool" where
  "page_bit bm n = bit (bm ! (n div 8)) (n mod 8)"

lemma and_one_bit: "k < LENGTH('a::len) \<Longrightarrow> w AND push_bit k 1 \<noteq> 0 \<longleftrightarrow> bit (w :: 'a word) k"
  by (auto simp: bit_simps intro!: bit_word_eqI dest!: arg_cong [of _ _ "\<lambda>w. bit w k"])

lemma page_index:
  "unat (drop_bit 3 (v :: u16)) = unat v div 8" "unat (ucast (v AND 7) :: u8) = unat v mod 8"
proof -
  show "unat (drop_bit 3 v) = unat v div 8" by (simp add: drop_bit_eq_div unat_div)
  have "unat (v AND 7) = unat v mod 8"
    using arg_cong [OF take_bit_eq_mask [of 3 v], of unat] by (simp add: take_bit_eq_mod mask_eq_exp_minus_1 unat_mod)
  then show "unat (ucast (v AND 7) :: u8) = unat v mod 8"
    by (subst unat_ucast_small) (simp_all add: less_le_trans [of _ 8])
qed

lemma bm_check_bit: "bm_check bm v = page_bit bm (unat v)"
  using and_one_bit [of "unat v mod 8", where 'a = 8]
  by (simp add: bm_check_def page_index page_bit_def)

lemma bm_set_bit:
  assumes "length bm = PAGE_SIZE_IN_BYTES" "n < 65536"
  shows "page_bit (bm_set bm v) n \<longleftrightarrow> n = unat v \<or> page_bit bm n"
proof -
  have v: "unat v div 8 < length bm" "n div 8 < length bm"
    using unsigned_less [of v] assms less_mult_imp_div_less [of _ 8192 8] by (simp_all add: PAGE_SIZE_IN_BYTES_def)
  have eq: "n = unat v" if "n div 8 = unat v div 8" "n mod 8 = unat v mod 8"
    using that by (metis div_mod_decomp)
  have set: "bm_set bm v = bm[unat v div 8 := bm ! (unat v div 8) OR push_bit (unat v mod 8) 1]"
    by (simp add: bm_set_def Let_def page_index)
  show ?thesis
  proof (cases "n div 8 = unat v div 8")
    case True
    have "bit (push_bit (unat v mod 8) 1 :: u8) (n mod 8) \<longleftrightarrow> n = unat v"
      using True eq by (auto simp: bit_simps)
    then show ?thesis using True v by (auto simp: set page_bit_def bit_or_iff)
  next
    case False
    then show ?thesis by (auto simp: set page_bit_def)
  qed
qed

lemma length_bm_set [simp]: "length (bm_set bm v) = length bm"
  by (simp add: bm_set_def Let_def)

text \<open>The page and the bit of a number.\<close>

definition high :: "u32 \<Rightarrow> nat" where "high v = unat v div 65536"
definition low :: "u32 \<Rightarrow> nat" where "low v = unat v mod 65536"

lemma high_low_eq: "high v = high w \<Longrightarrow> low v = low w \<Longrightarrow> v = w"
  by (metis high_def low_def div_mod_decomp word_eqI_unat)

lemma high_low_range: "high v < NUM_PAGES" "low v < 65536"
  using unat_lt_u32 [of v] by (auto simp: high_def low_def NUM_PAGES_def)

lemma top_bottom:
  "unat (drop_bit 16 (v :: u32)) = high v" "unat (ucast (drop_bit 16 v) :: u16) = high v"
  "unat (ucast (v AND PAGE_MASK) :: u16) = low v"
proof -
  show a: "unat (drop_bit 16 v) = high v"
    by (simp add: drop_bit_eq_div unat_div high_def)
  then show "unat (ucast (drop_bit 16 v) :: u16) = high v"
    using high_low_range(1) [of v] by (subst unat_ucast_small) (simp_all add: NUM_PAGES_def)
  have "unat (v AND 0xFFFF) = low v"
    using arg_cong [OF take_bit_eq_mask [of 16 v], of unat]
    by (simp add: take_bit_eq_mod mask_eq_exp_minus_1 unat_mod low_def)
  then show "unat (ucast (v AND PAGE_MASK) :: u16) = low v"
    using high_low_range(2) [of v] by (subst unat_ucast_small) (simp_all add: PAGE_MASK_def)
qed

lemma pbm_check_bit:
  "xm_pbm_check b v \<longleftrightarrow> (case b ! high v of None \<Rightarrow> False | Some bm \<Rightarrow> page_bit bm (low v))"
  by (simp add: xm_pbm_check_def Let_def top_bottom bm_check_bit split: option.split)

lemma page_bit_zero [simp]: "n < 65536 \<Longrightarrow> \<not> page_bit (replicate PAGE_SIZE_IN_BYTES 0) n"
  using less_mult_imp_div_less [of n 8192 8] by (simp add: page_bit_def PAGE_SIZE_IN_BYTES_def)

lemma pbm_page: "pbm_inv b \<Longrightarrow> b ! high v = Some bm \<Longrightarrow> length bm = PAGE_SIZE_IN_BYTES"
  using high_low_range(1) [of v] unfolding pbm_inv_def by (metis nth_mem)

lemma pbm_set_inv: "pbm_inv b \<Longrightarrow> pbm_inv (xm_pbm_set b v)"
  using pbm_page [of b v]
  by (auto simp: pbm_inv_def xm_pbm_set_def Let_def top_bottom split: option.splits
      dest!: subsetD [OF set_update_subset_insert])

lemma pbm_check_set:
  assumes "pbm_inv b"
  shows "xm_pbm_check (xm_pbm_set b v) w \<longleftrightarrow> w = v \<or> xm_pbm_check b w"
proof -
  have l: "high v < length b" using assms high_low_range(1) by (simp add: pbm_inv_def)
  show ?thesis
  proof (cases "high w = high v")
    case True
    then show ?thesis
      using l high_low_range(2) [of w] pbm_page [OF assms, of v] high_low_eq [of w v]
      by (auto simp: pbm_check_bit xm_pbm_set_def Let_def top_bottom bm_set_bit split: option.splits)
  next
    case False
    then show ?thesis by (auto simp: pbm_check_bit xm_pbm_set_def Let_def top_bottom)
  qed
qed

interpretation pbm: addr_set xm_pbm_init xm_pbm_check xm_pbm_set pbm_inv
proof
  show "pbm_inv xm_pbm_init" by (simp add: pbm_inv_def xm_pbm_init_def)
  show "\<not> xm_pbm_check xm_pbm_init v" for v
    using high_low_range(1) [of v] by (simp add: pbm_check_bit xm_pbm_init_def)
qed (auto simp: pbm_set_inv pbm_check_set)

section \<open>Loading a list\<close>

text \<open>The addresses that the lines of a file add.\<close>

fun line_addrs :: "environment \<Rightarrow> (nat \<Rightarrow> u32) \<Rightarrow> string list \<Rightarrow> u32 list" where
  "line_addrs env junk [] = []"
| "line_addrs env junk (l # ls) =
     (case inet_aton env (fst (cut_at CHR ''#'' l)) of Some a \<Rightarrow> a | None \<Rightarrow> junk (length ls))
     # line_addrs env junk ls"

lemma load_lines_fold:
  "load_lines env junk ls b n = (fold (\<lambda>v b. xm_pbm_set b v) (line_addrs env junk ls) b, n + of_nat (length ls))"
  by (induction ls arbitrary: b n) (auto simp: Let_def algebra_simps split: option.split)

text \<open>Property C30. The paged bitmap is a set of 32-bit numbers: setting a sequence of numbers in
  an empty bitmap makes exactly these members.\<close>

theorem pbm_refines_set:
  "xm_pbm_check (fold (\<lambda>v b. xm_pbm_set b v) vs xm_pbm_init) w = (w \<in> set vs)"
  using pbm.fold_ins [OF pbm.inv_emp, of vs] pbm.check_emp by simp

text \<open>A list file whose lines are all addresses is loaded as the set of these
  addresses, and counted by its lines.\<close>

theorem pbm_load_addresses:
  assumes "fopen env file = Some content"
    "list_all2 (\<lambda>l a. inet_aton env (fst (cut_at CHR ''#'' l)) = Some a) (fgets_loop 998 content) addrs"
  shows "\<exists>b. xm_pbm_load_from_file env junk xm_pbm_init file = Some (b, of_nat (length addrs)) \<and>
    (\<forall>w. xm_pbm_check b w \<longleftrightarrow> w \<in> set addrs)"
proof -
  have "line_addrs env junk ls = as" if "list_all2 (\<lambda>l a. inet_aton env (fst (cut_at CHR ''#'' l)) = Some a) ls as" for ls as
    using that by (induction rule: list_all2_induct) auto
  then show ?thesis
    using assms(1) pbm.fold_ins [OF pbm.inv_emp, of addrs] pbm.check_emp list_all2_lengthD [OF assms(2)] assms(2)
    by (simp add: xm_pbm_load_from_file_def load_lines_fold)
qed

definition demo_list_env :: environment where
  "demo_list_env = \<lparr>inet_aton = (\<lambda>s. if s = ''10.0.0.1'' then Some 0x0100000A else None),
     getaddrinfo = (\<lambda>s. None), fopen = (\<lambda>s. Some ''10.0.0.1#a'')\<rparr>"

theorem pbm_load_addresses_witness:
  "\<exists>b. xm_pbm_load_from_file demo_list_env (\<lambda>n. 0) xm_pbm_init ''list'' = Some (b, of_nat (length [0x0100000A :: u32])) \<and>
    (\<forall>w. xm_pbm_check b w \<longleftrightarrow> w \<in> set [0x0100000A])"
proof (rule pbm_load_addresses)
  show "fopen demo_list_env ''list'' = Some ''10.0.0.1#a''" by (simp add: demo_list_env_def)
  have "fgets_loop 998 ''10.0.0.1#a'' = [''10.0.0.1#a'']" by code_simp
  then show "list_all2 (\<lambda>l a. inet_aton demo_list_env (fst (cut_at CHR ''#'' l)) = Some a)
      (fgets_loop 998 ''10.0.0.1#a'') [0x0100000A]"
    by (simp add: demo_list_env_def cut_at_def)
qed

text \<open>A line that is no address is not skipped: whatever the address variable holds is
  put on the list and counted.\<close>

theorem pbm_load_bad_line:
  assumes "fopen env file = Some content" "fgets_loop 998 content = ls @ [l]"
    "inet_aton env (fst (cut_at CHR ''#'' l)) = None"
  shows "\<exists>b. xm_pbm_load_from_file env junk xm_pbm_init file = Some (b, of_nat (Suc (length ls))) \<and>
    xm_pbm_check b (junk 0)"
proof -
  have "junk 0 \<in> set (line_addrs env junk (ls @ [l]))" using assms(3) by (induction ls) auto
  then show ?thesis
    using assms(1,2) pbm.fold_ins [OF pbm.inv_emp, of "line_addrs env junk (ls @ [l])"]
    by (auto simp: xm_pbm_load_from_file_def load_lines_fold add.commute)
qed

theorem pbm_load_bad_line_witness:
  "\<exists>b. xm_pbm_load_from_file (demo_list_env\<lparr>fopen := (\<lambda>s. Some ''# none'')\<rparr>) (\<lambda>n. 7) xm_pbm_init ''list'' =
      Some (b, of_nat (Suc (length ([] :: string list)))) \<and> xm_pbm_check b 7"
  by (rule pbm_load_bad_line [of _ _ "''# none''" "[]" "''# none''"])
    (simp_all add: demo_list_env_def cut_at_def, code_simp)

end
