(* ===== verification/Context.thy ===== *)
theory Context
  imports Probes Pbm Wblist
begin

text \<open>
  The configuration of a scan, \<open>src/xm_context.c\<close>: the options of the command line and what the
  system tells about its interfaces become a context, or an error.  \<open>_context_set\<close> is the
  composition of its stages, in the order of the code.  The options are those the generated
  parser fills in: \<open>Some\<close> for an option that is given.
\<close>

unbundle bit_operations_syntax

section \<open>State\<close>

record options =
  log_level_arg :: "string option"
  probe_module_arg :: string
  iplayer_given :: bool
  ignore_invalid_hosts_given :: bool
  ignore_blacklist_errors_given :: bool
  cooldown_time_arg :: int
  blacklist_file_opt :: "string option"
  whitelist_file_opt :: "string option"
  list_of_ips_file_opt :: "string option"
  probe_args_opt :: "string option"
  probe_ttl_opt :: "int option"
  max_runtime_opt :: "int option"
  max_results_opt :: "int option"
  rate_opt :: "int option"
  probes_opt :: "int option"
  retries_opt :: "int option"
  max_sendto_failures_opt :: "int option"
  shm_fname_opt :: "string option"
  shm_fentry_size_opt :: "int option"
  shm_fsize_opt :: "int option"
  shm_flush_timeout_opt :: "int option"
  interface_send_opt :: "string option"
  interface_recv_opt :: "string option"
  interface_send_type_opt :: "string option"
  interface_recv_type_opt :: "string option"
  interface_send_cfname_opt :: "string option"
  interface_recv_cfname_opt :: "string option"
  core_mask_opt :: "string option"
  source_port_opt :: "string option"
  target_port_opt :: "int option"
  source_ip_opt :: "string option"
  gateway_mac_opt :: "string option"
  source_mac_opt :: "string option"
  seed_opt :: "int option"
  shard_opt :: "int option"
  shards_opt :: "int option"
  bandwidth_opt :: "string option"
  max_targets_opt :: "string option"
  sender_threads_opt :: "int option"
  inputs :: "string list"

text \<open>What is outside: name resolution and files, the interfaces of the machine, the drivers,
  random numbers, memory that is not zeroed, and the conversion of a floating-point number.\<close>

record host =
  host_env :: environment
  inet_ntoa :: "u32 \<Rightarrow> string"
  default_iface :: "string option"
  iface_ip :: "string \<Rightarrow> u32 option"
  default_gw :: "string \<Rightarrow> u32 option"
  gw_hw_addr :: "u32 \<Rightarrow> string \<Rightarrow> u8 list option"
  iface_hw_addr :: "string \<Rightarrow> u8 list option"
  random_seed :: "u64 option"
  random_key :: "u8 list"
  pool_words :: "u32 list"
  junk_addr :: "nat \<Rightarrow> u32"
  max_hosts_of :: "string \<Rightarrow> u32"
  driver_ok :: "int \<Rightarrow> string \<Rightarrow> string option \<Rightarrow> bool"

record xm_if =
  if_name :: string
  if_type :: int
  if_cfname :: "string option"
  if_mac :: "u8 list"
  if_addr :: u32

record xm_context = probe_context +
  log_level :: nat
  max_targets_wanted :: u32
  max_runtime :: u32
  max_results :: u32
  iface_send :: "string option"
  iface_recv :: "string option"
  iface_send_type :: "string option"
  iface_recv_type :: "string option"
  iface_send_cfname :: "string option"
  iface_recv_cfname :: "string option"
  rate :: int
  bandwidth :: u64
  cooldown_secs :: int
  senders :: u8
  seed_provided :: bool
  seed :: u64
  shard_num :: u16
  total_shards :: u16
  probe_args :: "string option"
  probe_ttl :: u8
  gw_mac :: "u8 list"
  hw_mac :: "u8 list"
  destination_cidrs :: "string list"
  gw_ip :: u32
  gw_mac_set :: bool
  hw_mac_set :: bool
  source_ip_addresses :: "u32 list"
  number_source_ips :: u32
  srcip_offset :: u32
  send_ip_pkts :: bool
  blacklist_filename :: "string option"
  whitelist_filename :: "string option"
  list_of_ips_filename :: "string option"
  list_of_ips_count :: u32
  ignore_invalid_hosts :: bool
  filter_duplicates :: bool
  filter_unsuccessful :: bool
  num_retries :: int
  total_allowed :: u64
  total_disallowed :: u64
  max_sendto_failures :: int
  data_link_size :: nat
  core_mask :: "string option"
  shm_fname :: "string option"
  shm_fsize :: u64
  shm_fentry_size :: u64
  shm_flush_time :: u64
  xsend_max_targets :: u32
  xsend_max_index :: u32
  list_of_ips_pbm :: "pbm option"
  the_probe :: "xm_probe option"
  send_interface :: "xm_if option"
  recv_interface :: "xm_if option"
  the_wblist :: "xm_wblist option"
  the_aes :: "xm_aesrand option"

text \<open>How setting up fails; \<open>OutOfRange\<close> is the exit of \<open>xm_enforce_range\<close>, \<open>NoListFile\<close> the
  list of addresses that cannot be opened and is read all the same.\<close>

datatype context_error =
    NoProbe | NoSendInterface | BadRetries | OutOfRange | PortsReversed | NoTargetPort
  | NoSourceAddress | BadMac | NoGateway | NoGatewayMac | NoHardwareAddress | NoSeed | NoRandom
  | SeedNeeded | ShardAndShards | ShardNumber | BandwidthSuffix | NoTargetList wblist_error
  | NoListFile | TooManyTargets | NoTargets | NoSendDriver | NoRecvDriver

type_synonym 'a outcome = "context_error + 'a"

definition and_then :: "'a outcome \<Rightarrow> ('a \<Rightarrow> 'b outcome) \<Rightarrow> 'b outcome" where
  "and_then r f = (case r of Inl e \<Rightarrow> Inl e | Inr x \<Rightarrow> f x)"

lemma and_then_simps [simp]: "and_then (Inl e) f = Inl e" "and_then (Inr x) f = f x"
  by (simp_all add: and_then_def)

lemma and_then_Inr: "and_then r f = Inr y \<longleftrightarrow> (\<exists>x. r = Inr x \<and> f x = Inr y)"
  by (cases r) auto

section \<open>Strings\<close>

definition tolower :: "char \<Rightarrow> char" where
  "tolower c = (let n = of_char c :: nat in if 65 \<le> n \<and> n \<le> 90 then char_of (n + 32) else c)"

text \<open>\<open>strcasecmp\<close>, as equality.\<close>

definition same_text :: "string \<Rightarrow> string \<Rightarrow> bool" where
  "same_text a b \<longleftrightarrow> map tolower a = map tolower b"

definition log_level_get :: "string option \<Rightarrow> nat" where
  "log_level_get level =
     (case level of
        None \<Rightarrow> 7
      | Some l \<Rightarrow>
          if length l = 0 then 7
          else if same_text l ''info'' then 7
          else if same_text l ''debug'' then 8
          else if same_text l ''notice'' then 6
          else if same_text l ''warn'' then 5
          else if same_text l ''error'' then 4
          else if same_text l ''crit'' then 3
          else if same_text l ''alert'' then 2
          else if same_text l ''emerg'' then 1
          else 7)"

definition interface_cfname_get :: "string \<Rightarrow> string option" where
  "interface_cfname_get type =
     (if type = ''pfring'' then Some ''/usr/local/xmap/conf/if_pfring.conf''
      else if type = ''libpcap'' then Some ''/usr/local/xmap/conf/if_pcap.conf''
      else None)"

section \<open>Addresses\<close>

definition MAC_ADDR_LEN :: nat where "MAC_ADDR_LEN = 6"

text \<open>The loop of \<open>parse_mac\<close> from octet \<open>i\<close>, with \<open>n\<close> octets left.\<close>

fun parse_mac_from :: "nat \<Rightarrow> nat \<Rightarrow> string \<Rightarrow> u8 list \<Rightarrow> bool \<times> u8 list" where
  "parse_mac_from 0 i s out = (True, out)"
| "parse_mac_from (Suc n) i s out =
     (if i < MAC_ADDR_LEN - 1 \<and> s ! (i * 3 + 2) \<noteq> CHR '':'' then (False, out)
      else (let (b, err, _) = strtol 16 (take 2 (drop (i * 3) s))
            in if err \<noteq> [] then (False, out)
               else parse_mac_from n (Suc i) s (out[i := word_of_int b AND 0xFF])))"

definition parse_mac :: "u8 list \<Rightarrow> string \<Rightarrow> bool \<times> u8 list" where
  "parse_mac out s =
     (if length s < MAC_ADDR_LEN * 3 - 1 then (False, out) else parse_mac_from MAC_ADDR_LEN 0 s out)"

definition string_to_ip_address :: "host \<Rightarrow> string \<Rightarrow> u32" where
  "string_to_ip_address h t = inet_addr (host_env h) t"

definition add_to_array :: "host \<Rightarrow> string \<Rightarrow> xm_context \<Rightarrow> xm_context" where
  "add_to_array h to_add ctx =
     (if number_source_ips ctx \<ge> 256 then ctx
      else ctx\<lparr>source_ip_addresses := (source_ip_addresses ctx)[unat (number_source_ips ctx) := string_to_ip_address h to_add],
               number_source_ips := number_source_ips ctx + 1\<rparr>)"

text \<open>The loop over the commas, and the loop over a range of addresses.\<close>

function add_commas :: "host \<Rightarrow> string \<Rightarrow> xm_context \<Rightarrow> xm_context" where
  "add_commas h s ctx =
     (case cut_at CHR '','' s of
        (s1, None) \<Rightarrow> add_to_array h s1 ctx
      | (s1, Some r) \<Rightarrow> add_commas h r (add_to_array h s1 ctx))"
  by pat_completeness auto

lemma cut_at_shorter: "cut_at c s = (s1, Some r) \<Longrightarrow> length s1 < length s \<and> length r < length s"
proof -
  assume a: "cut_at c s = (s1, Some r)"
  then have s1: "s1 = takeWhile (\<lambda>x. x \<noteq> c) s" and d: "dropWhile (\<lambda>x. x \<noteq> c) s = hd (dropWhile (\<lambda>x. x \<noteq> c) s) # r"
    by (auto simp: cut_at_def split: list.splits)
  have "length s = length s1 + length (dropWhile (\<lambda>x. x \<noteq> c) s)"
    using s1 takeWhile_dropWhile_id [of "\<lambda>x. x \<noteq> c" s] by (metis length_append)
  also have "length (dropWhile (\<lambda>x. x \<noteq> c) s) = Suc (length r)" by (subst d) simp
  finally show ?thesis by simp
qed

termination add_commas
  by (relation "measure (\<lambda>(h, s, ctx). length s)") (auto dest: cut_at_shorter [OF sym])

function add_range :: "host \<Rightarrow> u32 \<Rightarrow> u32 \<Rightarrow> xm_context \<Rightarrow> xm_context" where
  "add_range h start stop ctx =
     (if start = stop then ctx
      else add_range h (start + 1) stop (add_to_array h (inet_ntoa h (htonl start)) ctx))"
  by pat_completeness auto

lemma range_shrinks: "start \<noteq> stop \<Longrightarrow> unat (stop - (start + 1)) < unat (stop - start)" for start :: u32
proof -
  assume "start \<noteq> stop"
  then have "stop - start \<noteq> 0" by simp
  then have "unat (stop - start - 1) = unat (stop - start) - 1" "0 < unat (stop - start)"
    by (simp_all add: unat_minus_one unat_gt_0)
  then show ?thesis by (simp add: diff_diff_eq)
qed

termination add_range
  by (relation "measure (\<lambda>(h, start, stop, ctx). unat (stop - start))") (auto simp: range_shrinks)

declare add_commas.simps [simp del] add_range.simps [simp del]

function xm_parse_source_ip_addresses :: "host \<Rightarrow> string \<Rightarrow> xm_context \<Rightarrow> xm_context" where
  "xm_parse_source_ip_addresses h s ctx =
     (case (cut_at CHR ''-'' s, cut_at CHR '','' s) of
        ((d1, Some d2), (c1, Some c2)) \<Rightarrow>
          xm_parse_source_ip_addresses h c2 (xm_parse_source_ip_addresses h c1 ctx)
      | ((d1, None), (c1, Some c2)) \<Rightarrow> add_commas h s ctx
      | ((d1, Some d2), (c1, None)) \<Rightarrow>
          add_range h (ntohl (string_to_ip_address h d1)) (ntohl (string_to_ip_address h d2) + 1) ctx
      | ((d1, None), (c1, None)) \<Rightarrow> add_to_array h s ctx)"
  by pat_completeness auto
termination
  by (relation "measure (\<lambda>(h, s, ctx). length s)") (auto dest: cut_at_shorter [OF sym])

declare xm_parse_source_ip_addresses.simps [simp del]

section \<open>Setting up\<close>

definition context_init :: xm_context where
  "context_init =
     \<lparr>source_port_first = 32768, source_port_last = 61000, target_port = 0, packet_streams = 1,
      log_level = 7, max_targets_wanted = 0xFFFFFFFF, max_runtime = 0, max_results = 0,
      iface_send = None, iface_recv = None, iface_send_type = None, iface_recv_type = None,
      iface_send_cfname = None, iface_recv_cfname = None, rate = -1, bandwidth = 0, cooldown_secs = 0,
      senders = 1, seed_provided = False, seed = 0, shard_num = 0, total_shards = 0, probe_args = None,
      probe_ttl = MAXTTL, gw_mac = replicate 6 0, hw_mac = replicate 6 0, destination_cidrs = [],
      gw_ip = 0, gw_mac_set = False, hw_mac_set = False, source_ip_addresses = replicate 256 0,
      number_source_ips = 0, srcip_offset = 0, send_ip_pkts = False, blacklist_filename = None,
      whitelist_filename = None, list_of_ips_filename = None, list_of_ips_count = 0,
      ignore_invalid_hosts = False, filter_duplicates = False, filter_unsuccessful = False,
      num_retries = 0, total_allowed = 0, total_disallowed = 0, max_sendto_failures = -1,
      data_link_size = sizeof_ether_header, core_mask = None, shm_fname = None, shm_fsize = 0,
      shm_fentry_size = 0, shm_flush_time = 0, xsend_max_targets = 0, xsend_max_index = 0,
      list_of_ips_pbm = None, the_probe = None, send_interface = None, recv_interface = None,
      the_wblist = None, the_aes = None\<rparr>"

text \<open>\<open>SET_IF_GIVEN\<close>: the value of an option if it is given, otherwise what is there.\<close>

definition set_if_given :: "('a \<Rightarrow> 'b) \<Rightarrow> 'a option \<Rightarrow> 'b \<Rightarrow> 'b" where
  "set_if_given conv arg old = (case arg of None \<Rightarrow> old | Some a \<Rightarrow> conv a)"

definition zero_default :: "u64 \<Rightarrow> u64 \<Rightarrow> u64" where
  "zero_default d v = (if v \<le> 0 then d else v)"

definition set_probe :: "options \<Rightarrow> xm_context \<Rightarrow> xm_context outcome" where
  "set_probe args ctx =
     (let ctx = ctx\<lparr>log_level := log_level_get (log_level_arg args)\<rparr>
      in case xm_probe_get_by_name (Some (probe_module_arg args)) of
           None \<Rightarrow> Inl NoProbe
         | Some p \<Rightarrow> Inr (ctx\<lparr>the_probe := Some p\<rparr>))"

definition set_options :: "host \<Rightarrow> options \<Rightarrow> xm_context \<Rightarrow> xm_context outcome" where
  "set_options h args ctx =
     (let ctx = (if iplayer_given args
                 then ctx\<lparr>send_ip_pkts := True, gw_mac_set := True, gw_mac := replicate MAC_ADDR_LEN 0\<rparr> else ctx);
          ctx = ctx\<lparr>filter_duplicates := True, filter_unsuccessful := True,
            ignore_invalid_hosts := ignore_invalid_hosts_given args \<or> ignore_blacklist_errors_given args,
            cooldown_secs := cooldown_time_arg args,
            blacklist_filename := set_if_given Some (blacklist_file_opt args) (blacklist_filename ctx),
            list_of_ips_filename := set_if_given Some (list_of_ips_file_opt args) (list_of_ips_filename ctx),
            probe_args := set_if_given Some (probe_args_opt args) (probe_args ctx),
            probe_ttl := set_if_given word_of_int (probe_ttl_opt args) (probe_ttl ctx),
            max_runtime := set_if_given word_of_int (max_runtime_opt args) (max_runtime ctx),
            max_results := set_if_given word_of_int (max_results_opt args) (max_results ctx),
            rate := set_if_given id (rate_opt args) (rate ctx),
            packet_streams := set_if_given id (probes_opt args) (packet_streams ctx),
            num_retries := set_if_given id (retries_opt args) (num_retries ctx),
            max_sendto_failures := set_if_given id (max_sendto_failures_opt args) (max_sendto_failures ctx),
            shm_fname := Some (set_if_given id (shm_fname_opt args) ''/tmp/xmap_shm_file''),
            shm_fentry_size := zero_default 65536 (set_if_given word_of_int (shm_fentry_size_opt args) (shm_fentry_size ctx)),
            shm_fsize := zero_default 4294967296 (set_if_given word_of_int (shm_fsize_opt args) (shm_fsize ctx)),
            shm_flush_time := zero_default 60 (set_if_given word_of_int (shm_flush_timeout_opt args) (shm_flush_time ctx)),
            whitelist_filename := set_if_given Some (whitelist_file_opt args) (whitelist_filename ctx)\<rparr>
      in case (case interface_send_opt args of None \<Rightarrow> default_iface h | Some i \<Rightarrow> Some i) of
           None \<Rightarrow> Inl NoSendInterface
         | Some i \<Rightarrow>
             (let st = set_if_given id (interface_send_type_opt args) ''linux'';
                  rt = set_if_given id (interface_recv_type_opt args) ''libpcap''
              in Inr (ctx\<lparr>iface_send := Some i,
                   iface_recv := Some (set_if_given id (interface_recv_opt args) i),
                   iface_send_type := Some st, iface_recv_type := Some rt,
                   iface_send_cfname := set_if_given Some (interface_send_cfname_opt args) (interface_cfname_get st),
                   iface_recv_cfname := set_if_given Some (interface_recv_cfname_opt args) (interface_cfname_get rt),
                   core_mask := Some (set_if_given id (core_mask_opt args) ''0xff''),
                   destination_cidrs := inputs args\<rparr>)))"

definition check_retries :: "xm_context \<Rightarrow> xm_context outcome" where
  "check_retries ctx = (if num_retries ctx < 0 then Inl BadRetries else Inr ctx)"

text \<open>\<open>xm_enforce_range\<close> ends the program when the value is out of range.\<close>

definition xm_enforce_range :: "int \<Rightarrow> int \<Rightarrow> int \<Rightarrow> 'a \<Rightarrow> 'a outcome" where
  "xm_enforce_range v mn mx x = (if v < mn \<or> v > mx then Inl OutOfRange else Inr x)"

definition set_source_ports :: "options \<Rightarrow> xm_context \<Rightarrow> xm_context outcome" where
  "set_source_ports args ctx =
     (case source_port_opt args of
        None \<Rightarrow> Inr ctx
      | Some s \<Rightarrow>
          (case cut_at CHR ''-'' s of
             (s1, Some s2) \<Rightarrow>
               and_then (let lo = word_of_int (atoi s1) in
                         xm_enforce_range (uint lo) 0 0xFFFF (ctx\<lparr>source_port_first := lo\<rparr>)) (\<lambda>ctx.
               and_then (let hi = word_of_int (atoi s2) in
                         xm_enforce_range (uint hi) 0 0xFFFF (ctx\<lparr>source_port_last := hi\<rparr>)) (\<lambda>ctx.
               if source_port_first ctx > source_port_last ctx then Inl PortsReversed else Inr ctx))
           | (s1, None) \<Rightarrow>
               (let port = atoi s
                in xm_enforce_range port 0 0xFFFF
                     (ctx\<lparr>source_port_first := word_of_int port, source_port_last := word_of_int port\<rparr>))))"

definition set_ports :: "options \<Rightarrow> xm_context \<Rightarrow> xm_context outcome" where
  "set_ports args ctx =
     (if \<not> port_args (the (the_probe ctx)) then Inr ctx
      else and_then (set_source_ports args ctx) (\<lambda>ctx.
        case target_port_opt args of
          None \<Rightarrow> Inl NoTargetPort
        | Some p \<Rightarrow> xm_enforce_range p 0 0xFFFF (ctx\<lparr>target_port := word_of_int p\<rparr>)))"

definition set_source_ip :: "host \<Rightarrow> options \<Rightarrow> xm_context \<Rightarrow> xm_context outcome" where
  "set_source_ip h args ctx =
     (let ctx = (case source_ip_opt args of None \<Rightarrow> ctx | Some s \<Rightarrow> xm_parse_source_ip_addresses h s ctx)
      in if number_source_ips ctx = 0 then
           (case iface_ip h (the (iface_send ctx)) of
              None \<Rightarrow> Inl NoSourceAddress
            | Some a \<Rightarrow> Inr (ctx\<lparr>source_ip_addresses := (source_ip_addresses ctx)[0 := a],
                                 number_source_ips := number_source_ips ctx + 1\<rparr>))
         else Inr ctx)"

definition set_gw_mac :: "host \<Rightarrow> options \<Rightarrow> xm_context \<Rightarrow> xm_context outcome" where
  "set_gw_mac h args ctx =
     and_then
       (case gateway_mac_opt args of
          None \<Rightarrow> Inr ctx
        | Some s \<Rightarrow> (let (ok, mac) = parse_mac (gw_mac ctx) s
                     in if \<not> ok then Inl BadMac else Inr (ctx\<lparr>gw_mac := mac, gw_mac_set := True\<rparr>)))
       (\<lambda>ctx. if gw_mac_set ctx then Inr ctx
          else case default_gw h (the (iface_send ctx)) of
                 None \<Rightarrow> Inl NoGateway
               | Some ip \<Rightarrow>
                   (case gw_hw_addr h ip (the (iface_send ctx)) of
                      None \<Rightarrow> Inl NoGatewayMac
                    | Some mac \<Rightarrow> Inr (ctx\<lparr>gw_ip := ip, gw_mac := mac, gw_mac_set := True\<rparr>)))"

definition set_hw_mac :: "host \<Rightarrow> options \<Rightarrow> xm_context \<Rightarrow> xm_context outcome" where
  "set_hw_mac h args ctx =
     and_then
       (case source_mac_opt args of
          None \<Rightarrow> Inr ctx
        | Some s \<Rightarrow> (let (ok, mac) = parse_mac (hw_mac ctx) s
                     in if \<not> ok then Inl BadMac else Inr (ctx\<lparr>hw_mac := mac, hw_mac_set := True\<rparr>)))
       (\<lambda>ctx. if hw_mac_set ctx then Inr ctx
          else case iface_hw_addr h (the (iface_send ctx)) of
                 None \<Rightarrow> Inl NoHardwareAddress
               | Some mac \<Rightarrow> Inr (ctx\<lparr>hw_mac := mac, hw_mac_set := True\<rparr>))"

definition set_seed :: "host \<Rightarrow> options \<Rightarrow> xm_context \<Rightarrow> xm_context outcome" where
  "set_seed h args ctx =
     and_then
       (case seed_opt args of
          Some s \<Rightarrow> Inr (ctx\<lparr>seed := word_of_int s, seed_provided := True\<rparr>)
        | None \<Rightarrow> (case random_seed h of
                     None \<Rightarrow> Inl NoRandom
                   | Some s \<Rightarrow> Inr (ctx\<lparr>seed := s, seed_provided := False\<rparr>)))
       (\<lambda>ctx. case xm_aesrand_create_from_seed (pool_words h) (seed ctx) of
                 None \<Rightarrow> Inl NoSeed
               | Some aes \<Rightarrow> Inr (ctx\<lparr>the_aes := Some aes\<rparr>))"

definition set_shards :: "options \<Rightarrow> xm_context \<Rightarrow> xm_context outcome" where
  "set_shards args ctx =
     (let ctx = ctx\<lparr>shard_num := 0, total_shards := 1\<rparr>;
          shard_given = (shard_opt args \<noteq> None);
          shards_given = (shards_opt args \<noteq> None)
      in if (shard_given \<or> shards_given) \<and> seed_opt args = None then Inl SeedNeeded
         else if shard_given \<noteq> shards_given then Inl ShardAndShards
         else
           and_then (case shard_opt args of None \<Rightarrow> Inr ctx | Some v \<Rightarrow> xm_enforce_range v 0 65534 ctx) (\<lambda>ctx.
           and_then (case shards_opt args of None \<Rightarrow> Inr ctx | Some v \<Rightarrow> xm_enforce_range v 1 65535 ctx) (\<lambda>ctx.
           let ctx = ctx\<lparr>shard_num := set_if_given word_of_int (shard_opt args) (shard_num ctx),
                         total_shards := set_if_given word_of_int (shards_opt args) (total_shards ctx)\<rparr>
           in if shard_num ctx \<ge> total_shards ctx then Inl ShardNumber else Inr ctx)))"

text \<open>The factor a suffix of the bandwidth stands for.\<close>

definition bandwidth_factor :: "char \<Rightarrow> u64 option" where
  "bandwidth_factor c =
     (if c = CHR ''G'' \<or> c = CHR ''g'' then Some 1000000000
      else if c = CHR ''M'' \<or> c = CHR ''m'' then Some 1000000
      else if c = CHR ''K'' \<or> c = CHR ''k'' then Some 1000
      else None)"

definition set_bandwidth :: "options \<Rightarrow> xm_context \<Rightarrow> xm_context outcome" where
  "set_bandwidth args ctx =
     (case bandwidth_opt args of
        None \<Rightarrow> Inr ctx
      | Some s \<Rightarrow>
          (let bw = word_of_int (atoi s);
               suffix = dropWhile (is_digit 10) s
           in case suffix of
                [] \<Rightarrow> Inr (ctx\<lparr>bandwidth := bw\<rparr>)
              | c # _ \<Rightarrow> (case bandwidth_factor c of
                            None \<Rightarrow> Inl BandwidthSuffix
                          | Some f \<Rightarrow> Inr (ctx\<lparr>bandwidth := bw * f\<rparr>))))"

definition set_targets :: "host \<Rightarrow> options \<Rightarrow> xm_context \<Rightarrow> xm_context outcome" where
  "set_targets h args ctx =
     (let ctx = (case max_targets_opt args of None \<Rightarrow> ctx | Some s \<Rightarrow> ctx\<lparr>max_targets_wanted := max_hosts_of h s\<rparr>)
      in case xm_wblist_create (host_env h) (whitelist_filename ctx) (blacklist_filename ctx)
              (if destination_cidrs ctx = [] then None else Some (destination_cidrs ctx)) None of
           Inl e \<Rightarrow> Inl (NoTargetList e)
         | Inr wb \<Rightarrow>
             (let ctx = ctx\<lparr>the_wblist := Some wb\<rparr>
              in and_then
                   (case list_of_ips_filename ctx of
                      None \<Rightarrow> Inr ctx
                    | Some f \<Rightarrow>
                        (case xm_pbm_load_from_file (host_env h) (junk_addr h) xm_pbm_init f of
                           None \<Rightarrow> Inl NoListFile
                         | Some (b, n) \<Rightarrow> Inr (ctx\<lparr>list_of_ips_pbm := Some b, list_of_ips_count := n\<rparr>)))
                   (\<lambda>ctx.
                      let allowed = xm_wblist_count_allowed wb;
                          ctx = ctx\<lparr>total_allowed := allowed, total_disallowed := xm_wblist_count_not_allowed wb\<rparr>
                      in if allowed > 0x100000000 then Inl TooManyTargets
                         else if total_allowed ctx = 0 then Inl NoTargets
                         else if max_targets_wanted ctx \<noteq> 0
                         then Inr (ctx\<lparr>xsend_max_targets := max_targets_wanted ctx\<rparr>)
                         else Inr ctx)))"

text \<open>The product with two is an \<open>int\<close>, which the comparison makes unsigned.\<close>

definition set_senders :: "options \<Rightarrow> xm_context \<Rightarrow> xm_context" where
  "set_senders args ctx =
     (let ctx = ctx\<lparr>senders := (case sender_threads_opt args of Some n \<Rightarrow> word_of_int n | None \<Rightarrow> 1)\<rparr>
      in if (2 * ucast (senders ctx) :: u32) \<ge> xsend_max_targets ctx then ctx\<lparr>senders := 1\<rparr> else ctx)"

section \<open>Interfaces\<close>

definition IF_DPDK :: int where "IF_DPDK = 0"
definition IF_PFRING :: int where "IF_PFRING = 1"
definition IF_LIBPCAP :: int where "IF_LIBPCAP = 2"
definition IF_LINUX :: int where "IF_LINUX = 3"

definition get_if_type :: "string \<Rightarrow> int" where
  "get_if_type name =
     (if same_text name ''dpdk'' then IF_DPDK
      else if same_text name ''pfring'' then IF_PFRING
      else if same_text name ''libpcap'' then IF_LIBPCAP
      else if same_text name ''linux'' then IF_LINUX
      else - 1)"

text \<open>Whether a driver is made: the driver's own creation is outside.\<close>

definition make_driver :: "host \<Rightarrow> xm_if \<Rightarrow> bool" where
  "make_driver h i =
     (if if_type i = IF_PFRING \<or> if_type i = IF_LIBPCAP \<or> if_type i = IF_LINUX
      then driver_ok h (if_type i) (if_name i) (if_cfname i) else False)"

definition xm_if_create :: "host \<Rightarrow> string option \<Rightarrow> string \<Rightarrow> string option \<Rightarrow> xm_if option" where
  "xm_if_create h name type cfname =
     (case name of
        None \<Rightarrow> None
      | Some n \<Rightarrow>
          if length n = 0 then None
          else if get_if_type type = - 1 then None
          else (case iface_hw_addr h n of
                  None \<Rightarrow> None
                | Some mac \<Rightarrow>
                    (case iface_ip h n of
                       None \<Rightarrow> None
                     | Some a \<Rightarrow>
                         (let i = \<lparr>if_name = n, if_type = get_if_type type, if_cfname = cfname, if_mac = mac, if_addr = a\<rparr>
                          in if make_driver h i then Some i else None))))"

definition set_interfaces :: "host \<Rightarrow> xm_context \<Rightarrow> xm_context outcome" where
  "set_interfaces h ctx =
     (case xm_if_create h (iface_send ctx) (the (iface_send_type ctx)) (iface_send_cfname ctx) of
        None \<Rightarrow> Inl NoSendDriver
      | Some s \<Rightarrow>
          (case xm_if_create h (iface_recv ctx) (the (iface_recv_type ctx)) (iface_recv_cfname ctx) of
             None \<Rightarrow> Inl NoRecvDriver
           | Some r \<Rightarrow> Inr (ctx\<lparr>send_interface := Some s, recv_interface := Some r\<rparr>)))"

section \<open>Creation\<close>

definition context_set :: "host \<Rightarrow> options \<Rightarrow> xm_context \<Rightarrow> xm_context outcome" where
  "context_set h args ctx =
     and_then (set_probe args ctx) (\<lambda>ctx.
     and_then (set_options h args ctx) (\<lambda>ctx.
     and_then (check_retries ctx) (\<lambda>ctx.
     and_then (set_ports args ctx) (\<lambda>ctx.
     and_then (set_source_ip h args ctx) (\<lambda>ctx.
     and_then (set_gw_mac h args ctx) (\<lambda>ctx.
     and_then (set_hw_mac h args ctx) (\<lambda>ctx.
     and_then (set_seed h args ctx) (\<lambda>ctx.
     and_then (set_shards args ctx) (\<lambda>ctx.
     and_then (set_bandwidth args ctx) (\<lambda>ctx.
     and_then (set_targets h args ctx) (\<lambda>ctx.
     set_interfaces h (set_senders args ctx))))))))))))"

text \<open>Success also leaves the probe's static variables and the validation state set up.\<close>

definition xm_context_create ::
  "host \<Rightarrow> options \<Rightarrow> probe_static \<Rightarrow> validate_state \<Rightarrow> (xm_context \<times> probe_static \<times> validate_state) outcome" where
  "xm_context_create h args st vs =
     and_then (context_set h args context_init) (\<lambda>ctx.
       Inr (ctx, probe_context_init (the (the_probe ctx)) (probe_context.truncate ctx) st,
            xm_validate_init (random_key h) vs))"

section \<open>What a context satisfies\<close>

text \<open>The host answers with six-byte addresses, as its interfaces do.\<close>

definition host_ok :: "host \<Rightarrow> bool" where
  "host_ok h \<longleftrightarrow> (\<forall>i mac. iface_hw_addr h i = Some mac \<longrightarrow> length mac = 6) \<and>
     (\<forall>a i mac. gw_hw_addr h a i = Some mac \<longrightarrow> length mac = 6)"

text \<open>The facts after each stage: \<open>ctx_inv n\<close> holds after the first \<open>n\<close>.\<close>

definition ctx_base :: "xm_context \<Rightarrow> bool" where
  "ctx_base ctx \<longleftrightarrow> source_port_first ctx \<le> source_port_last ctx \<and> length (source_ip_addresses ctx) = 256 \<and>
     unat (number_source_ips ctx) \<le> 256 \<and> length (gw_mac ctx) = 6 \<and> length (hw_mac ctx) = 6 \<and>
     data_link_size ctx = 14"

definition ctx_inv :: "nat \<Rightarrow> xm_context \<Rightarrow> bool" where
  "ctx_inv n ctx \<longleftrightarrow> ctx_base ctx \<and>
     (1 \<le> n \<longrightarrow> (\<exists>p \<in> set probes. the_probe ctx = Some p)) \<and>
     (2 \<le> n \<longrightarrow> shm_fsize ctx \<noteq> 0 \<and> shm_fentry_size ctx \<noteq> 0 \<and> shm_flush_time ctx \<noteq> 0) \<and>
     (3 \<le> n \<longrightarrow> 0 \<le> num_retries ctx) \<and>
     (5 \<le> n \<longrightarrow> 0 < number_source_ips ctx) \<and>
     (6 \<le> n \<longrightarrow> gw_mac_set ctx) \<and>
     (7 \<le> n \<longrightarrow> hw_mac_set ctx) \<and>
     (8 \<le> n \<longrightarrow> the_aes ctx \<noteq> None) \<and>
     (9 \<le> n \<longrightarrow> shard_num ctx < total_shards ctx) \<and>
     (11 \<le> n \<longrightarrow> 0 < total_allowed ctx \<and> total_allowed ctx \<le> 0x100000000 \<and>
        (\<exists>wb. the_wblist ctx = Some wb \<and> xm_wblist_count_allowed wb = total_allowed ctx))"

lemmas ctx_inv_defs = ctx_inv_def ctx_base_def

lemma inv_init: "ctx_inv 0 context_init"
  by (simp add: ctx_inv_defs context_init_def sizeof_ether_header_def)

lemma inv_set_probe: "ctx_inv 0 ctx \<Longrightarrow> set_probe args ctx = Inr ctx' \<Longrightarrow> ctx_inv 1 ctx'"
  by (auto simp: ctx_inv_defs set_probe_def Let_def xm_probe_get_by_name_def find_Some_iff split: option.splits if_splits)

lemma zero_default_nonzero: "d \<noteq> 0 \<Longrightarrow> zero_default d v \<noteq> 0"
  by (simp add: zero_default_def)

lemma inv_set_options: "ctx_inv 1 ctx \<Longrightarrow> set_options h args ctx = Inr ctx' \<Longrightarrow> ctx_inv 2 ctx'"
  by (auto simp: ctx_inv_defs set_options_def Let_def MAC_ADDR_LEN_def zero_default_nonzero split: option.splits if_splits)

lemma inv_check_retries: "ctx_inv 2 ctx \<Longrightarrow> check_retries ctx = Inr ctx' \<Longrightarrow> ctx_inv 3 ctx'"
  by (auto simp: ctx_inv_defs check_retries_def split: if_splits)

lemma enforce_range_Inr: "xm_enforce_range v mn mx x = Inr y \<longleftrightarrow> mn \<le> v \<and> v \<le> mx \<and> y = x"
  by (auto simp: xm_enforce_range_def)

lemma inv_set_ports: "ctx_inv 3 ctx \<Longrightarrow> set_ports args ctx = Inr ctx' \<Longrightarrow> ctx_inv 4 ctx'"
  by (auto simp: ctx_inv_defs set_ports_def set_source_ports_def Let_def and_then_Inr enforce_range_Inr
    split: option.splits if_splits prod.splits)

text \<open>Adding addresses only touches the array and its length.\<close>

definition but_addresses :: "xm_context \<Rightarrow> xm_context" where
  "but_addresses ctx = ctx\<lparr>source_ip_addresses := [], number_source_ips := 0\<rparr>"

definition more_addresses :: "xm_context \<Rightarrow> xm_context \<Rightarrow> bool" where
  "more_addresses ctx ctx' \<longleftrightarrow> but_addresses ctx' = but_addresses ctx \<and>
     length (source_ip_addresses ctx') = length (source_ip_addresses ctx) \<and>
     (unat (number_source_ips ctx) \<le> 256 \<longrightarrow>
        unat (number_source_ips ctx) \<le> unat (number_source_ips ctx') \<and> unat (number_source_ips ctx') \<le> 256)"

lemma more_addresses_refl [simp]: "more_addresses ctx ctx"
  by (simp add: more_addresses_def)

lemma more_addresses_trans: "more_addresses a b \<Longrightarrow> more_addresses b c \<Longrightarrow> more_addresses a c"
  by (auto simp: more_addresses_def)

lemma more_add_to_array: "more_addresses ctx (add_to_array h s ctx)"
proof (cases "number_source_ips ctx \<ge> 256")
  case False
  then have "unat (number_source_ips ctx) < 256" by (simp add: word_le_nat_alt)
  then have "unat (number_source_ips ctx + 1) = unat (number_source_ips ctx) + 1" by (subst unat_add_small) simp_all
  then show ?thesis using False
    by (simp add: add_to_array_def more_addresses_def but_addresses_def word_le_nat_alt)
qed (simp add: add_to_array_def)

lemma more_add_commas: "more_addresses ctx (add_commas h s ctx)"
proof (induction h s ctx rule: add_commas.induct)
  case (1 h s ctx)
  show ?case
    by (subst add_commas.simps) (auto intro: more_add_to_array more_addresses_trans [OF more_add_to_array 1]
      split: prod.splits option.splits)
qed

lemma more_add_range: "more_addresses ctx (add_range h start stop ctx)"
proof (induction h start stop ctx rule: add_range.induct)
  case (1 h start stop ctx)
  then show ?case
    by (subst add_range.simps) (auto intro: more_addresses_trans [OF more_add_to_array])
qed

lemma more_parse: "more_addresses ctx (xm_parse_source_ip_addresses h s ctx)"
proof (induction h s ctx rule: xm_parse_source_ip_addresses.induct)
  case (1 h s ctx)
  show ?case
    by (subst xm_parse_source_ip_addresses.simps)
      (auto intro: more_add_to_array more_add_commas more_add_range more_addresses_trans [OF 1(1) 1(2)]
        split: prod.splits option.splits)
qed

lemma more_inv:
  assumes "ctx_inv 4 ctx" "more_addresses ctx ctx'" shows "ctx_inv 4 ctx'"
proof -
  have "f (but_addresses ctx') = f (but_addresses ctx)" for f :: "xm_context \<Rightarrow> 'a"
    using assms(2) by (simp add: more_addresses_def)
  from this [of source_port_first] this [of source_port_last] this [of gw_mac] this [of hw_mac] this [of data_link_size]
    this [of the_probe] this [of shm_fsize] this [of shm_fentry_size] this [of shm_flush_time] this [of num_retries]
  show ?thesis using assms by (auto simp: ctx_inv_defs more_addresses_def but_addresses_def)
qed

lemma inv_set_source_ip:
  assumes "ctx_inv 4 ctx" "set_source_ip h args ctx = Inr ctx'" shows "ctx_inv 5 ctx'"
proof -
  define c where "c = (case source_ip_opt args of None \<Rightarrow> ctx | Some s \<Rightarrow> xm_parse_source_ip_addresses h s ctx)"
  have "more_addresses ctx c" by (simp add: c_def more_parse split: option.splits)
  then have c: "ctx_inv 4 c" by (rule more_inv [OF assms(1)])
  have s: "(if number_source_ips c = 0 then
        (case iface_ip h (the (iface_send c)) of None \<Rightarrow> Inl NoSourceAddress
         | Some a \<Rightarrow> Inr (c\<lparr>source_ip_addresses := (source_ip_addresses c)[0 := a], number_source_ips := number_source_ips c + 1\<rparr>))
      else Inr c) = Inr ctx'"
    using assms(2) by (simp only: set_source_ip_def Let_def c_def)
  show ?thesis
  proof (cases "number_source_ips c = 0")
    case True
    then show ?thesis using c s by (auto simp: ctx_inv_defs split: option.splits)
  next
    case False
    then have "0 < number_source_ips c" by (simp add: word_gt_0)
    then show ?thesis using False c s by (simp add: ctx_inv_def)
  qed
qed

lemma length_parse_mac: "parse_mac out s = (ok, out') \<Longrightarrow> length out' = length out"
proof -
  have "parse_mac_from n i s out = (ok, out') \<Longrightarrow> length out' = length out" for n i out
    by (induction n i s out arbitrary: ok out' rule: parse_mac_from.induct)
      (auto simp: Let_def split: if_splits prod.splits)
  then show "parse_mac out s = (ok, out') \<Longrightarrow> length out' = length out"
    by (auto simp: parse_mac_def split: if_splits)
qed

lemma inv_set_gw_mac:
  assumes "host_ok h" "ctx_inv 5 ctx" "set_gw_mac h args ctx = Inr ctx'" shows "ctx_inv 6 ctx'"
proof -
  obtain c where c: "(case gateway_mac_opt args of None \<Rightarrow> Inr ctx
        | Some s \<Rightarrow> (let (ok, mac) = parse_mac (gw_mac ctx) s
                     in if \<not> ok then Inl BadMac else Inr (ctx\<lparr>gw_mac := mac, gw_mac_set := True\<rparr>))) = Inr c"
    and c': "(if gw_mac_set c then Inr c else case default_gw h (the (iface_send c)) of
        None \<Rightarrow> Inl NoGateway
      | Some ip \<Rightarrow> (case gw_hw_addr h ip (the (iface_send c)) of
                      None \<Rightarrow> Inl NoGatewayMac
                    | Some mac \<Rightarrow> Inr (c\<lparr>gw_ip := ip, gw_mac := mac, gw_mac_set := True\<rparr>))) = Inr ctx'"
    using assms(3) unfolding set_gw_mac_def and_then_Inr by blast
  have "ctx_inv 5 c"
    using c assms(2) by (auto simp: ctx_inv_defs split: option.splits prod.splits if_splits dest: length_parse_mac)
  then show ?thesis
    using c' assms(1) by (auto simp: ctx_inv_defs host_ok_def split: option.splits if_splits)
qed

lemma inv_set_hw_mac:
  assumes "host_ok h" "ctx_inv 6 ctx" "set_hw_mac h args ctx = Inr ctx'" shows "ctx_inv 7 ctx'"
proof -
  obtain c where c: "(case source_mac_opt args of None \<Rightarrow> Inr ctx
        | Some s \<Rightarrow> (let (ok, mac) = parse_mac (hw_mac ctx) s
                     in if \<not> ok then Inl BadMac else Inr (ctx\<lparr>hw_mac := mac, hw_mac_set := True\<rparr>))) = Inr c"
    and c': "(if hw_mac_set c then Inr c else case iface_hw_addr h (the (iface_send c)) of
        None \<Rightarrow> Inl NoHardwareAddress
      | Some mac \<Rightarrow> Inr (c\<lparr>hw_mac := mac, hw_mac_set := True\<rparr>)) = Inr ctx'"
    using assms(3) unfolding set_hw_mac_def and_then_Inr by blast
  have "ctx_inv 6 c"
    using c assms(2) by (auto simp: ctx_inv_defs split: option.splits prod.splits if_splits dest: length_parse_mac)
  then show ?thesis
    using c' assms(1) by (auto simp: ctx_inv_defs host_ok_def split: option.splits if_splits)
qed

lemma inv_set_seed: "ctx_inv 7 ctx \<Longrightarrow> set_seed h args ctx = Inr ctx' \<Longrightarrow> ctx_inv 8 ctx'"
  by (auto simp: set_seed_def and_then_Inr ctx_inv_defs split: option.splits)

lemma inv_set_shards: "ctx_inv 8 ctx \<Longrightarrow> set_shards args ctx = Inr ctx' \<Longrightarrow> ctx_inv 9 ctx'"
  by (auto simp: set_shards_def and_then_Inr enforce_range_Inr ctx_inv_defs Let_def not_le set_if_given_def
    split: option.splits if_splits)

lemma inv_set_bandwidth: "ctx_inv 9 ctx \<Longrightarrow> set_bandwidth args ctx = Inr ctx' \<Longrightarrow> ctx_inv 10 ctx'"
  by (auto simp: set_bandwidth_def ctx_inv_defs Let_def split: option.splits list.splits)

lemma inv_set_targets:
  assumes "ctx_inv 10 ctx" "set_targets h args ctx = Inr ctx'" shows "ctx_inv 11 ctx'"
proof -
  define c0 where "c0 = (case max_targets_opt args of None \<Rightarrow> ctx | Some s \<Rightarrow> ctx\<lparr>max_targets_wanted := max_hosts_of h s\<rparr>)"
  have c0: "ctx_inv 10 c0" using assms(1) by (auto simp: c0_def ctx_inv_defs split: option.splits)
  obtain wb where wb: "xm_wblist_create (host_env h) (whitelist_filename c0) (blacklist_filename c0)
      (if destination_cidrs c0 = [] then None else Some (destination_cidrs c0)) None = Inr wb"
    using assms(2) by (auto simp: set_targets_def c0_def [symmetric] Let_def split: sum.splits)
  obtain c1 where c1: "(case list_of_ips_filename c0 of
        None \<Rightarrow> Inr (c0\<lparr>the_wblist := Some wb\<rparr>)
      | Some f \<Rightarrow> (case xm_pbm_load_from_file (host_env h) (junk_addr h) xm_pbm_init f of
             None \<Rightarrow> Inl NoListFile
           | Some (b, n) \<Rightarrow> Inr (c0\<lparr>the_wblist := Some wb, list_of_ips_pbm := Some b, list_of_ips_count := n\<rparr>))) = Inr c1"
    and fin: "(let allowed = xm_wblist_count_allowed wb;
         c = c1\<lparr>total_allowed := allowed, total_disallowed := xm_wblist_count_not_allowed wb\<rparr>
       in if allowed > 0x100000000 then Inl TooManyTargets
          else if total_allowed c = 0 then Inl NoTargets
          else if max_targets_wanted c \<noteq> 0 then Inr (c\<lparr>xsend_max_targets := max_targets_wanted c\<rparr>)
          else Inr c) = Inr ctx'"
    using assms(2) unfolding set_targets_def c0_def [symmetric] Let_def wb by (auto simp: and_then_Inr)
  have "ctx_inv 10 c1 \<and> the_wblist c1 = Some wb"
    using c1 c0 by (auto simp: ctx_inv_defs split: option.splits)
  then show ?thesis
    using fin by (auto simp: ctx_inv_defs Let_def not_less word_gt_0 split: if_splits)
qed

lemma inv_set_senders: "ctx_inv 11 ctx \<Longrightarrow> ctx_inv 11 (set_senders args ctx)"
  by (simp add: set_senders_def ctx_inv_defs Let_def)

lemma inv_set_interfaces: "ctx_inv 11 ctx \<Longrightarrow> set_interfaces h ctx = Inr ctx' \<Longrightarrow> ctx_inv 11 ctx'"
  by (auto simp: set_interfaces_def ctx_inv_defs split: option.splits)

lemma inv_context_set:
  assumes "host_ok h" "context_set h args context_init = Inr ctx" shows "ctx_inv 11 ctx"
  using assms(2) unfolding context_set_def and_then_Inr
  by (elim exE conjE)
    (iprover intro: inv_init inv_set_probe inv_set_options inv_check_retries inv_set_ports inv_set_source_ip
      inv_set_gw_mac [OF assms(1)] inv_set_hw_mac [OF assms(1)] inv_set_seed inv_set_shards inv_set_bandwidth
      inv_set_targets inv_set_senders inv_set_interfaces)

section \<open>Lists of source addresses\<close>

text \<open>What a text stands for: the pieces between the commas, each an address or a range.\<close>

function split_at :: "char \<Rightarrow> string \<Rightarrow> string list" where
  "split_at c s = (case cut_at c s of (s1, None) \<Rightarrow> [s1] | (s1, Some r) \<Rightarrow> s1 # split_at c r)"
  by pat_completeness auto
termination
  by (relation "measure (\<lambda>(c, s). length s)") (auto dest: cut_at_shorter [OF sym])

declare split_at.simps [simp del]

definition range_addresses :: "host \<Rightarrow> u32 \<Rightarrow> u32 \<Rightarrow> u32 list" where
  "range_addresses h start stop =
     map (\<lambda>k. string_to_ip_address h (inet_ntoa h (htonl (start + of_nat k)))) [0..<unat (stop - start)]"

definition piece_addresses :: "host \<Rightarrow> string \<Rightarrow> u32 list" where
  "piece_addresses h s =
     (case cut_at CHR ''-'' s of
        (s1, None) \<Rightarrow> [string_to_ip_address h s]
      | (s1, Some s2) \<Rightarrow>
          range_addresses h (ntohl (string_to_ip_address h s1)) (ntohl (string_to_ip_address h s2) + 1))"

definition source_list :: "host \<Rightarrow> string \<Rightarrow> u32 list" where
  "source_list h s = concat (map (piece_addresses h) (split_at CHR '','' s))"

text \<open>The addresses a context has; the array takes 256 of them.\<close>

definition taken :: "xm_context \<Rightarrow> u32 list" where
  "taken ctx = take (unat (number_source_ips ctx)) (source_ip_addresses ctx)"

definition room_ok :: "xm_context \<Rightarrow> bool" where
  "room_ok ctx \<longleftrightarrow> length (source_ip_addresses ctx) = 256 \<and> unat (number_source_ips ctx) \<le> 256"

definition extends :: "xm_context \<Rightarrow> u32 list \<Rightarrow> xm_context \<Rightarrow> bool" where
  "extends ctx as ctx' \<longleftrightarrow> (room_ok ctx \<longrightarrow> room_ok ctx' \<and> taken ctx' = take 256 (taken ctx @ as))"

lemma extends_none [simp]: "extends ctx [] ctx"
  by (simp add: extends_def room_ok_def taken_def)

lemma take_append_take: "take n (take n xs @ ys) = take n (xs @ ys)"
  by (cases "length xs \<le> n") (simp_all add: take_append)

lemma extends_trans: "extends a as b \<Longrightarrow> extends b bs c \<Longrightarrow> extends a (as @ bs) c"
  using take_append_take [of 256 "taken a @ as" bs] by (auto simp: extends_def simp del: take_append)

lemma extends_add: "extends ctx [string_to_ip_address h s] (add_to_array h s ctx)"
proof (cases "number_source_ips ctx \<ge> 256")
  case True
  then have "unat (number_source_ips ctx) = 256" if "room_ok ctx"
    using that by (simp add: room_ok_def word_le_nat_alt)
  then show ?thesis using True by (auto simp: extends_def add_to_array_def taken_def room_ok_def)
next
  case False
  then have lt: "unat (number_source_ips ctx) < 256" by (simp add: word_le_nat_alt)
  then have "unat (number_source_ips ctx + 1) = Suc (unat (number_source_ips ctx))" by (subst unat_add_small) simp_all
  then show ?thesis using False lt
    by (auto simp: extends_def add_to_array_def taken_def room_ok_def take_Suc_conv_app_nth)
qed

lemma extends_commas: "extends ctx (map (string_to_ip_address h) (split_at CHR '','' s)) (add_commas h s ctx)"
proof (induction h s ctx rule: add_commas.induct)
  case (1 h s ctx)
  obtain s1 r where c: "cut_at CHR '','' s = (s1, r)" by (cases "cut_at CHR '','' s")
  show ?case
  proof (cases r)
    case None
    then show ?thesis using c extends_add by (simp add: add_commas.simps [of h s ctx] split_at.simps [of _ s])
  next
    case (Some r')
    then have "extends (add_to_array h s1 ctx) (map (string_to_ip_address h) (split_at CHR '','' r'))
        (add_commas h r' (add_to_array h s1 ctx))"
      using 1 c by simp
    from extends_trans [OF extends_add this] show ?thesis
      using c Some by (simp add: add_commas.simps [of h s ctx] split_at.simps [of _ s])
  qed
qed

lemma range_addresses_step:
  assumes "start \<noteq> stop"
  shows "range_addresses h start stop =
    string_to_ip_address h (inet_ntoa h (htonl start)) # range_addresses h (start + 1) stop"
proof -
  have "stop - start \<noteq> 0" using assms by simp
  then have "unat (stop - start - 1) = unat (stop - start) - 1" "0 < unat (stop - start)"
    by (simp_all add: unat_minus_one unat_gt_0)
  then have "unat (stop - start) = Suc (unat (stop - (start + 1)))" by (simp add: diff_diff_eq)
  then show ?thesis
    by (simp add: range_addresses_def upt_conv_Cons map_Suc_upt [symmetric] comp_def add.assoc del: upt_Suc)
qed

lemma extends_range: "extends ctx (range_addresses h start stop) (add_range h start stop ctx)"
proof (induction h start stop ctx rule: add_range.induct)
  case (1 h start stop ctx)
  show ?case
  proof (cases "start = stop")
    case True
    then show ?thesis by (subst add_range.simps) (simp add: range_addresses_def)
  next
    case False
    from extends_trans [OF extends_add 1 [OF False]] show ?thesis
      using False by (simp add: add_range.simps [of h start stop ctx] range_addresses_step)
  qed
qed

text \<open>A text without dashes has only pieces without dashes, one without commas is one piece.\<close>

lemma cut_at_none: "snd (cut_at c s) = None \<longleftrightarrow> c \<notin> set s"
proof (cases "dropWhile (\<lambda>x. x \<noteq> c) s")
  case Nil
  then have "snd (cut_at c s) = None" by (simp only: cut_at_def snd_conv list.case)
  moreover have "c \<notin> set s" using Nil dropWhile_eq_Nil_conv [of "\<lambda>x. x \<noteq> c" s] by blast
  ultimately show ?thesis by blast
next
  case (Cons x r)
  then have "snd (cut_at c s) = Some r" by (simp only: cut_at_def snd_conv list.case)
  moreover have "c \<in> set s"
    using Cons dropWhile_eq_Nil_conv [of "\<lambda>x. x \<noteq> c" s] by auto
  ultimately show ?thesis by simp
qed

lemma cut_at_parts: "cut_at c s = (s1, Some r) \<Longrightarrow> s = s1 @ c # r \<and> c \<notin> set s1"
proof -
  assume a: "cut_at c s = (s1, Some r)"
  then obtain x where d: "dropWhile (\<lambda>x. x \<noteq> c) s = x # r" and s1: "s1 = takeWhile (\<lambda>x. x \<noteq> c) s"
    by (auto simp: cut_at_def split: list.splits)
  then have "x = c" using hd_dropWhile [of "\<lambda>x. x \<noteq> c" s] by simp
  then show ?thesis using d s1 takeWhile_dropWhile_id [of "\<lambda>x. x \<noteq> c" s] by (auto dest: set_takeWhileD)
qed

lemma split_at_pieces: "x \<in> set p \<Longrightarrow> p \<in> set (split_at c s) \<Longrightarrow> x \<in> set s"
proof (induction c s rule: split_at.induct)
  case (1 c s)
  obtain s1 r where s: "cut_at c s = (s1, r)" by (cases "cut_at c s")
  show ?case
  proof (cases r)
    case None
    then have "s1 = s" using s cut_at_none [of c s] by (auto simp: cut_at_def)
    then show ?thesis using 1 s None by (simp add: split_at.simps [of c s])
  next
    case (Some r')
    then show ?thesis using 1 s cut_at_parts [of c s s1 r'] by (auto simp: split_at.simps [of c s])
  qed
qed

lemma piece_without_dash: "CHR ''-'' \<notin> set s \<Longrightarrow> piece_addresses h s = [string_to_ip_address h s]"
proof -
  assume "CHR ''-'' \<notin> set s"
  then have "snd (cut_at CHR ''-'' s) = None" by (simp add: cut_at_none)
  then show ?thesis by (cases "cut_at CHR ''-'' s") (simp add: piece_addresses_def)
qed

lemma split_without: "c \<notin> set s \<Longrightarrow> split_at c s = [s]"
proof -
  assume c: "c \<notin> set s"
  then have "snd (cut_at c s) = None" by (simp add: cut_at_none)
  moreover have "fst (cut_at c s) = s" using c by (auto simp: cut_at_def)
  ultimately show ?thesis by (subst split_at.simps) (auto split: prod.splits option.splits)
qed

lemma extends_parse: "extends ctx (source_list h s) (xm_parse_source_ip_addresses h s ctx)"
proof (induction h s ctx rule: xm_parse_source_ip_addresses.induct)
  case (1 h s ctx)
  obtain d1 d2 where d: "cut_at CHR ''-'' s = (d1, d2)" by (cases "cut_at CHR ''-'' s")
  obtain c1 c2 where c: "cut_at CHR '','' s = (c1, c2)" by (cases "cut_at CHR '','' s")
  have nod: "d2 = None \<Longrightarrow> CHR ''-'' \<notin> set s" and noc: "c2 = None \<Longrightarrow> CHR '','' \<notin> set s"
    using d c cut_at_none [of _ s] by (metis snd_conv)+
  note parse = xm_parse_source_ip_addresses.simps [of h s ctx]
  show ?case
  proof (cases c2)
    case None
    have one: "source_list h s = piece_addresses h s"
      using split_without [OF noc [OF None]] by (simp add: source_list_def)
    show ?thesis
    proof (cases d2)
      case None': None
      then show ?thesis
        using c d None extends_add one piece_without_dash [OF nod [OF None']] by (simp add: parse)
    next
      case (Some r)
      then show ?thesis using c d None one extends_range by (simp add: parse piece_addresses_def)
    qed
  next
    case (Some r)
    have s: "s = c1 @ CHR '','' # r" "CHR '','' \<notin> set c1" using cut_at_parts c Some by auto
    have sl: "source_list h s = piece_addresses h c1 @ source_list h r"
      using c Some by (simp add: source_list_def split_at.simps [of _ s])
    show ?thesis
    proof (cases d2)
      case None
      have "piece_addresses h p = [string_to_ip_address h p]" if "p \<in> set (split_at CHR '','' s)" for p
        using split_at_pieces [of "CHR ''-''" p _ s] that nod [OF None] by (intro piece_without_dash) blast
      then have "source_list h s = map (string_to_ip_address h) (split_at CHR '','' s)"
        by (simp add: source_list_def concat_map_singleton cong: map_cong)
      then show ?thesis using c d Some None extends_commas by (simp add: parse)
    next
      case (Some r')
      have "source_list h c1 = piece_addresses h c1"
        using split_without [OF s(2)] by (simp add: source_list_def)
      moreover have "extends ctx (source_list h c1) (xm_parse_source_ip_addresses h c1 ctx)"
        by (rule 1(1)) (use c d \<open>c2 = Some r\<close> Some in auto)
      moreover have "extends (xm_parse_source_ip_addresses h c1 ctx) (source_list h r)
          (xm_parse_source_ip_addresses h r (xm_parse_source_ip_addresses h c1 ctx))"
        by (rule 1(2)) (use c d \<open>c2 = Some r\<close> Some in auto)
      ultimately show ?thesis
        using c d \<open>c2 = Some r\<close> Some extends_trans sl by (simp add: parse)
    qed
  qed
qed

section \<open>Hardware addresses as text\<close>

definition hex_digit :: "nat \<Rightarrow> char" where
  "hex_digit n = char_of (if n < 10 then 48 + n else 87 + n)"

definition hex2 :: "u8 \<Rightarrow> string" where
  "hex2 b = [hex_digit (unat b div 16), hex_digit (unat b mod 16)]"

definition mac_text :: "u8 list \<Rightarrow> string" where
  "mac_text bs = tl (concat (map (\<lambda>b. CHR '':'' # hex2 b) bs))"

lemma hex_digit_facts:
  assumes "n < 16"
  shows "digit_of (hex_digit n) = Some n" "\<not> isspace (hex_digit n)"
    "hex_digit n \<noteq> CHR ''-''" "hex_digit n \<noteq> CHR ''+''"
proof -
  define m where "m = (if n < 10 then 48 + n else 87 + n)"
  have m: "of_char (hex_digit n) = m" "48 \<le> m"
    using assms by (simp_all add: hex_digit_def m_def take_bit_nat_eq_self)
  show "digit_of (hex_digit n) = Some n" using assms by (auto simp: digit_of_def m(1) Let_def m_def)
  show "\<not> isspace (hex_digit n)" using m(2) by (simp add: isspace_def m(1) Let_def)
  have "(of_char CHR ''-'' :: nat) = 45" "(of_char CHR ''+'' :: nat) = 43" by simp_all
  then show "hex_digit n \<noteq> CHR ''-''" "hex_digit n \<noteq> CHR ''+''" using m by auto
qed

lemma strtol_hex2: "strtol 16 (hex2 b) = (int (unat b), [], False)"
proof -
  have lt: "unat b div 16 < 16" "unat b mod 16 < 16" using unsigned_less [of b, where ?'a = nat] by auto
  have "unat b div 16 * 16 + unat b mod 16 = unat b" by simp
  moreover have "uint b < 256" "\<not> uint b < - 9223372036854775808"
    using unsigned_less [of b, where ?'a = int] uint_ge_0 [of b] by (simp, linarith)
  ultimately show ?thesis
    using lt hex_digit_facts [OF lt(1)] hex_digit_facts [OF lt(2)]
    by (simp add: strtol_def hex2_def strip_0x_def is_digit_def digits_value_def Let_def)
qed

lemma byte_of_int: "(word_of_int (int (unat b)) AND 0xFF :: u8) = b"
proof -
  have ones: "(0xFF :: u8) = - 1" by simp
  have "word_of_int (int (unat b)) = b" by simp
  then show ?thesis by (simp only: ones and.right_neutral)
qed

lemma parse_mac_text:
  assumes "length bs = 6" "length out = 6" shows "parse_mac out (mac_text bs) = (True, bs)"
proof -
  obtain a b c d e f where bs: "bs = [a, b, c, d, e, f]"
    using assms(1) by (auto simp: numeral_eq_Suc length_Suc_conv)
  obtain o0 o1 o2 o3 o4 o5 where out: "out = [o0, o1, o2, o3, o4, o5]"
    using assms(2) by (auto simp: numeral_eq_Suc length_Suc_conv)
  have h: "hex2 x = [hex_digit (unat x div 16), hex_digit (unat x mod 16)]" for x by (simp add: hex2_def)
  have s: "strtol 16 [hex_digit (unat x div 16), hex_digit (unat x mod 16)] = (int (unat x), [], False)" for x :: u8
    using strtol_hex2 [of x] by (simp only: h)
  have six: "MAC_ADDR_LEN = Suc (Suc (Suc (Suc (Suc (Suc 0)))))" by (simp add: MAC_ADDR_LEN_def)
  show ?thesis
    by (simp add: parse_mac_def six bs out mac_text_def h s byte_of_int del: of_int_of_nat_eq of_nat_unat)
qed

section \<open>A concrete run\<close>

definition demo_host :: host where
  "demo_host = \<lparr>host_env = demo_env, inet_ntoa = (\<lambda>a. ''1.2.3.4''), default_iface = Some ''eth0'',
     iface_ip = (\<lambda>i. Some 0x0100000A), default_gw = (\<lambda>i. Some 0xFE00000A),
     gw_hw_addr = (\<lambda>a i. Some [1, 2, 3, 4, 5, 6]), iface_hw_addr = (\<lambda>i. Some [6, 5, 4, 3, 2, 1]),
     random_seed = Some 7, random_key = replicate 16 9, pool_words = replicate 44 0, junk_addr = (\<lambda>n. 0),
     max_hosts_of = (\<lambda>s. 5), driver_ok = (\<lambda>t n c. True)\<rparr>"

definition demo_options :: options where
  "demo_options = \<lparr>log_level_arg = None, probe_module_arg = ''tcp_synscan'', iplayer_given = False,
     ignore_invalid_hosts_given = False, ignore_blacklist_errors_given = False, cooldown_time_arg = 8,
     blacklist_file_opt = None, whitelist_file_opt = None, list_of_ips_file_opt = None, probe_args_opt = None,
     probe_ttl_opt = None, max_runtime_opt = None, max_results_opt = None, rate_opt = None, probes_opt = None,
     retries_opt = None, max_sendto_failures_opt = None, shm_fname_opt = None, shm_fentry_size_opt = None,
     shm_fsize_opt = None, shm_flush_timeout_opt = None, interface_send_opt = None, interface_recv_opt = None,
     interface_send_type_opt = None, interface_recv_type_opt = None, interface_send_cfname_opt = None,
     interface_recv_cfname_opt = None, core_mask_opt = None, source_port_opt = None, target_port_opt = Some 80,
     source_ip_opt = None, gateway_mac_opt = None, source_mac_opt = None, seed_opt = None, shard_opt = None,
     shards_opt = None, bandwidth_opt = None, max_targets_opt = None, sender_threads_opt = None,
     inputs = [''10.0.0.0/8'']\<rparr>"

lemma demo_host_ok: "host_ok demo_host"
  by (simp add: host_ok_def demo_host_def)

lemma demo_targets:
  "\<exists>wb. xm_wblist_create demo_env None None (Some [''10.0.0.0/8'']) None = Inr wb \<and>
     0 < xm_wblist_count_allowed wb \<and> xm_wblist_count_allowed wb \<le> 0x100000000"
proof -
  let ?t = "list_tree demo_env None None (Some [''10.0.0.0/8'']) None"
  let ?es = "[(0x0A000000, 8, 1), (0, 256, 0)] :: entry list"
  have es: "list_entries demo_env None None (Some [''10.0.0.0/8'']) None = ?es" by code_simp
  have cov: "sorted_wrt (\<lambda>e' e. \<not> covers e e') ?es" by (simp add: covers_def prefix_match_code)
  have "IS_LEAF (lookup_node (root (fold add_entry ?es (xm_iptree_create 0))) 0x0A020001 0x80000000 32)"
    using fold_add_internal [of ?es "xm_iptree_create 0" "0x0A020001" 32] by (auto simp: prefix_match_32)
  moreover have "xm_iptree_lookup_ip (fold add_entry ?es (xm_iptree_create 0)) 0x0A020001 = 1"
    using fold_add_lookup [OF _ cov, of "xm_iptree_create 0" "0x0A020001"]
    by (simp add: entry_match_def prefix_match_code prefix_match_32)
  ultimately have "0x0A020001 \<in> indexed_addrs ?t ADDR_ALLOWED"
    unfolding list_tree_def es
    by (simp add: indexed_addrs_def list_default_def array_of_def ADDR_ALLOWED_def ADDR_DISALLOWED_def)
  from wblist_create_ok [of demo_env None None "0x0A020001" "Some [''10.0.0.0/8'']" None, OF _ _ this]
  obtain wb where wb: "xm_wblist_create demo_env None None (Some [''10.0.0.0/8'']) None = Inr wb" by auto
  have "unat (xm_wblist_count_allowed wb) < 2 ^ 32"
    by (rule wbl.count_bound [OF wblist_create_ready [OF wb demo_zero]])
  then show ?thesis using wb wblist_create_tree(2) [OF wb] by (auto simp: word_le_nat_alt word_gt_0)
qed

lemma aesrand_exists: "\<exists>aes. xm_aesrand_create_from_seed mem s = Some aes"
  by (simp add: xm_aesrand_create_from_seed_def aesrand_init_def rijndaelKeySetupEnc_def AES_KEY_BITS_def
    AES_KEY_BYTES_def AES_ROUNDS_def Let_def split: prod.splits)

lemma demo_creation: "\<exists>ctx st' vs'. xm_context_create demo_host demo_options st vs = Inr (ctx, st', vs')"
proof -
  obtain wb where wb: "xm_wblist_create demo_env None None (Some [''10.0.0.0/8'']) None = Inr wb"
    "xm_wblist_count_allowed wb \<noteq> 0" "\<not> xm_wblist_count_allowed wb > 0x100000000"
    using demo_targets by (auto simp: not_less word_gt_0)
  obtain aes where aes: "xm_aesrand_create_from_seed (replicate 44 0) 7 = Some aes" using aesrand_exists by blast
  have probe: "xm_probe_get_by_name (Some ''tcp_synscan'') = Some probe_tcp_synscan"
    by (simp add: xm_probe_get_by_name_def probes_def probe_tcp_synscan_def)
  have if_types: "get_if_type ''linux'' = 3" "get_if_type ''libpcap'' = 2" by (code_simp)+
  show ?thesis
    by (simp add: xm_context_create_def context_set_def context_init_def demo_host_def demo_options_def
      set_probe_def probe set_options_def set_if_given_def check_retries_def set_ports_def set_source_ports_def
      probe_tcp_synscan_def xm_enforce_range_def set_source_ip_def set_gw_mac_def set_hw_mac_def set_seed_def aes
      set_shards_def set_bandwidth_def set_targets_def wb set_senders_def set_interfaces_def xm_if_create_def
      if_types make_driver_def IF_PFRING_def IF_LIBPCAP_def IF_LINUX_def Let_def)
qed

section \<open>Properties\<close>

text \<open>Property C21. A context that is created is one the tasks can work with: its ports are in order,
  it has at least one and at most 256 source addresses, both hardware addresses have six bytes,
  its shard exists, there is a target and there are at most \<open>2 ^ 32\<close>, the sizes of the result
  store are not zero, and no probe divides by zero when it makes a packet.\<close>

theorem context_established:
  assumes "host_ok h" "xm_context_create h args st vs = Inr (ctx, st', vs')"
  shows "source_port_first ctx \<le> source_port_last ctx \<and>
    0 < number_source_ips ctx \<and> unat (number_source_ips ctx) \<le> 256 \<and> length (source_ip_addresses ctx) = 256 \<and>
    length (gw_mac ctx) = 6 \<and> length (hw_mac ctx) = 6 \<and> 0 \<le> num_retries ctx \<and>
    shard_num ctx < total_shards ctx \<and> shm_fsize ctx \<noteq> 0 \<and> shm_fentry_size ctx \<noteq> 0 \<and>
    (\<exists>wb. the_wblist ctx = Some wb \<and> 0 < xm_wblist_count_allowed wb \<and> xm_wblist_count_allowed wb \<le> 0x100000000) \<and>
    (\<exists>p. p \<in> set probes \<and> the_probe ctx = Some p \<and>
      probe_make_packet p st' tv pbuf sip dip ttl validation i \<noteq> None)"
proof -
  obtain c: "context_set h args context_init = Inr ctx"
    and st': "st' = probe_context_init (the (the_probe ctx)) (probe_context.truncate ctx) st"
    using assms(2) by (auto simp: xm_context_create_def and_then_Inr)
  have inv: "ctx_inv 11 ctx" by (rule inv_context_set [OF assms(1) c])
  then obtain p where p: "p \<in> set probes" "the_probe ctx = Some p" by (auto simp: ctx_inv_def)
  have le: "source_port_first ctx \<le> source_port_last ctx" using inv by (simp add: ctx_inv_defs)
  let ?c = "probe_context.truncate ctx"
  have le': "source_port_first ?c \<le> source_port_last ?c" using le by (simp add: probe_context.defs)
  have src: "xm_get_src_port (port_count (source_port_first ?c) (source_port_last ?c)) i (source_port_first ?c) validation \<noteq> None"
    using get_src_port_window [OF le', of i validation] by (metis option.distinct(1))
  have "probe_make_packet p st' tv pbuf sip dip ttl validation i \<noteq> None"
    using p src unfolding st' port_count_def
    by (auto simp: probes_def probe_tcp_synscan_def probe_tcp_synackscan_def probe_icmp_echo_def
      probe_icmp_echo_time_def synscan_probe_make_packet_def synackscan_make_packet synscan_probe_context_init_def
      synackscan_probe_context_init_def icmp_probe_make_packet_def icmp_time_probe_make_packet_def Let_def)
  then show ?thesis using inv p by (auto simp: ctx_inv_defs)
qed

theorem context_established_witness:
  "\<exists>ctx st' vs'. xm_context_create demo_host demo_options demo_static \<lparr>aes_input = [0, 0, 0, 0], aes_sched = replicate 44 0\<rparr> =
      Inr (ctx, st', vs') \<and> source_port_first ctx \<le> source_port_last ctx \<and> shard_num ctx < total_shards ctx"
proof -
  obtain ctx st' vs' where c: "xm_context_create demo_host demo_options demo_static
      \<lparr>aes_input = [0, 0, 0, 0], aes_sched = replicate 44 0\<rparr> = Inr (ctx, st', vs')"
    using demo_creation by blast
  show ?thesis
    using c context_established [OF demo_host_ok c, of "(0, 0)" "\<lambda>i. 0" 0 0 0 "[0, 0, 0, 0]" 0] by blast
qed

text \<open>Property C38. The text of a list of source addresses stands for the addresses and ranges between
  its commas, in order; the array takes those that fit, the first 256.\<close>

theorem source_addresses_parsed:
  assumes "length (source_ip_addresses ctx) = 256" "unat (number_source_ips ctx) \<le> 256"
  shows "taken (xm_parse_source_ip_addresses h s ctx) = take 256 (taken ctx @ source_list h s)"
  using extends_parse [of ctx h s] assms by (simp add: extends_def room_ok_def)

theorem source_addresses_parsed_witness:
  "taken (xm_parse_source_ip_addresses demo_host ''10.0.0.0,1.2.3.4'' context_init) = [0x0000000A, 0x04030201]"
proof -
  have "source_list demo_host ''10.0.0.0,1.2.3.4'' = [0x0000000A, 0x04030201]"
  proof -
    have "cut_at CHR '','' ''10.0.0.0,1.2.3.4'' = (''10.0.0.0'', Some ''1.2.3.4'')"
      "cut_at CHR '','' ''1.2.3.4'' = (''1.2.3.4'', None)" by (simp_all add: cut_at_def)
    then have "split_at CHR '','' ''10.0.0.0,1.2.3.4'' = [''10.0.0.0'', ''1.2.3.4'']"
      by (simp add: split_at.simps [of _ "''10.0.0.0,1.2.3.4''"] split_at.simps [of _ "''1.2.3.4''"])
    then show ?thesis
      by (simp add: source_list_def piece_addresses_def cut_at_def string_to_ip_address_def inet_addr_def
        demo_host_def demo_env_def)
  qed
  then show ?thesis
    using source_addresses_parsed [of context_init demo_host "''10.0.0.0,1.2.3.4''"]
    by (simp add: context_init_def taken_def)
qed

text \<open>A hardware address printed as six pairs of digits is read back.\<close>

theorem mac_roundtrip:
  assumes "length mac = 6" "length out = 6"
  shows "parse_mac out (mac_text mac) = (True, mac)"
  by (rule parse_mac_text [OF assms])

theorem mac_roundtrip_witness:
  "parse_mac [0, 0, 0, 0, 0, 0] (mac_text [0, 0x1F, 2, 0xAB, 4, 5]) = (True, [0, 0x1F, 2, 0xAB, 4, 5])"
  by (rule mac_roundtrip) simp_all

text \<open>Out of range numbers are not all refused: a single source port is, but the ends of
  a range are reduced to 16 bits before they are checked, so that only their order can fail, and
  a number of threads is reduced to 8 bits, so that 256 threads are none.\<close>

theorem out_of_range_accepted:
  "set_source_ports (demo_options\<lparr>source_port_opt := Some ''70000''\<rparr>) ctx = Inl OutOfRange \<and>
   set_source_ports (demo_options\<lparr>source_port_opt := Some ''70000-80000''\<rparr>) ctx =
     Inr (ctx\<lparr>source_port_first := 4464, source_port_last := 14464\<rparr>) \<and>
   (0 < xsend_max_targets ctx \<longrightarrow>
     set_senders (demo_options\<lparr>sender_threads_opt := Some 256\<rparr>) ctx = ctx\<lparr>senders := 0\<rparr>)"
proof -
  have "fst (strtol 10 ''70000'') = 70000" "fst (strtol 10 ''80000'') = 80000"
    by (simp_all add: strtol_def strip_0x_def is_digit_def digit_of_def digits_value_def isspace_def Let_def)
  then have a: "atoi ''70000'' = 70000" "atoi ''80000'' = 80000" by (simp_all add: atoi_def to_int_small)
  have c: "cut_at CHR ''-'' ''70000'' = (''70000'', None)"
    "cut_at CHR ''-'' ''70000-80000'' = (''70000'', Some ''80000'')" by (simp_all add: cut_at_def)
  show ?thesis
    by (simp add: set_source_ports_def demo_options_def a c xm_enforce_range_def set_senders_def Let_def linorder_not_less [symmetric])
qed

theorem out_of_range_accepted_witness:
  "senders (set_senders (demo_options\<lparr>sender_threads_opt := Some 256\<rparr>) (context_init\<lparr>xsend_max_targets := 5\<rparr>)) = 0"
  using out_of_range_accepted [of "context_init\<lparr>xsend_max_targets := 5\<rparr>"] by simp

end
