(* ===== verification/Recv.thy ===== *)
theory Recv
  imports Context
begin

text \<open>
  The receiving task, \<open>src/xm_recv_task.c\<close>: it hands every packet that arrives to the probe,
  counts what the probe accepts, and stores a record for each address the first time it answers.
  The driver that delivers packets is outside; a batch is what one call of its \<open>receive\<close> delivers.
\<close>

unbundle bit_operations_syntax

section \<open>State\<close>

text \<open>The counters of the context that the task keeps, \<open>context->xrecv\<close>.\<close>

record recv_counters =
  success_total :: u32
  success_unique :: u32
  cooldown_total :: u32
  cooldown_unique :: u32
  filter_success :: u32
  ip_fragments :: u32
  validation_passed :: u32
  validation_failed :: u32

text \<open>The task with what it shares: the block it writes to, the static state of \<open>xm_validate.c\<close>
  and the frame that stands for the one of an IP packet.\<close>

record xm_recv_task =
  seen :: pbm
  task_xstore :: xm_store
  xrecv :: recv_counters
  shared_block :: shm_world
  task_validate :: validate_state
  fake_eth_hdr :: packet

datatype recv_error = DivisionByZero | FrameOverrun | NeverRoom

definition SIZEOF_FAKE_ETH_HDR :: nat where "SIZEOF_FAKE_ETH_HDR = 65535"
definition IP_MF :: u16 where "IP_MF = 0x2000"

section \<open>One packet\<close>

text \<open>The counting of an accepted packet, \<open>repeated\<close> if its address has been seen.\<close>

definition recv_count :: "bool \<Rightarrow> bool \<Rightarrow> bool \<Rightarrow> recv_counters \<Rightarrow> recv_counters" where
  "recv_count fragment repeated send_complete c =
     (let c = (if fragment then c\<lparr>ip_fragments := ip_fragments c + 1\<rparr> else c);
          c = c\<lparr>success_total := success_total c + 1\<rparr>;
          c = (if \<not> repeated then c\<lparr>success_unique := success_unique c + 1\<rparr> else c)
      in if send_complete
         then (let c = c\<lparr>cooldown_total := cooldown_total c + 1\<rparr>
               in if \<not> repeated then c\<lparr>cooldown_unique := cooldown_unique c + 1\<rparr> else c)
         else c)"

text \<open>Storing an accepted packet.  Without link layer the packet is copied behind an empty
  ethernet header first; the copy is limited to the size of the whole frame, not to what is left
  behind that header.\<close>

definition recv_store ::
  "(msgpack_call \<Rightarrow> u8 list) \<Rightarrow> (shm_world \<Rightarrow> shm_world) \<Rightarrow> xm_context \<Rightarrow> u64 \<Rightarrow> packet \<Rightarrow> u64 \<Rightarrow> xm_recv_task
   \<Rightarrow> recv_error + xm_recv_task" where
  "recv_store pack reader ctx timems pkt_data pkt_len task =
     (let probe = the (the_probe ctx);
          ip_hdr = at_offset pkt_data (data_link_size ctx);
          n = min (unat pkt_len) SIZEOF_FAKE_ETH_HDR
      in if send_ip_pkts ctx \<and> sizeof_ether_header + n > SIZEOF_FAKE_ETH_HDR then Inl FrameOverrun
         else (let fake = (if send_ip_pkts ctx
                 then put_bytes (fake_eth_hdr task) sizeof_ether_header (map ip_hdr [0..<n]) else fake_eth_hdr task);
               frame = (if send_ip_pkts ctx then fake else pkt_data);
               xstore = xm_probe_ip_store probe (task_xstore task) ip_hdr;
               xstore = probe_process_packet probe frame xstore
           in case xm_store_flush pack reader timems xstore (shared_block task) (probe_type probe) of
                None \<Rightarrow> Inl NeverRoom
              | Some (xstore, w) \<Rightarrow>
                  Inr (task\<lparr>fake_eth_hdr := fake, task_xstore := xstore, shared_block := w\<rparr>)))"

text \<open>\<open>_recv_packet_handle\<close>; \<open>send_complete\<close> is \<open>context->xsend.complete\<close>, \<open>timems\<close> the time in
  milliseconds, \<open>st\<close> the static state of the probe.\<close>

definition recv_packet_handle ::
  "(msgpack_call \<Rightarrow> u8 list) \<Rightarrow> (shm_world \<Rightarrow> shm_world) \<Rightarrow> xm_context \<Rightarrow> probe_static \<Rightarrow> bool
   \<Rightarrow> u64 \<Rightarrow> packet \<Rightarrow> u64 \<Rightarrow> xm_recv_task \<Rightarrow> recv_error + xm_recv_task" where
  "recv_packet_handle pack reader ctx st send_complete timems pkt_data pkt_len task =
     (if sizeof_ip + data_link_size ctx > unat pkt_len then Inr task
      else let ip_hdr = at_offset pkt_data (data_link_size ctx);
               src_ip = load32 ip_hdr 12;
               (bytes, vs) = xm_validate_gen (load32 ip_hdr 16) (load32 ip_hdr 12) (task_validate task);
               len = ucast (pkt_len - (if send_ip_pkts ctx then 0 else of_nat sizeof_ether_header))
           in case probe_validate_packet (the (the_probe ctx)) st ip_hdr len src_ip (validation_words bytes) vs of
                None \<Rightarrow> Inl DivisionByZero
              | Some (ok, src_ip, validation, vs) \<Rightarrow>
                  (let task = task\<lparr>task_validate := vs\<rparr>; c = xrecv task
                   in if \<not> ok then Inr (task\<lparr>xrecv := c\<lparr>validation_failed := validation_failed c + 1\<rparr>\<rparr>)
                      else (let c = c\<lparr>validation_passed := validation_passed c + 1\<rparr>;
                                is_repeat = xm_pbm_check (seen task) (ntohl src_ip);
                                c = recv_count (load16 ip_hdr 6 AND IP_MF \<noteq> 0) is_repeat send_complete c;
                                task = task\<lparr>seen := if \<not> is_repeat then xm_pbm_set (seen task) (ntohl src_ip)
                                              else seen task\<rparr>
                            in if is_repeat \<and> filter_duplicates ctx then Inr (task\<lparr>xrecv := c\<rparr>)
                               else recv_store pack reader ctx timems pkt_data pkt_len
                                      (task\<lparr>xrecv := c\<lparr>filter_success := filter_success c + 1\<rparr>\<rparr>))))"

section \<open>The task\<close>

text \<open>What the driver and the clock do in one turn of the loop: the packets delivered, whether
  sending is complete, and whether the cooldown is then over.\<close>

record recv_batch =
  batch_packets :: "(u64 \<times> packet \<times> u64) list"
  batch_complete :: bool
  batch_cooled :: bool

fun receive_packets ::
  "(msgpack_call \<Rightarrow> u8 list) \<Rightarrow> (shm_world \<Rightarrow> shm_world) \<Rightarrow> xm_context \<Rightarrow> probe_static \<Rightarrow> bool
   \<Rightarrow> (u64 \<times> packet \<times> u64) list \<Rightarrow> xm_recv_task \<Rightarrow> recv_error + xm_recv_task" where
  "receive_packets pack reader ctx st send_complete [] task = Inr task"
| "receive_packets pack reader ctx st send_complete ((timems, pkt_data, pkt_len) # ps) task =
     (case recv_packet_handle pack reader ctx st send_complete timems pkt_data pkt_len task of
        Inl e \<Rightarrow> Inl e
      | Inr task \<Rightarrow> receive_packets pack reader ctx st send_complete ps task)"

text \<open>The loop of \<open>_recv_task_run\<close>; \<open>None\<close> when it never ends.\<close>

partial_function (option) recv_loop ::
  "(msgpack_call \<Rightarrow> u8 list) \<Rightarrow> (shm_world \<Rightarrow> shm_world) \<Rightarrow> xm_context \<Rightarrow> probe_static
   \<Rightarrow> (nat \<Rightarrow> recv_batch) \<Rightarrow> nat \<Rightarrow> xm_recv_task \<Rightarrow> (recv_error + xm_recv_task) option" where
  "recv_loop pack reader ctx st driver i task =
     (case receive_packets pack reader ctx st (batch_complete (driver i)) (batch_packets (driver i)) task of
        Inl e \<Rightarrow> Some (Inl e)
      | Inr task \<Rightarrow>
          if max_results ctx \<noteq> 0 \<and> filter_success (xrecv task) \<ge> max_results ctx then Some (Inr task)
          else if batch_complete (driver i) \<and> batch_cooled (driver i) then Some (Inr task)
          else recv_loop pack reader ctx st driver (Suc i) task)"

definition recv_task_run ::
  "(msgpack_call \<Rightarrow> u8 list) \<Rightarrow> (shm_world \<Rightarrow> shm_world) \<Rightarrow> xm_context \<Rightarrow> probe_static
   \<Rightarrow> (nat \<Rightarrow> recv_batch) \<Rightarrow> xm_recv_task \<Rightarrow> (recv_error + xm_recv_task) option" where
  "recv_task_run pack reader ctx st driver task =
     (let ctx = (if max_results ctx = 0 then ctx\<lparr>max_results := - 1\<rparr> else ctx)
      in recv_loop pack reader ctx st driver 0 task)"

text \<open>Creating the task; \<open>driver\<close> tells whether the interface gives a receiver, \<open>vs\<close> is the state
  of \<open>xm_validate.c\<close>.\<close>

definition xm_recv_task_create ::
  "shm_system \<Rightarrow> xm_shm_header \<Rightarrow> u64 \<Rightarrow> bool \<Rightarrow> mem \<Rightarrow> validate_state \<Rightarrow> xm_context \<Rightarrow> xm_recv_task option" where
  "xm_recv_task_create sys mh timems driver m vs ctx =
     (if \<not> driver then None
      else case xm_store_create sys mh timems (the (shm_fname ctx)) (shm_fsize ctx) (shm_fentry_size ctx)
             (shm_flush_time ctx) of
             None \<Rightarrow> None
           | Some (xstore, mh) \<Rightarrow>
               Some \<lparr>seen = xm_pbm_init, task_xstore = xstore,
                 xrecv = \<lparr>success_total = 0, success_unique = 0, cooldown_total = 0, cooldown_unique = 0,
                   filter_success = 0, ip_fragments = 0, validation_passed = 0, validation_failed = 0\<rparr>,
                 shared_block = \<lparr>w_hdr = mh, w_mem = m, w_time = timems\<rparr>, task_validate = vs,
                 fake_eth_hdr = (\<lambda>i. 0)\<rparr>)"


section \<open>What the probes accept\<close>

text \<open>The validation state up to the block that the next generation overwrites.\<close>

definition norm :: "validate_state \<Rightarrow> validate_state" where
  "norm vs = vs\<lparr>aes_input := (aes_input vs)[0 := 0, 1 := 0]\<rparr>"

lemma validate_gen_norm:
  "fst (xm_validate_gen s d vs) = fst (xm_validate_gen s d (norm vs))"
  "norm (snd (xm_validate_gen s d vs)) = norm vs"
  by (simp_all add: xm_validate_gen_def norm_def Let_def list_update_swap)

text \<open>The outcome of a verdict.\<close>

definition verdict_outcome :: "verdict \<Rightarrow> (bool \<times> u32) option" where
  "verdict_outcome v = map_option (\<lambda>(ok, sip, _). (ok, sip)) v"

lemma icmp_verdict_norm:
  shows "verdict_outcome (icmp_probe_validate_packet st r len sip v vs) =
      verdict_outcome (icmp_probe_validate_packet st r len sip v (norm vs))" (is ?same)
    and "\<exists>ok s v' vs'. icmp_probe_validate_packet st r len sip v vs = Some (ok, s, v', vs') \<and> norm vs' = norm vs" (is ?ok)
proof -
  let ?s = "load32 r 16" and ?d = "load32 r (4 * ip_hl r + 24)"
  obtain bytes vs1 vs2 where g: "xm_validate_gen ?s ?d vs = (bytes, vs1)" "xm_validate_gen ?s ?d (norm vs) = (bytes, vs2)"
    and n: "norm vs1 = norm vs"
    using validate_gen_norm [of ?s ?d vs] by (cases "xm_validate_gen ?s ?d vs"; cases "xm_validate_gen ?s ?d (norm vs)") simp
  show ?same by (simp add: icmp_probe_validate_packet_def Let_def g verdict_outcome_def)
  have "case icmp_probe_validate_packet st r len sip v vs of None \<Rightarrow> False | Some (ok, s, v', vs') \<Rightarrow> norm vs' = norm vs"
    by (simp add: icmp_probe_validate_packet_def Let_def g n)
  then show ?ok by (auto split: option.splits)
qed

lemma verdict_norm:
  assumes "probe \<in> set probes" "source_port_first c \<le> source_port_last c"
  shows "verdict_outcome (probe_validate_packet probe (probe_context_init probe c st) r len sip v vs) =
      verdict_outcome (probe_validate_packet probe (probe_context_init probe c st) r len sip v (norm vs))"
    and "\<exists>ok s v' vs'. probe_validate_packet probe (probe_context_init probe c st) r len sip v vs = Some (ok, s, v', vs') \<and>
      norm vs' = norm vs"
  using assms icmp_verdict_norm
  by (auto simp: probes_def probe_tcp_synscan_def probe_tcp_synackscan_def probe_icmp_echo_def probe_icmp_echo_time_def
    synscan_validate_iff synackscan_validate_iff icmp_time_validate verdict_of_def verdict_outcome_def)

text \<open>The address, in host order, that a packet is accepted for; \<open>vs\<close> is the validation state.\<close>

definition accepted :: "xm_context \<Rightarrow> probe_static \<Rightarrow> validate_state \<Rightarrow> packet \<times> u64 \<Rightarrow> u32 option" where
  "accepted ctx st vs = (\<lambda>(p, n).
     (let ip = at_offset p (data_link_size ctx);
          v = validation_words (fst (xm_validate_gen (load32 ip 16) (load32 ip 12) (norm vs)))
      in if unat n < sizeof_ip + data_link_size ctx then None
         else case verdict_outcome (probe_validate_packet (the (the_probe ctx)) st ip
             (ucast (n - of_nat sizeof_ether_header)) (load32 ip 12) v (norm vs)) of
                Some (True, sip) \<Rightarrow> Some (ntohl sip) | _ \<Rightarrow> None))"

lemma accepted_norm:
  assumes "norm vs = norm vs'"
  shows "accepted ctx st vs = accepted ctx st vs'"
  unfolding accepted_def assms by (rule refl)

text \<open>What a receiver needs to know of the context: one of the probes, frames with a link layer,
  duplicates filtered, the ports in order.\<close>

definition recv_ctx :: "xm_context \<Rightarrow> bool" where
  "recv_ctx ctx \<longleftrightarrow> (\<exists>probe \<in> set probes. the_probe ctx = Some probe) \<and> \<not> send_ip_pkts ctx \<and>
     filter_duplicates ctx \<and> source_port_first ctx \<le> source_port_last ctx"

definition static_of :: "xm_context \<Rightarrow> probe_static \<Rightarrow> probe_static" where
  "static_of ctx st = probe_context_init (the (the_probe ctx)) (probe_context.truncate ctx) st"

lemma verdict_split:
  assumes "recv_ctx ctx" "\<not> unat n < sizeof_ip + data_link_size ctx"
  shows "\<exists>ok sip v vs'. (let ip = at_offset p (data_link_size ctx);
       (bytes, vs) = xm_validate_gen (load32 ip 16) (load32 ip 12) vs0
     in probe_validate_packet (the (the_probe ctx)) (static_of ctx st) ip (ucast (n - of_nat sizeof_ether_header))
          (load32 ip 12) (validation_words bytes) vs) = Some (ok, sip, v, vs') \<and>
     norm vs' = norm vs0 \<and> accepted ctx (static_of ctx st) vs0 (p, n) = (if ok then Some (ntohl sip) else None)"
proof -
  let ?ip = "at_offset p (data_link_size ctx)"
  obtain bytes vs where g: "xm_validate_gen (load32 ?ip 16) (load32 ?ip 12) vs0 = (bytes, vs)"
    by (cases "xm_validate_gen (load32 ?ip 16) (load32 ?ip 12) vs0")
  have n: "norm vs = norm vs0" using validate_gen_norm(2) [of "load32 ?ip 16" "load32 ?ip 12" vs0] g by simp
  obtain probe where probe: "probe \<in> set probes" "the_probe ctx = Some probe"
    "source_port_first (probe_context.truncate ctx) \<le> source_port_last (probe_context.truncate ctx)"
    using assms(1) by (auto simp: recv_ctx_def probe_context.defs)
  let ?v = "\<lambda>vs. probe_validate_packet probe (static_of ctx st) ?ip (ucast (n - of_nat sizeof_ether_header))
    (load32 ?ip 12) (validation_words bytes) vs"
  obtain ok sip v vs' where r: "?v vs = Some (ok, sip, v, vs')" "norm vs' = norm vs"
    using verdict_norm(2) [OF probe(1,3)] probe(2) by (fastforce simp: static_of_def)
  have "verdict_outcome (?v (norm vs0)) = Some (ok, sip)"
    using verdict_norm(1) [OF probe(1,3)] r(1) n probe(2) by (metis (no_types, lifting) static_of_def option.sel
      verdict_outcome_def option.map(2) case_prod_conv)
  then have "accepted ctx (static_of ctx st) vs0 (p, n) = (if ok then Some (ntohl sip) else None)"
    using assms(2) g probe(2) validate_gen_norm(1) [of "load32 ?ip 16" "load32 ?ip 12" vs0]
    by (simp add: accepted_def Let_def)
  then show ?thesis using r n g probe(2) by (simp add: Let_def)
qed

section \<open>What is stored\<close>

text \<open>The documented size of a packed call: at most nine bytes, the body of a string or of binary
  data by its length.\<close>

fun call_size :: "msgpack_call \<Rightarrow> nat" where
  "call_size (PackStrBody s) = length s"
| "call_size (PackBinBody b) = length b"
| "call_size c = 9"

lemma packed_size:
  "\<forall>c. length (pack c) \<le> call_size c \<Longrightarrow> length (concat (map pack cs)) \<le> sum_list (map call_size cs)"
  by (induction cs) (auto intro: add_mono)

lemma result_size:
  assumes "probe \<in> set probes" "pk_buf xstore = []"
  shows "sum_list (map call_size (pk_buf (probe_process_packet probe p (xm_probe_ip_store probe xstore ip)))) \<le> 512"
  using assms by (auto simp: probes_def process_defs store_defs)

text \<open>The record of an accepted packet.\<close>

definition result_record ::
  "(msgpack_call \<Rightarrow> u8 list) \<Rightarrow> xm_context \<Rightarrow> xm_store \<Rightarrow> packet \<Rightarrow> xm_shm_entry_record" where
  "result_record pack ctx xstore p =
     (let probe = the (the_probe ctx)
      in entry_record_of (probe_type probe) (concat (map pack (pk_buf
           (probe_process_packet probe p (xm_probe_ip_store probe xstore (at_offset p (data_link_size ctx))))))))"

lemma result_record_buf:
  assumes "recv_ctx ctx" "pk_buf x = []" "pk_buf y = []"
  shows "result_record pack ctx x p = result_record pack ctx y p"
proof -
  obtain probe where probe: "probe \<in> set probes" "the_probe ctx = Some probe" using assms(1) by (auto simp: recv_ctx_def)
  obtain cs where "\<forall>xstore. pk_buf (probe_process_packet probe p
      (xm_probe_ip_store probe xstore (at_offset p (data_link_size ctx)))) = pk_buf xstore @ cs \<and> complete 1 cs"
    using result_calls [OF probe(1)] by blast
  then show ?thesis using probe(2) assms(2,3) by (simp add: result_record_def Let_def)
qed

definition recv_rel :: "u64 \<Rightarrow> xm_recv_task \<Rightarrow> xm_shm_entry_record list list \<Rightarrow> xm_shm_entry_record list option \<Rightarrow> bool" where
  "recv_rel base task bs cur \<longleftrightarrow>
     writer_rel base (store_shm_fmt (task_xstore task)) (shared_block task) bs cur \<and>
     pk_buf (task_xstore task) = [] \<and> pbm_inv (seen task)"

definition task_frame :: "xm_recv_task \<Rightarrow> u64 \<times> u64 \<times> u32" where
  "task_frame task = frame (store_shm_fmt (task_xstore task)) (shared_block task)"

lemma recv_store_logs:
  assumes "recv_ctx ctx" "recv_rel base task bs cur" "length bs + 1 < ring_count (ring_of base (shared_block task))"
    "553 \<le> unat (fmt_entry_size (store_shm_fmt (task_xstore task)))" "\<forall>c. length (pack c) \<le> call_size c"
  shows "\<exists>xs w bs' cur'. recv_store pack reader ctx timems p n task = Inr (task\<lparr>task_xstore := xs, shared_block := w\<rparr>) \<and>
    recv_rel base (task\<lparr>task_xstore := xs, shared_block := w\<rparr>) bs' cur' \<and>
    concat bs' @ cur_list cur' = concat bs @ cur_list cur @ [result_record pack ctx (task_xstore task) p] \<and>
    length bs' \<le> length bs + 2 \<and> task_frame (task\<lparr>task_xstore := xs, shared_block := w\<rparr>) = task_frame task \<and>
    (cur = None \<longrightarrow> timems div 1000 - shm_last_time (task_xstore task) \<le> shm_flush_timeout (task_xstore task)
      \<longrightarrow> bs' = bs)"
proof -
  obtain probe where probe: "probe \<in> set probes" "the_probe ctx = Some probe" "\<not> send_ip_pkts ctx"
    using assms(1) by (auto simp: recv_ctx_def)
  let ?x = "probe_process_packet probe p (xm_probe_ip_store probe (task_xstore task) (at_offset p (data_link_size ctx)))"
  have rel: "writer_rel base (store_shm_fmt (task_xstore task)) (shared_block task) bs cur" "pk_buf (task_xstore task) = []"
    "pbm_inv (seen task)" using assms(2) by (simp_all add: recv_rel_def)
  obtain cs where "?x = (task_xstore task)\<lparr>pk_buf := pk_buf (task_xstore task) @ cs\<rparr>" using result_store [OF probe(1)] by blast
  then have fmt: "store_shm_fmt ?x = store_shm_fmt (task_xstore task)" "shm_last_time ?x = shm_last_time (task_xstore task)"
    "shm_flush_timeout ?x = shm_flush_timeout (task_xstore task)" by simp_all
  have size: "length (concat (map pack (pk_buf ?x))) \<le> 512"
    using packed_size [OF assms(5)] result_size [OF probe(1) rel(2)] by (rule order_trans)
  obtain xs w bs' cur' where f: "xm_store_flush pack reader timems ?x (shared_block task) (probe_type probe) = Some (xs, w)"
    "pk_buf xs = []" "writer_rel base (store_shm_fmt xs) w bs' cur'"
    "concat bs' @ cur_list cur' = concat bs @ cur_list cur @ [entry_record_of (probe_type probe) (concat (map pack (pk_buf ?x)))]"
    "length bs' \<le> length bs + 2" "frame (store_shm_fmt xs) w = frame (store_shm_fmt (task_xstore task)) (shared_block task)"
    "cur = None \<longrightarrow> timems div 1000 - shm_last_time (task_xstore task) \<le> shm_flush_timeout (task_xstore task) \<longrightarrow> bs' = bs"
    using store_flush_logs [of base ?x "shared_block task" bs cur pack reader timems "probe_type probe"]
      rel(1) assms(3,4) size fmt by auto
  have "recv_store pack reader ctx timems p n task = Inr (task\<lparr>task_xstore := xs, shared_block := w\<rparr>)"
    using probe f(1) by (simp add: recv_store_def Let_def)
  moreover have "entry_record_of (probe_type probe) (concat (map pack (pk_buf ?x))) = result_record pack ctx (task_xstore task) p"
    using probe(2) by (simp add: result_record_def Let_def)
  ultimately show ?thesis
    using f rel(3) by (intro exI [of _ xs] exI [of _ w] exI [of _ bs'] exI [of _ cur']) (simp add: recv_rel_def task_frame_def)
qed

section \<open>Handling a packet\<close>

definition more_frag :: "xm_context \<Rightarrow> packet \<Rightarrow> bool" where
  "more_frag ctx p \<longleftrightarrow> load16 (at_offset p (data_link_size ctx)) 6 AND IP_MF \<noteq> 0"

text \<open>A packet that is not accepted changes a counter at most.\<close>

lemma handle_reject:
  assumes "recv_ctx ctx" "accepted ctx (static_of ctx st) (task_validate task) (p, n) = None"
  shows "\<exists>c vs. recv_packet_handle pack reader ctx (static_of ctx st) sc t p n task =
      Inr (task\<lparr>xrecv := c, task_validate := vs\<rparr>) \<and> norm vs = norm (task_validate task) \<and>
    (c = xrecv task \<or> c = (xrecv task)\<lparr>validation_failed := validation_failed (xrecv task) + 1\<rparr>)"
proof (cases "unat n < sizeof_ip + data_link_size ctx")
  case True
  then show ?thesis
    by (intro exI [of _ "xrecv task"] exI [of _ "task_validate task"]) (simp add: recv_packet_handle_def)
next
  case False
  have s: "\<not> send_ip_pkts ctx" using assms(1) by (simp add: recv_ctx_def)
  obtain ok sip v vs' where r: "(let ip = at_offset p (data_link_size ctx);
       (bytes, vs) = xm_validate_gen (load32 ip 16) (load32 ip 12) (task_validate task)
     in probe_validate_packet (the (the_probe ctx)) (static_of ctx st) ip (ucast (n - of_nat sizeof_ether_header))
          (load32 ip 12) (validation_words bytes) vs) = Some (ok, sip, v, vs')"
     "norm vs' = norm (task_validate task)"
     "accepted ctx (static_of ctx st) (task_validate task) (p, n) = (if ok then Some (ntohl sip) else None)"
    using verdict_split [OF assms(1) False] by blast
  then have "\<not> ok" using assms(2) by (simp split: if_splits)
  then have "recv_packet_handle pack reader ctx (static_of ctx st) sc t p n task =
      Inr (task\<lparr>xrecv := (xrecv task)\<lparr>validation_failed := validation_failed (xrecv task) + 1\<rparr>, task_validate := vs'\<rparr>)"
    using r(1) s False by (simp add: recv_packet_handle_def Let_def case_prod_beta)
  then show ?thesis using r(2) by blast
qed

text \<open>An accepted one is counted, and stored if its address is new.\<close>

lemma handle_accept:
  assumes "recv_ctx ctx" "accepted ctx (static_of ctx st) (task_validate task) (p, n) = Some a"
  shows "\<exists>vs. norm vs = norm (task_validate task) \<and>
    (let c = recv_count (more_frag ctx p) (xm_pbm_check (seen task) a) sc
           ((xrecv task)\<lparr>validation_passed := validation_passed (xrecv task) + 1\<rparr>)
     in recv_packet_handle pack reader ctx (static_of ctx st) sc t p n task =
       (if xm_pbm_check (seen task) a then Inr (task\<lparr>xrecv := c, task_validate := vs\<rparr>)
        else recv_store pack reader ctx t p n (task\<lparr>task_validate := vs, seen := xm_pbm_set (seen task) a,
          xrecv := c\<lparr>filter_success := filter_success c + 1\<rparr>\<rparr>)))"
proof -
  have s: "\<not> send_ip_pkts ctx" "filter_duplicates ctx" using assms(1) by (simp_all add: recv_ctx_def)
  have len: "\<not> unat n < sizeof_ip + data_link_size ctx"
    using assms(2) by (auto simp: accepted_def Let_def)
  obtain ok sip v vs' where r: "(let ip = at_offset p (data_link_size ctx);
       (bytes, vs) = xm_validate_gen (load32 ip 16) (load32 ip 12) (task_validate task)
     in probe_validate_packet (the (the_probe ctx)) (static_of ctx st) ip (ucast (n - of_nat sizeof_ether_header))
          (load32 ip 12) (validation_words bytes) vs) = Some (ok, sip, v, vs')"
     "norm vs' = norm (task_validate task)"
     "accepted ctx (static_of ctx st) (task_validate task) (p, n) = (if ok then Some (ntohl sip) else None)"
    using verdict_split [OF assms(1) len] by blast
  then have ok: "ok" "a = ntohl sip" using assms(2) by (simp_all split: if_splits)
  show ?thesis
    using r(1,2) s len ok
    by (intro exI [of _ vs']) (simp add: recv_packet_handle_def Let_def case_prod_beta more_frag_def)
qed

section \<open>A sequence of packets\<close>

text \<open>The packets that are reported: accepted for an address that is not seen yet.\<close>

fun reports :: "xm_context \<Rightarrow> probe_static \<Rightarrow> validate_state \<Rightarrow> pbm \<Rightarrow> (u64 \<times> packet \<times> u64) list \<Rightarrow> (u32 \<times> packet) list" where
  "reports ctx st vs s [] = []"
| "reports ctx st vs s ((t, p, n) # ps) =
     (case accepted ctx st vs (p, n) of
        None \<Rightarrow> reports ctx st vs s ps
      | Some a \<Rightarrow> if xm_pbm_check s a then reports ctx st vs s ps
                  else (a, p) # reports ctx st vs (xm_pbm_set s a) ps)"

definition addresses :: "xm_context \<Rightarrow> probe_static \<Rightarrow> validate_state \<Rightarrow> (u64 \<times> packet \<times> u64) list \<Rightarrow> u32 list" where
  "addresses ctx st vs ps = List.map_filter (accepted ctx st vs \<circ> snd) ps"

lemma addresses_simps [simp]:
  "addresses ctx st vs [] = []"
  "addresses ctx st vs (tp # ps) = (case accepted ctx st vs (snd tp) of None \<Rightarrow> addresses ctx st vs ps
     | Some a \<Rightarrow> a # addresses ctx st vs ps)"
  by (simp_all add: addresses_def List.map_filter_def split: option.split)

lemma reports_addresses: "map fst (reports ctx st vs s ps) = pbm.firsts s (addresses ctx st vs ps)"
  by (induction ctx st vs s ps rule: reports.induct) (auto split: option.split)

lemma reports_norm:
  assumes "norm vs = norm vs'"
  shows "reports ctx st vs s ps = reports ctx st vs' s ps" and "addresses ctx st vs ps = addresses ctx st vs' ps"
proof -
  note acc = accepted_norm [OF assms]
  have "reports ctx st vs s ps = reports ctx st vs' s ps" for s
    by (induction ps arbitrary: s) (auto simp: acc [of ctx st] split: option.split)
  then show "reports ctx st vs s ps = reports ctx st vs' s ps" .
  show "addresses ctx st vs ps = addresses ctx st vs' ps" by (simp add: addresses_def acc [of ctx st])
qed

text \<open>The counters that a reader of the statistics looks at.\<close>

definition tally :: "recv_counters \<Rightarrow> u32 \<times> u32 \<times> u32 \<times> u32" where
  "tally c = (validation_passed c, success_total c, success_unique c, filter_success c)"

definition tally_add :: "nat \<Rightarrow> nat \<Rightarrow> u32 \<times> u32 \<times> u32 \<times> u32 \<Rightarrow> u32 \<times> u32 \<times> u32 \<times> u32" where
  "tally_add n k = (\<lambda>(p, t, u, f). (p + of_nat n, t + of_nat n, u + of_nat k, f + of_nat k))"

lemma tally_count:
  "tally (recv_count fr False sc (c\<lparr>validation_passed := validation_passed c + 1\<rparr>)
     \<lparr>filter_success := filter_success (recv_count fr False sc (c\<lparr>validation_passed := validation_passed c + 1\<rparr>)) + 1\<rparr>) =
   tally_add 1 1 (tally c)"
  "tally (recv_count fr True sc (c\<lparr>validation_passed := validation_passed c + 1\<rparr>)) = tally_add 1 0 (tally c)"
  "tally (c\<lparr>validation_failed := v\<rparr>) = tally c"
  by (simp_all add: tally_def tally_add_def recv_count_def Let_def)

lemma tally_add_add: "tally_add n k (tally_add n' k' x) = tally_add (n' + n) (k' + k) x"
  by (simp add: tally_add_def split: prod.split)

lemma tally_add_0 [simp]: "tally_add 0 0 x = x"
  by (simp add: tally_add_def split: prod.split)

text \<open>The run over a sequence of packets, while the ring has room for two blocks for each.\<close>

lemma receive_reports:
  assumes "recv_ctx ctx" "\<forall>c. length (pack c) \<le> call_size c"
  shows "recv_rel base task bs cur \<Longrightarrow> length bs + 2 * length ps < ring_count (ring_of base (shared_block task)) \<Longrightarrow>
    553 \<le> unat (fmt_entry_size (store_shm_fmt (task_xstore task))) \<Longrightarrow>
    \<exists>task' bs' cur'. receive_packets pack reader ctx (static_of ctx st) sc ps task = Inr task' \<and>
      recv_rel base task' bs' cur' \<and>
      concat bs' @ cur_list cur' = concat bs @ cur_list cur @
        map (\<lambda>(a, p). result_record pack ctx (task_xstore task) p)
          (reports ctx (static_of ctx st) (task_validate task) (seen task) ps) \<and>
      tally (xrecv task') = tally_add (length (addresses ctx (static_of ctx st) (task_validate task) ps))
        (length (reports ctx (static_of ctx st) (task_validate task) (seen task) ps)) (tally (xrecv task))"
proof (induction ps arbitrary: task bs cur)
  case Nil
  then show ?case by (intro exI [of _ task] exI [of _ bs] exI [of _ cur]) simp
next
  case (Cons tp ps)
  obtain t p n where tp: "tp = (t, p, n)" by (cases tp)
  note rel = Cons.prems(1)
  show ?case
  proof (cases "accepted ctx (static_of ctx st) (task_validate task) (p, n)")
    case None
    obtain c vs where h: "recv_packet_handle pack reader ctx (static_of ctx st) sc t p n task =
        Inr (task\<lparr>xrecv := c, task_validate := vs\<rparr>)" "norm vs = norm (task_validate task)"
      "c = xrecv task \<or> c = (xrecv task)\<lparr>validation_failed := validation_failed (xrecv task) + 1\<rparr>"
      using handle_reject [OF assms(1) None] by blast
    let ?t = "task\<lparr>xrecv := c, task_validate := vs\<rparr>"
    have "recv_rel base ?t bs cur" using rel by (simp add: recv_rel_def)
    moreover have "tally c = tally (xrecv task)" using h(3) tally_count(3) by auto
    ultimately show ?thesis
      using Cons.IH [of ?t bs cur] Cons.prems(2,3) h(1) tp None by (simp add: reports_norm [OF h(2)])
  next
    case (Some a)
    define c where c: "c = recv_count (more_frag ctx p) (xm_pbm_check (seen task) a) sc
        ((xrecv task)\<lparr>validation_passed := validation_passed (xrecv task) + 1\<rparr>)"
    obtain vs where n: "norm vs = norm (task_validate task)"
      and h: "recv_packet_handle pack reader ctx (static_of ctx st) sc t p n task =
       (if xm_pbm_check (seen task) a then Inr (task\<lparr>xrecv := c, task_validate := vs\<rparr>)
        else recv_store pack reader ctx t p n (task\<lparr>task_validate := vs, seen := xm_pbm_set (seen task) a,
          xrecv := c\<lparr>filter_success := filter_success c + 1\<rparr>\<rparr>))"
      using handle_accept [OF assms(1) Some, where pack = pack and reader = reader and sc = sc and t = t,
        unfolded Let_def, folded c] by blast
    note norms = reports_norm [OF n]
    show ?thesis
    proof (cases "xm_pbm_check (seen task) a")
      case True
      let ?t = "task\<lparr>xrecv := c, task_validate := vs\<rparr>"
      have "recv_rel base ?t bs cur" using rel by (simp add: recv_rel_def)
      moreover have "tally c = tally_add 1 0 (tally (xrecv task))" using c True tally_count(2) by simp
      ultimately show ?thesis
        using Cons.IH [of ?t bs cur] Cons.prems(2,3) h True tp Some by (simp add: norms tally_add_add)
    next
      case False
      let ?t = "task\<lparr>task_validate := vs, seen := xm_pbm_set (seen task) a,
          xrecv := c\<lparr>filter_success := filter_success c + 1\<rparr>\<rparr>"
      have r: "recv_rel base ?t bs cur" using rel by (simp add: recv_rel_def pbm.inv_ins)
      obtain xs w bs1 cur1 where
        f: "recv_store pack reader ctx t p n ?t = Inr (?t\<lparr>task_xstore := xs, shared_block := w\<rparr>)"
          "recv_rel base (?t\<lparr>task_xstore := xs, shared_block := w\<rparr>) bs1 cur1"
          "concat bs1 @ cur_list cur1 = concat bs @ cur_list cur @ [result_record pack ctx (task_xstore task) p]"
          "length bs1 \<le> length bs + 2" "task_frame (?t\<lparr>task_xstore := xs, shared_block := w\<rparr>) = task_frame ?t"
        using recv_store_logs [OF assms(1) r _ _ assms(2), of reader t p n] Cons.prems(2,3) by auto
      let ?t1 = "?t\<lparr>task_xstore := xs, shared_block := w\<rparr>"
      have "frame (store_shm_fmt xs) w = frame (store_shm_fmt (task_xstore task)) (shared_block task)"
        using f(5) by (simp add: task_frame_def)
      note geo = frame_ring [OF this, of base]
      have buf: "pk_buf xs = []" "pk_buf (task_xstore task) = []" using f(2) rel by (simp_all add: recv_rel_def)
      have same: "result_record pack ctx xs = result_record pack ctx (task_xstore task)"
        using result_record_buf [OF assms(1) buf] by blast
      have ta: "tally (c\<lparr>filter_success := filter_success c + 1\<rparr>) = tally_add 1 1 (tally (xrecv task))"
        using c False tally_count(1) by simp
      obtain task' bs' cur' where "receive_packets pack reader ctx (static_of ctx st) sc ps ?t1 = Inr task'"
        "recv_rel base task' bs' cur'"
        "concat bs' @ cur_list cur' = concat bs1 @ cur_list cur1 @ map (\<lambda>(a, p). result_record pack ctx (task_xstore task) p)
          (reports ctx (static_of ctx st) (task_validate task) (xm_pbm_set (seen task) a) ps)"
        "tally (xrecv task') = tally_add (length (addresses ctx (static_of ctx st) (task_validate task) ps))
          (length (reports ctx (static_of ctx st) (task_validate task) (xm_pbm_set (seen task) a) ps))
          (tally (c\<lparr>filter_success := filter_success c + 1\<rparr>))"
        using Cons.IH [OF f(2)] Cons.prems(2,3) f(4) geo same norms by auto
      then show ?thesis
        using h False tp Some f(1,3) ta
        by (intro exI [of _ task'] exI [of _ bs'] exI [of _ cur']) (simp add: tally_add_add flip: append_assoc)
    qed
  qed
qed

section \<open>The turns of the loop\<close>

text \<open>\<open>recv_turns n\<close>: the packets of the first \<open>n\<close> batches, whether the loop would have ended or
  not; \<open>recv_stop\<close>: the tests at the end of a turn.\<close>

fun recv_turns ::
  "(msgpack_call \<Rightarrow> u8 list) \<Rightarrow> (shm_world \<Rightarrow> shm_world) \<Rightarrow> xm_context \<Rightarrow> probe_static
   \<Rightarrow> (nat \<Rightarrow> recv_batch) \<Rightarrow> nat \<Rightarrow> xm_recv_task \<Rightarrow> recv_error + xm_recv_task" where
  "recv_turns pack reader ctx st driver 0 task = Inr task"
| "recv_turns pack reader ctx st driver (Suc n) task =
     (case recv_turns pack reader ctx st driver n task of
        Inl e \<Rightarrow> Inl e
      | Inr task \<Rightarrow> receive_packets pack reader ctx st (batch_complete (driver n)) (batch_packets (driver n)) task)"

definition result_limit :: "xm_context \<Rightarrow> u32" where
  "result_limit ctx = (if max_results ctx = 0 then - 1 else max_results ctx)"

definition recv_stop :: "xm_context \<Rightarrow> recv_batch \<Rightarrow> xm_recv_task \<Rightarrow> bool" where
  "recv_stop ctx batch task \<longleftrightarrow> filter_success (xrecv task) \<ge> result_limit ctx \<or> batch_complete batch \<and> batch_cooled batch"

text \<open>The limit on results does not take part in handling a packet.\<close>

lemma handle_max_results:
  "recv_packet_handle pack reader (ctx\<lparr>max_results := m\<rparr>) st sc t p n task = recv_packet_handle pack reader ctx st sc t p n task"
proof -
  have same: "data_link_size (ctx\<lparr>max_results := m\<rparr>) = data_link_size ctx" "the_probe (ctx\<lparr>max_results := m\<rparr>) = the_probe ctx"
    "send_ip_pkts (ctx\<lparr>max_results := m\<rparr>) = send_ip_pkts ctx"
    "filter_duplicates (ctx\<lparr>max_results := m\<rparr>) = filter_duplicates ctx" by simp_all
  show ?thesis unfolding recv_packet_handle_def recv_store_def same by (rule refl)
qed

lemma receive_max_results:
  "receive_packets pack reader (ctx\<lparr>max_results := m\<rparr>) st sc ps task = receive_packets pack reader ctx st sc ps task"
proof (induction ps arbitrary: task)
  case (Cons tp ps)
  then show ?case by (cases tp) (simp add: handle_max_results split: sum.split)
qed simp

lemma turns_max_results:
  "recv_turns pack reader (ctx\<lparr>max_results := m\<rparr>) st driver n task = recv_turns pack reader ctx st driver n task"
  by (induction n) (simp_all add: receive_max_results split: sum.split)

text \<open>A turn that goes on.\<close>

definition goes_on ::
  "(msgpack_call \<Rightarrow> u8 list) \<Rightarrow> (shm_world \<Rightarrow> shm_world) \<Rightarrow> xm_context \<Rightarrow> probe_static
   \<Rightarrow> (nat \<Rightarrow> recv_batch) \<Rightarrow> xm_recv_task \<Rightarrow> nat \<Rightarrow> bool" where
  "goes_on pack reader ctx st driver task n \<longleftrightarrow>
     (\<exists>t. recv_turns pack reader ctx st driver (Suc n) task = Inr t \<and> \<not> recv_stop ctx (driver n) t)"

lemma loop_turn:
  assumes "recv_turns pack reader ctx st driver n task = Inr t" "max_results ctx \<noteq> 0"
  shows "recv_loop pack reader ctx st driver n t =
    (case recv_turns pack reader ctx st driver (Suc n) task of
       Inl e \<Rightarrow> Some (Inl e)
     | Inr t \<Rightarrow> if recv_stop ctx (driver n) t then Some (Inr t) else recv_loop pack reader ctx st driver (Suc n) t)"
  using assms by (subst recv_loop.simps) (auto simp: recv_stop_def result_limit_def split: sum.split)

text \<open>A loop that ends has a turn that does not go on, and then it ends with the first of these.\<close>

lemma loop_ends:
  "recv_loop pack reader ctx st driver i t = Some r \<Longrightarrow> max_results ctx \<noteq> 0 \<Longrightarrow>
   recv_turns pack reader ctx st driver i task = Inr t \<Longrightarrow> \<exists>n. \<not> goes_on pack reader ctx st driver task n"
proof -
  assume r: "recv_loop pack reader ctx st driver i t = Some r"
  have "max_results ctx \<noteq> 0 \<longrightarrow> (\<forall>task. recv_turns pack reader ctx st driver i task = Inr t \<longrightarrow>
      (\<exists>n. \<not> goes_on pack reader ctx st driver task n))"
  proof (rule recv_loop.raw_induct [OF _ r, where P = "\<lambda>pack reader ctx st driver i t r. max_results ctx \<noteq> 0 \<longrightarrow>
      (\<forall>task. recv_turns pack reader ctx st driver i task = Inr t \<longrightarrow> (\<exists>n. \<not> goes_on pack reader ctx st driver task n))"],
      intro impI allI)
    fix loop pack reader ctx st driver i t r task
    assume IH: "\<And>pack reader ctx st driver i t r. loop pack reader ctx st driver i t = Some r \<Longrightarrow> max_results ctx \<noteq> 0 \<longrightarrow>
        (\<forall>task. recv_turns pack reader ctx st driver i task = Inr t \<longrightarrow> (\<exists>n. \<not> goes_on pack reader ctx st driver task n))"
      and b: "(case receive_packets pack reader ctx st (batch_complete (driver i)) (batch_packets (driver i)) t of
        Inl e \<Rightarrow> Some (Inl e)
      | Inr task \<Rightarrow>
          if max_results ctx \<noteq> 0 \<and> filter_success (xrecv task) \<ge> max_results ctx then Some (Inr task)
          else if batch_complete (driver i) \<and> batch_cooled (driver i) then Some (Inr task)
          else loop pack reader ctx st driver (Suc i) task) = Some r"
      and m: "max_results ctx \<noteq> 0" and t: "recv_turns pack reader ctx st driver i task = Inr t"
    show "\<exists>n. \<not> goes_on pack reader ctx st driver task n"
    proof (cases "goes_on pack reader ctx st driver task i")
      case True
      then obtain t' where t': "recv_turns pack reader ctx st driver (Suc i) task = Inr t'" "\<not> recv_stop ctx (driver i) t'"
        by (auto simp: goes_on_def)
      then have "loop pack reader ctx st driver (Suc i) t' = Some r"
        using b t m by (auto simp: recv_stop_def result_limit_def split: if_splits)
      then show ?thesis using IH m t'(1) by blast
    qed blast
  qed
  then show "max_results ctx \<noteq> 0 \<Longrightarrow> recv_turns pack reader ctx st driver i task = Inr t \<Longrightarrow> ?thesis" by blast
qed

lemma loop_reaches:
  assumes "\<forall>k < n. goes_on pack reader ctx st driver task k" "max_results ctx \<noteq> 0"
  shows "\<exists>t. recv_turns pack reader ctx st driver n task = Inr t \<and>
    recv_loop pack reader ctx st driver 0 task = recv_loop pack reader ctx st driver n t"
  using assms(1)
proof (induction n)
  case (Suc n)
  then obtain t where t: "recv_turns pack reader ctx st driver n task = Inr t"
    "recv_loop pack reader ctx st driver 0 task = recv_loop pack reader ctx st driver n t"
    by auto
  obtain t' where "recv_turns pack reader ctx st driver (Suc n) task = Inr t'" "\<not> recv_stop ctx (driver n) t'"
    using Suc.prems by (auto simp: goes_on_def)
  then show ?case using t(2) loop_turn [OF t(1) assms(2)] by simp
qed simp

lemma run_limit:
  "recv_task_run pack reader ctx st driver task = recv_loop pack reader (ctx\<lparr>max_results := result_limit ctx\<rparr>) st driver 0 task"
  "goes_on pack reader (ctx\<lparr>max_results := result_limit ctx\<rparr>) st driver task n = goes_on pack reader ctx st driver task n"
proof -
  have "ctx\<lparr>max_results := max_results ctx\<rparr> = ctx" by simp
  then show "recv_task_run pack reader ctx st driver task = recv_loop pack reader (ctx\<lparr>max_results := result_limit ctx\<rparr>) st driver 0 task"
    by (simp add: recv_task_run_def result_limit_def)
  show "goes_on pack reader (ctx\<lparr>max_results := result_limit ctx\<rparr>) st driver task n = goes_on pack reader ctx st driver task n"
    by (simp add: goes_on_def turns_max_results recv_stop_def result_limit_def del: recv_turns.simps)
qed

lemma run_first_stop:
  assumes "\<forall>k < n. goes_on pack reader ctx st driver task k" "\<not> goes_on pack reader ctx st driver task n"
  shows "recv_task_run pack reader ctx st driver task = Some (recv_turns pack reader ctx st driver (Suc n) task)"
proof -
  let ?c = "ctx\<lparr>max_results := result_limit ctx\<rparr>"
  have m: "max_results ?c \<noteq> 0" by (simp add: result_limit_def)
  have "\<forall>k < n. goes_on pack reader ?c st driver task k" using assms(1) run_limit(2) by blast
  from loop_reaches [OF this m] obtain t where t: "recv_turns pack reader ?c st driver n task = Inr t"
    "recv_loop pack reader ?c st driver 0 task = recv_loop pack reader ?c st driver n t" by blast
  have "\<not> goes_on pack reader ?c st driver task n" using assms(2) run_limit(2) by blast
  then have "recv_loop pack reader ?c st driver n t = Some (recv_turns pack reader ?c st driver (Suc n) task)"
    unfolding loop_turn [OF t(1) m] goes_on_def by (auto split: sum.split simp del: recv_turns.simps)
  then show ?thesis using t(2) run_limit(1) turns_max_results by metis
qed

lemma run_never:
  assumes "\<forall>n. goes_on pack reader ctx st driver task n"
  shows "recv_task_run pack reader ctx st driver task = None"
proof (rule ccontr)
  let ?c = "ctx\<lparr>max_results := result_limit ctx\<rparr>"
  assume "recv_task_run pack reader ctx st driver task \<noteq> None"
  then obtain r where "recv_loop pack reader ?c st driver 0 task = Some r" using run_limit(1) by fastforce
  moreover have "max_results ?c \<noteq> 0" "recv_turns pack reader ?c st driver 0 task = Inr task"
    by (simp_all add: result_limit_def)
  ultimately show False using loop_ends assms run_limit(2) by blast
qed

lemma run_ends_at:
  assumes "recv_task_run pack reader ctx st driver task = Some r"
  shows "\<exists>n. (\<forall>k < n. goes_on pack reader ctx st driver task k) \<and> \<not> goes_on pack reader ctx st driver task n \<and>
    r = recv_turns pack reader ctx st driver (Suc n) task"
proof -
  define n where "n = (LEAST n. \<not> goes_on pack reader ctx st driver task n)"
  have "\<not> (\<forall>n. goes_on pack reader ctx st driver task n)" using assms run_never by fastforce
  then have "\<not> goes_on pack reader ctx st driver task n" unfolding n_def by (metis LeastI)
  moreover have "\<forall>k < n. goes_on pack reader ctx st driver task k" unfolding n_def using not_less_Least by blast
  ultimately show ?thesis using run_first_stop [of n pack reader ctx st driver task] assms by auto
qed

lemma run_ended:
  assumes "\<not> goes_on pack reader ctx st driver task n"
  shows "recv_task_run pack reader ctx st driver task \<noteq> None"
proof -
  define k where "k = (LEAST n. \<not> goes_on pack reader ctx st driver task n)"
  have "\<not> goes_on pack reader ctx st driver task k" using assms unfolding k_def by (rule LeastI)
  moreover have "\<forall>j < k. goes_on pack reader ctx st driver task j" unfolding k_def using not_less_Least by blast
  ultimately show ?thesis using run_first_stop [of k pack reader ctx st driver task] by simp
qed

section \<open>Packets without a report\<close>

text \<open>Packets that are refused or come from an address that has been seen touch counters only.\<close>

definition same_log :: "xm_recv_task \<Rightarrow> xm_recv_task \<Rightarrow> bool" where
  "same_log task task' \<longleftrightarrow> seen task' = seen task \<and> task_xstore task' = task_xstore task \<and>
     shared_block task' = shared_block task \<and> norm (task_validate task') = norm (task_validate task) \<and>
     filter_success (xrecv task') = filter_success (xrecv task)"

lemma same_log_trans: "same_log t t' \<Longrightarrow> same_log t' t'' \<Longrightarrow> same_log t t''"
  by (simp add: same_log_def)

lemma same_log_rel: "same_log t t' \<Longrightarrow> recv_rel base t' bs cur = recv_rel base t bs cur"
  by (simp add: same_log_def recv_rel_def)

lemma same_log_reports: "same_log t t' \<Longrightarrow> reports ctx st (task_validate t') (seen t') ps = reports ctx st (task_validate t) (seen t) ps"
  using reports_norm(1) [of "task_validate t'" "task_validate t"] by (simp add: same_log_def)

lemma reports_append:
  "reports ctx st vs s (xs @ ys) = [] \<longleftrightarrow> reports ctx st vs s xs = [] \<and> reports ctx st vs s ys = []"
  "reports ctx st vs s xs = [] \<Longrightarrow> reports ctx st vs s (xs @ ys) = reports ctx st vs s ys"
  by (induction ctx st vs s xs rule: reports.induct) (auto split: option.splits)

lemma handle_quiet:
  assumes "recv_ctx ctx" "reports ctx (static_of ctx st) (task_validate task) (seen task) [(t, p, n)] = []"
  shows "\<exists>task'. recv_packet_handle pack reader ctx (static_of ctx st) sc t p n task = Inr task' \<and> same_log task task'"
proof (cases "accepted ctx (static_of ctx st) (task_validate task) (p, n)")
  case None
  then show ?thesis
    using handle_reject [OF assms(1) None, of pack reader sc t] by (auto simp: same_log_def)
next
  case (Some a)
  then show ?thesis
    using assms(2) handle_accept [OF assms(1) Some, where pack = pack and reader = reader and sc = sc and t = t]
    by (fastforce simp: same_log_def Let_def recv_count_def split: if_splits)
qed

lemma receive_quiet:
  assumes "recv_ctx ctx"
  shows "reports ctx (static_of ctx st) (task_validate task) (seen task) ps = [] \<Longrightarrow>
    \<exists>task'. receive_packets pack reader ctx (static_of ctx st) sc ps task = Inr task' \<and> same_log task task'"
proof (induction ps arbitrary: task)
  case Nil
  then show ?case by (simp add: same_log_def)
next
  case (Cons tp ps)
  obtain t p n where tp: "tp = (t, p, n)" by (cases tp)
  have none: "reports ctx (static_of ctx st) (task_validate task) (seen task) [(t, p, n)] = []"
    "reports ctx (static_of ctx st) (task_validate task) (seen task) ps = []"
    using Cons.prems reports_append(1) [of ctx "static_of ctx st" "task_validate task" "seen task" "[tp]" ps] tp by auto
  obtain t1 where t1: "recv_packet_handle pack reader ctx (static_of ctx st) sc t p n task = Inr t1" "same_log task t1"
    using handle_quiet [OF assms none(1)] by blast
  obtain t2 where "receive_packets pack reader ctx (static_of ctx st) sc ps t1 = Inr t2" "same_log t1 t2"
    using Cons.IH [of t1] none(2) same_log_reports [OF t1(2)] by auto
  then show ?case using t1 tp same_log_trans by auto
qed

lemma receive_append:
  "receive_packets pack reader ctx st sc (ps @ qs) task =
     (case receive_packets pack reader ctx st sc ps task of
        Inl e \<Rightarrow> Inl e | Inr t \<Rightarrow> receive_packets pack reader ctx st sc qs t)"
  by (induction pack reader ctx st sc ps task rule: receive_packets.induct) (auto split: sum.split)

text \<open>The packets of some turns.\<close>

definition turn_packets :: "(nat \<Rightarrow> recv_batch) \<Rightarrow> nat \<Rightarrow> nat \<Rightarrow> (u64 \<times> packet \<times> u64) list" where
  "turn_packets driver m n = concat (map (batch_packets \<circ> driver) [m..<n])"

lemma turn_packets_simps:
  "turn_packets driver m m = []"
  "m \<le> n \<Longrightarrow> turn_packets driver m (Suc n) = turn_packets driver m n @ batch_packets (driver n)"
  "m \<le> k \<Longrightarrow> k \<le> n \<Longrightarrow> turn_packets driver m n = turn_packets driver m k @ turn_packets driver k n"
proof -
  assume "m \<le> k" "k \<le> n"
  then have "[m..<n] = [m..<k] @ [k..<n]" using upt_add_eq_append [of m k "n - k"] by simp
  then show "turn_packets driver m n = turn_packets driver m k @ turn_packets driver k n" by (simp add: turn_packets_def)
qed (simp_all add: turn_packets_def)

lemma turns_quiet:
  assumes "recv_ctx ctx" "recv_turns pack reader ctx (static_of ctx st) driver m task = Inr t0"
  shows "reports ctx (static_of ctx st) (task_validate t0) (seen t0) (turn_packets driver m (m + j)) = [] \<Longrightarrow>
    \<exists>t'. recv_turns pack reader ctx (static_of ctx st) driver (m + j) task = Inr t' \<and> same_log t0 t'"
proof (induction j)
  case 0
  then show ?case using assms(2) by (simp add: same_log_def)
next
  case (Suc j)
  then have none: "reports ctx (static_of ctx st) (task_validate t0) (seen t0) (turn_packets driver m (m + j)) = []"
    "reports ctx (static_of ctx st) (task_validate t0) (seen t0) (batch_packets (driver (m + j))) = []"
    by (simp_all add: turn_packets_simps(2) reports_append(1))
  obtain t1 where t1: "recv_turns pack reader ctx (static_of ctx st) driver (m + j) task = Inr t1" "same_log t0 t1"
    using Suc.IH [OF none(1)] by blast
  obtain t2 where "receive_packets pack reader ctx (static_of ctx st) (batch_complete (driver (m + j)))
      (batch_packets (driver (m + j))) t1 = Inr t2" "same_log t1 t2"
    using receive_quiet [OF assms(1)] none(2) same_log_reports [OF t1(2)] by metis
  then show ?case using t1 same_log_trans by auto
qed

text \<open>The first report, to an empty ring without an open entry: nothing is committed.\<close>

lemma handle_first:
  assumes "recv_ctx ctx" "\<forall>c. length (pack c) \<le> call_size c" "recv_rel base task [] None"
    "1 < ring_count (ring_of base (shared_block task))"
    "553 \<le> unat (fmt_entry_size (store_shm_fmt (task_xstore task)))"
    "accepted ctx (static_of ctx st) (task_validate task) (p, n) = Some a" "\<not> xm_pbm_check (seen task) a"
    "t div 1000 - shm_last_time (task_xstore task) \<le> shm_flush_timeout (task_xstore task)"
  shows "\<exists>task'. recv_packet_handle pack reader ctx (static_of ctx st) sc t p n task = Inr task' \<and>
    filter_success (xrecv task') = filter_success (xrecv task) + 1 \<and> seen task' = xm_pbm_set (seen task) a \<and>
    norm (task_validate task') = norm (task_validate task) \<and>
    (\<exists>cur'. recv_rel base task' [] cur' \<and> cur_list cur' = [result_record pack ctx (task_xstore task) p])"
proof -
  define k where "k = recv_count (more_frag ctx p) (xm_pbm_check (seen task) a) sc
      ((xrecv task)\<lparr>validation_passed := validation_passed (xrecv task) + 1\<rparr>)"
  obtain vs where vs: "norm vs = norm (task_validate task)"
    and h: "recv_packet_handle pack reader ctx (static_of ctx st) sc t p n task =
      recv_store pack reader ctx t p n (task\<lparr>task_validate := vs, seen := xm_pbm_set (seen task) a,
          xrecv := k\<lparr>filter_success := filter_success k + 1\<rparr>\<rparr>)"
    using handle_accept [OF assms(1,6), where pack = pack and reader = reader and sc = sc and t = t,
        unfolded Let_def, folded k_def] assms(7) by auto
  let ?t = "task\<lparr>task_validate := vs, seen := xm_pbm_set (seen task) a, xrecv := k\<lparr>filter_success := filter_success k + 1\<rparr>\<rparr>"
  have r: "recv_rel base ?t [] None" using assms(3) by (simp add: recv_rel_def pbm.inv_ins)
  obtain xs w cur' where f: "recv_store pack reader ctx t p n ?t = Inr (?t\<lparr>task_xstore := xs, shared_block := w\<rparr>)"
    "recv_rel base (?t\<lparr>task_xstore := xs, shared_block := w\<rparr>) [] cur'"
    "cur_list cur' = [result_record pack ctx (task_xstore task) p]"
    using recv_store_logs [OF assms(1) r _ _ assms(2), of reader t p n] assms(4,5,8) by auto
  have "filter_success k = filter_success (xrecv task)" by (simp add: k_def recv_count_def Let_def)
  then show ?thesis using h f vs by (intro exI [of _ "?t\<lparr>task_xstore := xs, shared_block := w\<rparr>"]) auto
qed

text \<open>The turns of a run whose only report is that of one packet of turn \<open>k\<close>.\<close>

lemma turns_one_report:
  assumes "recv_ctx ctx" "\<forall>c. length (pack c) \<le> call_size c" "recv_rel base task [] None"
    "1 < ring_count (ring_of base (shared_block task))"
    "553 \<le> unat (fmt_entry_size (store_shm_fmt (task_xstore task)))"
    "batch_packets (driver k) = ps @ (t, p, n) # qs"
    "reports ctx (static_of ctx st) (task_validate task) (seen task) (turn_packets driver 0 k @ ps) = []"
    "accepted ctx (static_of ctx st) (task_validate task) (p, n) = Some a" "\<not> xm_pbm_check (seen task) a"
    "t div 1000 - shm_last_time (task_xstore task) \<le> shm_flush_timeout (task_xstore task)"
    "\<forall>m. length (reports ctx (static_of ctx st) (task_validate task) (seen task) (turn_packets driver 0 m)) \<le> 1"
  shows "m \<le> k \<Longrightarrow> \<exists>t'. recv_turns pack reader ctx (static_of ctx st) driver m task = Inr t' \<and> same_log task t'"
    and "k < m \<Longrightarrow> \<exists>t' cur'. recv_turns pack reader ctx (static_of ctx st) driver m task = Inr t' \<and>
      filter_success (xrecv t') = filter_success (xrecv task) + 1 \<and>
      recv_rel base t' [] cur' \<and> cur_list cur' = [result_record pack ctx (task_xstore task) p]"
proof -
  let ?st = "static_of ctx st"
  let ?none = "\<lambda>t ps. reports ctx ?st (task_validate t) (seen t) ps = []"
  have zero: "recv_turns pack reader ctx ?st driver 0 task = Inr task" by simp
  have before: "\<exists>t'. recv_turns pack reader ctx ?st driver m task = Inr t' \<and> same_log task t'" if "m \<le> k" for m
  proof -
    have "?none task (turn_packets driver 0 m)"
      using assms(7) turn_packets_simps(3) [of 0 m k driver] that by (simp add: reports_append(1))
    then show ?thesis using turns_quiet [OF assms(1) zero, of m] by simp
  qed
  then show "m \<le> k \<Longrightarrow> \<exists>t'. recv_turns pack reader ctx ?st driver m task = Inr t' \<and> same_log task t'" .
  assume "k < m"
  then obtain j where m: "m = Suc k + j" using less_imp_Suc_add by auto
  obtain t0 where t0: "recv_turns pack reader ctx ?st driver k task = Inr t0" "same_log task t0" using before by blast
  let ?sc = "batch_complete (driver k)"
  have "?none task ps" using assms(7) by (simp add: reports_append(1))
  then obtain t1 where t1: "receive_packets pack reader ctx ?st ?sc ps t0 = Inr t1" "same_log t0 t1"
    using receive_quiet [OF assms(1)] same_log_reports [OF t0(2)] by metis
  have same: "same_log task t1" by (rule same_log_trans [OF t0(2) t1(2)])
  have eqs: "seen t1 = seen task" "task_xstore t1 = task_xstore task" "shared_block t1 = shared_block task"
    "norm (task_validate t1) = norm (task_validate task)" "filter_success (xrecv t1) = filter_success (xrecv task)"
    using same by (simp_all add: same_log_def)
  have acc: "accepted ctx ?st (task_validate t1) (p, n) = Some a" using assms(8) accepted_norm [OF eqs(4)] by simp
  obtain t2 cur' where t2: "recv_packet_handle pack reader ctx ?st ?sc t p n t1 = Inr t2"
    "filter_success (xrecv t2) = filter_success (xrecv task) + 1" "seen t2 = xm_pbm_set (seen task) a"
    "norm (task_validate t2) = norm (task_validate task)"
    "recv_rel base t2 [] cur'" "cur_list cur' = [result_record pack ctx (task_xstore task) p]"
    using handle_first [OF assms(1,2) _ _ _ acc, of base t reader ?sc] assms(3,4,5,9,10) eqs
      same_log_rel [OF same, of base "[]" None] by auto
  have all: "turn_packets driver 0 m = (turn_packets driver 0 k @ ps) @ (t, p, n) # (qs @ turn_packets driver (Suc k) m)"
    using turn_packets_simps(3) [of 0 "Suc k" m driver] turn_packets_simps(2) [of 0 k driver] m assms(6) by simp
  have "reports ctx ?st (task_validate task) (seen task) (turn_packets driver 0 m) =
      (a, p) # reports ctx ?st (task_validate task) (xm_pbm_set (seen task) a) (qs @ turn_packets driver (Suc k) m)"
    unfolding all reports_append(2) [OF assms(7)] using assms(8,9) by simp
  then have "reports ctx ?st (task_validate task) (xm_pbm_set (seen task) a) (qs @ turn_packets driver (Suc k) m) = []"
    using assms(11) [rule_format, of m] by simp
  then have rest: "?none t2 qs" "?none t2 (turn_packets driver (Suc k) m)"
    using reports_norm(1) [OF t2(4)] t2(3) by (simp_all add: reports_append(1))
  obtain t3 where t3: "receive_packets pack reader ctx ?st ?sc qs t2 = Inr t3" "same_log t2 t3"
    using receive_quiet [OF assms(1) rest(1)] by blast
  have "recv_turns pack reader ctx ?st driver (Suc k) task = Inr t3"
    using t0(1) t1(1) t2(1) t3(1) by (simp add: assms(6) receive_append)
  from turns_quiet [OF assms(1) this, of j] rest(2) obtain t4 where
    t4: "recv_turns pack reader ctx ?st driver m task = Inr t4" "same_log t3 t4"
    using same_log_reports [OF t3(2)] m by auto
  have "same_log t2 t4" by (rule same_log_trans [OF t3(2) t4(2)])
  then show "\<exists>t' cur'. recv_turns pack reader ctx ?st driver m task = Inr t' \<and>
      filter_success (xrecv t') = filter_success (xrecv task) + 1 \<and>
      recv_rel base t' [] cur' \<and> cur_list cur' = [result_record pack ctx (task_xstore task) p]"
    using t4(1) t2(2,5,6) same_log_rel [of t2 t4 base "[]" cur'] by (auto simp: same_log_def)
qed

section \<open>Properties\<close>

text \<open>A receiver for the concrete runs, and an echo reply that it accepts.\<close>

definition demo_recv_ctx :: "xm_probe \<Rightarrow> xm_context" where
  "demo_recv_ctx probe = context_init\<lparr>source_port_first := 32768, source_port_last := 61000, target_port := 80,
     packet_streams := 1, the_probe := Some probe, filter_duplicates := True\<rparr>"

definition demo_task :: xm_recv_task where
  "demo_task = \<lparr>seen = xm_pbm_init, task_xstore = demo_store0,
     xrecv = \<lparr>success_total = 0, success_unique = 0, cooldown_total = 0, cooldown_unique = 0, filter_success = 0,
       ip_fragments = 0, validation_passed = 0, validation_failed = 0\<rparr>,
     shared_block = demo_world, task_validate = \<lparr>aes_input = [0, 0, 0, 0], aes_sched = replicate 44 0\<rparr>,
     fake_eth_hdr = (\<lambda>i. 0)\<rparr>"

definition demo_reply :: packet where
  "demo_reply = (let v = validation_words (fst (xm_validate_gen 0 0 \<lparr>aes_input = [0, 0, 0, 0], aes_sched = replicate 44 0\<rparr>))
     in store16 (store16 ((\<lambda>i. 0)(14 := 0x45, 23 := 1)) 38 (ucast (v ! 1))) 40 (ucast (v ! 2)))"

lemma demo_recv_ok: "probe \<in> set probes \<Longrightarrow> recv_ctx (demo_recv_ctx probe)"
  by (auto simp: recv_ctx_def demo_recv_ctx_def context_init_def)

lemma demo_recv_rel:
  "recv_rel 0x10000 demo_task [] None" "ring_count (ring_of 0x10000 (shared_block demo_task)) = 15"
  "unat (fmt_entry_size (store_shm_fmt (task_xstore demo_task))) = 4096"
  using demo_writer_rel pbm.inv_emp
  by (simp_all add: recv_rel_def demo_task_def demo_store0_def demo_writer_def xm_shm_format_create_def
    ring_count_def ring_of_def demo_world_def demo_header_fields)

lemma demo_reply_accepted:
  "accepted (demo_recv_ctx probe_icmp_echo) (static_of (demo_recv_ctx probe_icmp_echo) demo_static)
     (task_validate demo_task) (demo_reply, 60) = Some 0"
proof -
  let ?vs = "\<lparr>aes_input = [0, 0, 0, 0], aes_sched = replicate 44 0\<rparr>"
  let ?v = "validation_words (fst (xm_validate_gen 0 0 ?vs))" and ?r = "at_offset demo_reply 14"
  have hl: "ip_hl ?r = 5" by (simp add: ip_hl_def demo_reply_def Let_def at_offset_def lo_nibble_def)
  have b: "?r 9 = IPPROTO_ICMP" "?r 20 = 0"
    by (simp_all add: demo_reply_def Let_def at_offset_def IPPROTO_ICMP_def)
  have z: "load32 demo_reply 26 = 0" "load32 demo_reply 30 = 0"
    by (rule load_zero, simp add: demo_reply_def Let_def)+
  have "icmp_numbers ?v ?r 20"
    by (simp add: icmp_numbers_def demo_reply_def Let_def)
  then have "icmp_probe_validate_packet st ?r 46 0 ?v vs = verdict_of True 0 ?v vs" for st vs
    using icmp_validate_direct [of ?r 46 st 0 ?v vs] b unfolding hl
    by (simp add: ICMP_TIMXCEED_def ICMP_UNREACH_def)
  moreover have "norm ?vs = ?vs" by (simp add: norm_def)
  ultimately show ?thesis
    using z by (simp add: accepted_def Let_def demo_recv_ctx_def context_init_def demo_task_def
      probe_icmp_echo_def verdict_of_def verdict_outcome_def header_sizes)
qed

text \<open>Property C2. A receiver that filters duplicates reports every address that answers exactly once:
  over any sequence of packets for which the ring has room, the log of records grows by one
  record, made of an accepted packet of the address, for each new address among those accepted,
  in the order of their first answers, and the counters count these packets and addresses.\<close>

theorem addresses_reported_once:
  assumes "recv_ctx ctx" "\<forall>c. length (pack c) \<le> call_size c" "recv_rel base task bs cur"
    "length bs + 2 * length ps < ring_count (ring_of base (shared_block task))"
    "553 \<le> unat (fmt_entry_size (store_shm_fmt (task_xstore task)))"
  shows "\<exists>task' bs' cur' rs. receive_packets pack reader ctx (static_of ctx st) sc ps task = Inr task' \<and>
    recv_rel base task' bs' cur' \<and>
    concat bs' @ cur_list cur' = concat bs @ cur_list cur @ map (\<lambda>(a, p). result_record pack ctx (task_xstore task) p) rs \<and>
    map fst rs = pbm.firsts (seen task) (addresses ctx (static_of ctx st) (task_validate task) ps) \<and>
    distinct (map fst rs) \<and>
    set (map fst rs) = {a \<in> set (addresses ctx (static_of ctx st) (task_validate task) ps). \<not> xm_pbm_check (seen task) a} \<and>
    rs = reports ctx (static_of ctx st) (task_validate task) (seen task) ps \<and>
    tally (xrecv task') = tally_add (length (addresses ctx (static_of ctx st) (task_validate task) ps)) (length rs)
      (tally (xrecv task))"
proof -
  have "pbm_inv (seen task)" using assms(3) by (simp add: recv_rel_def)
  note pbm.firsts_distinct [OF this, of "addresses ctx (static_of ctx st) (task_validate task) ps"]
  moreover note reports_addresses [of ctx "static_of ctx st" "task_validate task" "seen task" ps]
  moreover obtain task' bs' cur' where "receive_packets pack reader ctx (static_of ctx st) sc ps task = Inr task'"
    "recv_rel base task' bs' cur'"
    "concat bs' @ cur_list cur' = concat bs @ cur_list cur @
        map (\<lambda>(a, p). result_record pack ctx (task_xstore task) p)
          (reports ctx (static_of ctx st) (task_validate task) (seen task) ps)"
    "tally (xrecv task') = tally_add (length (addresses ctx (static_of ctx st) (task_validate task) ps))
        (length (reports ctx (static_of ctx st) (task_validate task) (seen task) ps)) (tally (xrecv task))"
    using receive_reports [OF assms] by blast
  ultimately show ?thesis
    by (intro exI [of _ task'] exI [of _ bs'] exI [of _ cur']
      exI [of _ "reports ctx (static_of ctx st) (task_validate task) (seen task) ps"]) (simp flip: set_map)
qed

theorem addresses_reported_once_witness:
  "\<exists>task' bs' cur'. receive_packets (\<lambda>c. []) (\<lambda>w. w) (demo_recv_ctx probe_icmp_echo)
      (static_of (demo_recv_ctx probe_icmp_echo) demo_static) False [(0, demo_reply, 60), (1, demo_reply, 60)] demo_task = Inr task' \<and>
    recv_rel 0x10000 task' bs' cur' \<and> length (concat bs' @ cur_list cur') = 1 \<and> filter_success (xrecv task') = 1"
proof -
  let ?ctx = "demo_recv_ctx probe_icmp_echo" and ?ps = "[(0, demo_reply, 60), (1, demo_reply, 60)]"
  have ctx: "recv_ctx ?ctx" by (rule demo_recv_ok) (simp add: probes_def)
  have "addresses ?ctx (static_of ?ctx demo_static) (task_validate demo_task) ?ps = [0, 0]"
    by (simp add: demo_reply_accepted)
  moreover have "pbm.firsts (seen demo_task) [0, 0] = [0]"
    by (simp add: demo_task_def pbm.check_emp pbm.check_ins pbm.inv_emp)
  moreover obtain task' bs' cur' rs where
    "receive_packets (\<lambda>c. []) (\<lambda>w. w) ?ctx (static_of ?ctx demo_static) False ?ps demo_task = Inr task'"
    "recv_rel 0x10000 task' bs' cur'"
    "concat bs' @ cur_list cur' = map (\<lambda>(a, p). result_record (\<lambda>c. []) ?ctx (task_xstore demo_task) p) rs"
    "map fst rs = pbm.firsts (seen demo_task) (addresses ?ctx (static_of ?ctx demo_static) (task_validate demo_task) ?ps)"
    "tally (xrecv task') = tally_add (length (addresses ?ctx (static_of ?ctx demo_static) (task_validate demo_task) ?ps))
      (length rs) (tally (xrecv demo_task))"
    using addresses_reported_once [OF ctx _ demo_recv_rel(1), of "\<lambda>c. []" ?ps "\<lambda>w. w" demo_static False]
      demo_recv_rel(2,3) by auto
  moreover have "tally (xrecv demo_task) = (0, 0, 0, 0)" by (simp add: tally_def demo_task_def)
  ultimately show ?thesis
    by (intro exI [of _ task'] exI [of _ bs'] exI [of _ cur'])
      (auto simp: tally_def tally_add_def length_Suc_conv map_eq_Cons_conv)
qed

text \<open>Property C34. A result waits for a later one: in a run that starts with an empty ring and reports
  one packet only, which comes before the flush time-out has passed, the packet counts as a
  success and its record is in the open entry, but the entry is not committed: after every
  later turn, whatever other packets come and however much time passes, a reader finds nothing,
  nor does it when the run ends.\<close>

theorem first_result_waits:
  assumes "recv_ctx ctx" "\<forall>c. length (pack c) \<le> call_size c" "recv_rel base task [] None"
    "1 < ring_count (ring_of base (shared_block task))"
    "553 \<le> unat (fmt_entry_size (store_shm_fmt (task_xstore task)))"
    "batch_packets (driver k) = ps @ (t, p, n) # qs"
    "reports ctx (static_of ctx st) (task_validate task) (seen task) (turn_packets driver 0 k @ ps) = []"
    "accepted ctx (static_of ctx st) (task_validate task) (p, n) = Some a" "\<not> xm_pbm_check (seen task) a"
    "t div 1000 - shm_last_time (task_xstore task) \<le> shm_flush_timeout (task_xstore task)"
    "\<forall>m. length (reports ctx (static_of ctx st) (task_validate task) (seen task) (turn_packets driver 0 m)) \<le> 1"
    "\<not> eiter c" "\<not> is_write (fmt_shm_int (shm_fmt c))"
    "shm_address_get (fmt_shm_int (shm_fmt c)) = memory_address_get base"
  shows "(\<forall>m > k. \<exists>task'. recv_turns pack reader ctx (static_of ctx st) driver m task = Inr task' \<and>
      filter_success (xrecv task') = filter_success (xrecv task) + 1 \<and>
      (\<exists>cur'. recv_rel base task' [] cur' \<and> cur_list cur' = [result_record pack ctx (task_xstore task) p]) \<and>
      fst (entry_read c (shared_block task')) = ReadNone) \<and>
    (\<forall>r. recv_task_run pack reader ctx (static_of ctx st) driver task = Some r \<longrightarrow>
      (\<exists>task'. r = Inr task' \<and> fst (entry_read c (shared_block task')) = ReadNone))"
proof -
  have unread: "fst (entry_read c (shared_block task')) = ReadNone" if "recv_rel base task' [] cur'" for task' cur'
    using read_nothing [OF writer_to_reader [OF _ assms(12-14)]] that unfolding recv_rel_def by auto
  note turns = turns_one_report [OF assms(1-11), of _ reader]
  have "\<exists>task' cur'. recv_turns pack reader ctx (static_of ctx st) driver m task = Inr task' \<and> recv_rel base task' [] cur'" for m
  proof (cases "m \<le> k")
    case True
    then show ?thesis using turns(1) [of m] same_log_rel assms(3) by metis
  next
    case False
    then show ?thesis using turns(2) [of m] by auto
  qed
  then have "\<exists>task'. r = Inr task' \<and> fst (entry_read c (shared_block task')) = ReadNone"
    if "recv_task_run pack reader ctx (static_of ctx st) driver task = Some r" for r
    using run_ends_at [OF that] unread by metis
  then show ?thesis using turns(2) unread by metis
qed

theorem first_result_waits_witness:
  "\<exists>task'. recv_task_run (\<lambda>c. []) (\<lambda>w. w) (demo_recv_ctx probe_icmp_echo)
      (static_of (demo_recv_ctx probe_icmp_echo) demo_static)
      (\<lambda>i. \<lparr>batch_packets = [(5000 * of_nat (i + 1), demo_reply, 60)], batch_complete = 3 \<le> i, batch_cooled = True\<rparr>) demo_task =
      Some (Inr task') \<and> fst (entry_read demo_reader (shared_block task')) = ReadNone"
proof -
  let ?ctx = "demo_recv_ctx probe_icmp_echo"
  let ?st = "static_of ?ctx demo_static"
  let ?driver = "\<lambda>i. \<lparr>batch_packets = [(5000 * of_nat (i + 1), demo_reply, 60)], batch_complete = 3 \<le> i, batch_cooled = True\<rparr>"
  have ctx: "recv_ctx ?ctx" by (rule demo_recv_ok) (simp add: probes_def)
  have inv: "pbm_inv (seen demo_task)" using demo_recv_rel(1) by (simp add: recv_rel_def)
  have new: "\<not> xm_pbm_check (seen demo_task) 0" using pbm.check_emp [of 0] by (simp add: demo_task_def)
  have "reports ?ctx ?st (task_validate demo_task) (xm_pbm_set (seen demo_task) 0) (map (\<lambda>i. (f i, demo_reply, 60)) xs) = []" for xs :: "nat list" and f
    by (induction xs) (simp_all add: demo_reply_accepted pbm.check_ins [OF inv])
  then have "length (reports ?ctx ?st (task_validate demo_task) (seen demo_task) (map (\<lambda>i. (f i, demo_reply, 60)) xs)) \<le> 1" for xs :: "nat list" and f
    by (cases xs) (simp_all add: demo_reply_accepted new)
  moreover have "turn_packets ?driver 0 m = map (\<lambda>i. (5000 * of_nat (i + 1), demo_reply, 60)) [0..<m]" for m
    by (induction m) (simp_all add: turn_packets_simps)
  ultimately have one: "\<forall>m. length (reports ?ctx ?st (task_validate demo_task) (seen demo_task) (turn_packets ?driver 0 m)) \<le> 1"
    by simp
  have e: "\<not> eiter demo_reader" "\<not> is_write (fmt_shm_int (shm_fmt demo_reader))"
    "shm_address_get (fmt_shm_int (shm_fmt demo_reader)) = memory_address_get 0x10000"
    by (simp_all add: demo_reader_def xm_shm_format_create_def)
  have first: "batch_packets (?driver 0) = [] @ (5000, demo_reply, 60) # []" by simp
  note w = first_result_waits [OF ctx _ demo_recv_rel(1) _ _ first _ demo_reply_accepted new _ one e, of "\<lambda>c. []" "\<lambda>w. w"]
  have "\<not> goes_on (\<lambda>c. []) (\<lambda>w. w) ?ctx ?st ?driver demo_task 3" by (simp add: goes_on_def recv_stop_def)
  then have "recv_task_run (\<lambda>c. []) (\<lambda>w. w) ?ctx ?st ?driver demo_task \<noteq> None"
    using run_ended [of "\<lambda>c. []" "\<lambda>w. w" ?ctx ?st ?driver demo_task 3] by simp
  then show ?thesis
    using w demo_recv_rel(2,3) by (auto simp: turn_packets_simps demo_task_def demo_store0_def)
qed

text \<open>An ICMP error message: unreachable or time exceeded.\<close>

definition icmp_error :: "xm_context \<Rightarrow> packet \<Rightarrow> bool" where
  "icmp_error ctx p \<longleftrightarrow> (let ip = at_offset p (data_link_size ctx)
     in ip (4 * ip_hl ip) = ICMP_TIMXCEED \<or> ip (4 * ip_hl ip) = ICMP_UNREACH)"

lemma icmp_error_source:
  assumes "ip (4 * ip_hl ip) = ICMP_TIMXCEED \<or> ip (4 * ip_hl ip) = ICMP_UNREACH"
    "verdict_outcome (icmp_probe_validate_packet st ip len sip v vs) = Some (True, s)"
  shows "s = load32 ip 16"
proof -
  let ?d = "load32 ip (4 * ip_hl ip + 24)"
  obtain bytes vs1 where g: "xm_validate_gen (load32 ip 16) ?d vs = (bytes, vs1)" by (cases "xm_validate_gen (load32 ip 16) ?d vs")
  show ?thesis using assms
    by (auto simp: icmp_probe_validate_packet_def Let_def g verdict_outcome_def split: if_splits)
qed

text \<open>Error answers to the ICMP probes are all taken for answers of the scanner itself:
  whatever number of hosts is reported unreachable by such messages to one address of the
  scanner, at most one record is stored.\<close>

theorem errors_reported_once_for_all:
  assumes "recv_ctx ctx" "the_probe ctx = Some probe_icmp_echo \<or> the_probe ctx = Some probe_icmp_echo_time"
    "\<forall>c. length (pack c) \<le> call_size c" "recv_rel base task bs cur"
    "length bs + 2 * length ps < ring_count (ring_of base (shared_block task))"
    "553 \<le> unat (fmt_entry_size (store_shm_fmt (task_xstore task)))"
    "\<forall>(t, p, n) \<in> set ps. icmp_error ctx p \<and> load32 (at_offset p (data_link_size ctx)) 16 = own"
  shows "\<exists>task' bs' cur'. receive_packets pack reader ctx (static_of ctx st) sc ps task = Inr task' \<and>
    recv_rel base task' bs' cur' \<and> length (concat bs' @ cur_list cur') \<le> length (concat bs @ cur_list cur) + 1"
proof -
  let ?as = "addresses ctx (static_of ctx st) (task_validate task) ps"
  have own: "a = ntohl own" if tp: "(t, p, n) \<in> set ps" and acc: "accepted ctx (static_of ctx st) (task_validate task) (p, n) = Some a" for t p n a
  proof -
    let ?ip = "at_offset p (data_link_size ctx)"
    have e: "?ip (4 * ip_hl ?ip) = ICMP_TIMXCEED \<or> ?ip (4 * ip_hl ?ip) = ICMP_UNREACH" "load32 ?ip 16 = own"
      using assms(7) tp by (auto simp: icmp_error_def Let_def)
    obtain s v where "a = ntohl s" "verdict_outcome (icmp_probe_validate_packet (static_of ctx st) ?ip
        (ucast (n - of_nat sizeof_ether_header)) (load32 ?ip 12) v (norm (task_validate task))) = Some (True, s)"
      using acc assms(2) by (auto simp: accepted_def Let_def probe_icmp_echo_def probe_icmp_echo_time_def
        icmp_time_validate split: if_splits option.splits bool.splits)
    then show ?thesis using icmp_error_source [of ?ip, OF e(1)] e(2) by metis
  qed
  have "set ?as \<subseteq> {ntohl own}"
    using own by (force simp: addresses_def List.map_filter_def)
  moreover have inv: "pbm_inv (seen task)" using assms(4) by (simp add: recv_rel_def)
  ultimately have "card (set (pbm.firsts (seen task) ?as)) \<le> card {ntohl own}"
    by (intro card_mono) (auto simp: pbm.firsts_distinct(2))
  then have "length (pbm.firsts (seen task) ?as) \<le> 1"
    by (simp add: distinct_card [OF pbm.firsts_distinct(1) [OF inv]])
  then have len: "length (reports ctx (static_of ctx st) (task_validate task) (seen task) ps) \<le> 1"
    by (metis reports_addresses length_map)
  obtain task' bs' cur' where "receive_packets pack reader ctx (static_of ctx st) sc ps task = Inr task'"
    "recv_rel base task' bs' cur'"
    "concat bs' @ cur_list cur' = (concat bs @ cur_list cur) @
        map (\<lambda>(a, p). result_record pack ctx (task_xstore task) p)
          (reports ctx (static_of ctx st) (task_validate task) (seen task) ps)"
    using receive_reports [OF assms(1,3-6)] by fastforce
  then show ?thesis
    using len by (intro exI [of _ task'] exI [of _ bs'] exI [of _ cur']) simp
qed

theorem errors_reported_once_for_all_witness:
  "\<exists>task' bs' cur'. receive_packets (\<lambda>c. []) (\<lambda>w. w) (demo_recv_ctx probe_icmp_echo)
      (static_of (demo_recv_ctx probe_icmp_echo) demo_static) False
      [(0, (\<lambda>i. 0)(14 := 0x45, 23 := 1, 34 := 3), 90), (1, (\<lambda>i. 0)(14 := 0x45, 23 := 1, 34 := 11), 90)] demo_task = Inr task' \<and>
    recv_rel 0x10000 task' bs' cur' \<and> length (concat bs' @ cur_list cur') \<le> 1"
proof -
  have ctx: "recv_ctx (demo_recv_ctx probe_icmp_echo)" by (rule demo_recv_ok) (simp add: probes_def)
  have d: "data_link_size (demo_recv_ctx probe_icmp_echo) = 14" "the_probe (demo_recv_ctx probe_icmp_echo) = Some probe_icmp_echo"
    by (simp_all add: demo_recv_ctx_def context_init_def sizeof_ether_header_def)
  let ?ps = "[(0, (\<lambda>i. 0)(14 := 0x45, 23 := 1, 34 := 3), 90), (1, (\<lambda>i. 0)(14 := 0x45, 23 := 1, 34 := 11), 90)]
    :: (u64 \<times> packet \<times> u64) list"
  have "icmp_error (demo_recv_ctx probe_icmp_echo) p \<and> load32 (at_offset p 14) 16 = 0" if "(t, p, n) \<in> set ?ps" for t p n
    using that by (auto simp: icmp_error_def d Let_def ip_hl_def at_offset_def lo_nibble_def ICMP_TIMXCEED_def
      ICMP_UNREACH_def load_zero)
  then show ?thesis
    using errors_reported_once_for_all [OF ctx _ _ demo_recv_rel(1), of "\<lambda>c. []" ?ps 0 "\<lambda>w. w" demo_static False]
      demo_recv_rel(2,3) d by fastforce
qed



text \<open>As nothing in the program marks the sending as complete, a receiver whose results
  stay below the limit never ends, however long ago the last packet was sent.\<close>

theorem recv_run_never_ends:
  assumes "\<forall>n. \<not> batch_complete (driver n)"
    "\<forall>n. \<exists>t. recv_turns pack reader ctx st driver n task = Inr t \<and> filter_success (xrecv t) < result_limit ctx"
  shows "recv_task_run pack reader ctx st driver task = None"
  by (rule run_never) (metis assms goes_on_def recv_stop_def not_le)

theorem recv_run_never_ends_witness:
  "recv_task_run (\<lambda>c. []) (\<lambda>w. w) (demo_recv_ctx probe_icmp_echo) demo_static
     (\<lambda>n. \<lparr>batch_packets = [], batch_complete = False, batch_cooled = True\<rparr>) demo_task = None"
proof -
  have "recv_turns (\<lambda>c. []) (\<lambda>w. w) (demo_recv_ctx probe_icmp_echo) demo_static
     (\<lambda>n. \<lparr>batch_packets = [], batch_complete = False, batch_cooled = True\<rparr>) n demo_task = Inr demo_task" for n
    by (induction n) simp_all
  moreover have "filter_success (xrecv demo_task) < result_limit (demo_recv_ctx probe_icmp_echo)"
    by (simp add: demo_task_def result_limit_def word_gt_0)
  ultimately show ?thesis by (intro recv_run_never_ends) simp_all
qed

end
