(* ===== verification/Send.thy ===== *)
theory Send
  imports Recv Shard
begin

text \<open>
  The sending tasks, \<open>src/xm_send_task.c\<close>: each walks its shard of the address space and sends the
  probe's packets to every address.  The driver that takes the packets and the clocks are outside;
  the pacing of the loop, which only waits, is left out.
\<close>

unbundle bit_operations_syntax

section \<open>State\<close>

text \<open>A sending thread: its shard, its packet buffer, the counter of packets made, the index given to
  the driver, what the driver has been asked for and what it took, and the static state of
  \<open>xm_validate.c\<close>.\<close>

record send_state =
  send_shard :: xm_shard
  send_buf :: packet
  send_count :: u64
  send_idx :: u32
  send_calls :: nat
  send_log :: "(u32 \<times> u8 list) list"
  send_validate :: validate_state

datatype send_error = NoSourceAddresses | NoSourcePorts

text \<open>The outside: what \<open>gettimeofday\<close> says when a packet is made, whether the driver takes the
  frame of a call, and before each turn whether receiving is complete and whether at least so many
  seconds have passed.\<close>

record send_world =
  packet_time :: "u64 \<Rightarrow> u64 \<times> u64"
  driver_takes :: "nat \<Rightarrow> u8 list \<Rightarrow> bool"
  recv_completed :: "nat \<Rightarrow> bool"
  seconds_passed :: "nat \<Rightarrow> u32 \<Rightarrow> bool"

definition MAX_PACKET_SIZE_send :: nat where "MAX_PACKET_SIZE_send = 4096"

section \<open>One packet\<close>

definition get_src_ip :: "xm_context \<Rightarrow> u32 \<Rightarrow> int \<Rightarrow> u32 option" where
  "get_src_ip ctx dst local_offset =
     (if number_source_ips ctx = 1 then Some (source_ip_addresses ctx ! 0)
      else if number_source_ips ctx = 0 then None
      else Some (source_ip_addresses ctx !
        unat ((ntohl dst + srcip_offset ctx + of_int local_offset) mod number_source_ips ctx)))"

text \<open>The loop over the attempts; the result tells whether one was successful.\<close>

fun send_attempts :: "send_world \<Rightarrow> u8 list \<Rightarrow> nat \<Rightarrow> send_state \<Rightarrow> bool \<times> send_state" where
  "send_attempts sw contents 0 s = (False, s)"
| "send_attempts sw contents (Suc attempts) s =
     (let taken = driver_takes sw (send_calls s) contents;
          s = s\<lparr>send_calls := send_calls s + 1\<rparr>
      in if taken then (True, s\<lparr>send_log := send_log s @ [(send_idx s, contents)]\<rparr>)
         else send_attempts sw contents attempts s)"

definition count_failure :: "xm_shard \<Rightarrow> xm_shard" where
  "count_failure shard = shard\<lparr>state := (state shard)\<lparr>failures := failures (state shard) + 1\<rparr>\<rparr>"

text \<open>The body of the loop over the streams: the result tells whether the loop goes on.\<close>

definition send_packet ::
  "xm_context \<Rightarrow> probe_static \<Rightarrow> send_world \<Rightarrow> u32 \<Rightarrow> int \<Rightarrow> send_state \<Rightarrow> send_error + (bool \<times> send_state)" where
  "send_packet ctx st sw current_ip i s =
     (let s = s\<lparr>send_count := send_count s + 1\<rparr>
      in case get_src_ip ctx current_ip i of
           None \<Rightarrow> Inl NoSourceAddresses
         | Some src_ip \<Rightarrow>
             (let probe = the (the_probe ctx);
                  (bytes, vs) = xm_validate_gen src_ip current_ip (send_validate s)
              in case probe_make_packet probe st (packet_time sw (send_count s)) (send_buf s) src_ip current_ip
                   (probe_ttl ctx) (validation_words bytes) (of_int i) of
                   None \<Rightarrow> Inl NoSourcePorts
                 | Some buf \<Rightarrow>
                     (let s = s\<lparr>send_validate := vs, send_buf := buf\<rparr>; len = unat (packet_length probe)
                      in if len > MAX_PACKET_SIZE_send then Inr (False, s)
                         else let off = (if send_ip_pkts ctx then sizeof_ether_header else 0);
                                  contents = map buf [off..<len];
                                  (sent, s) = send_attempts sw contents (nat (num_retries ctx + 1)) s;
                                  s = (if \<not> sent then s\<lparr>send_shard := count_failure (send_shard s)\<rparr> else s)
                              in Inr (True, s\<lparr>send_idx := (send_idx s + 1) AND 0xFF\<rparr>))))"

fun send_streams ::
  "xm_context \<Rightarrow> probe_static \<Rightarrow> send_world \<Rightarrow> u32 \<Rightarrow> int list \<Rightarrow> send_state \<Rightarrow> send_error + send_state" where
  "send_streams ctx st sw current_ip [] s = Inr s"
| "send_streams ctx st sw current_ip (i # is) s =
     (case send_packet ctx st sw current_ip i s of
        Inl e \<Rightarrow> Inl e
      | Inr (False, s) \<Rightarrow> Inr s
      | Inr (True, s) \<Rightarrow> send_streams ctx st sw current_ip is s)"

section \<open>The task\<close>

definition count_tried :: "xm_shard \<Rightarrow> xm_shard" where
  "count_tried shard = shard\<lparr>state := (state shard)\<lparr>tried_sent := tried_sent (state shard) + 1\<rparr>\<rparr>"

definition count_sent :: "xm_shard \<Rightarrow> xm_shard" where
  "count_sent shard = count_tried (shard\<lparr>state := (state shard)\<lparr>sent := sent (state shard) + 1\<rparr>\<rparr>)"

text \<open>The loop that looks for an address on the list; \<open>Inl\<close> is the jump to the end.\<close>

partial_function (option) roll_listed ::
  "pbm \<Rightarrow> u32 \<Rightarrow> xm_shard \<Rightarrow> (xm_shard + (u32 \<times> xm_shard)) option" where
  "roll_listed lst current_ip shard =
     (if xm_pbm_check lst current_ip then Some (Inr (current_ip, shard))
      else Option.bind (xm_shard_get_next_ip shard) (\<lambda>(ip, shard).
        let shard = count_tried shard
        in if ip = XM_SHARD_DONE then Some (Inl shard) else roll_listed lst ip shard))"

text \<open>The address that is next: the list is looked at when it was given.\<close>

definition to_listed :: "xm_context \<Rightarrow> u32 \<Rightarrow> xm_shard \<Rightarrow> (xm_shard + (u32 \<times> xm_shard)) option" where
  "to_listed ctx current_ip shard =
     (if list_of_ips_filename ctx \<noteq> None then roll_listed (the (list_of_ips_pbm ctx)) current_ip shard
      else Some (Inr (current_ip, shard)))"

definition targets_reached :: "shard_state \<Rightarrow> bool" where
  "targets_reached st \<longleftrightarrow> max_targets st \<noteq> 0 \<and> (sent st \<ge> max_targets st \<or> tried_sent st \<ge> max_targets st)"

text \<open>The loop of \<open>_send_task_run\<close>, \<open>n\<close> counting its turns; \<open>None\<close> when it does not end.\<close>

partial_function (option) send_loop ::
  "xm_context \<Rightarrow> probe_static \<Rightarrow> send_world \<Rightarrow> nat \<Rightarrow> u32 \<Rightarrow> send_state \<Rightarrow> (send_error + send_state) option" where
  "send_loop ctx st sw n current_ip s =
     (if recv_completed sw n then Some (Inr s)
      else if targets_reached (state (send_shard s)) then Some (Inr s)
      else if max_runtime ctx \<noteq> 0 \<and> seconds_passed sw n (max_runtime ctx) then Some (Inr s)
      else if current_ip = XM_SHARD_DONE then Some (Inr s)
      else case send_streams ctx st sw current_ip [0..packet_streams ctx - 1] s of
             Inl e \<Rightarrow> Some (Inl e)
           | Inr s \<Rightarrow>
               Option.bind (xm_shard_get_next_ip (count_sent (send_shard s))) (\<lambda>(ip, shard).
                 if ip = XM_SHARD_DONE then send_loop ctx st sw (Suc n) ip (s\<lparr>send_shard := shard\<rparr>)
                 else Option.bind (to_listed ctx ip shard) (\<lambda>r.
                   case r of Inl shard \<Rightarrow> Some (Inr (s\<lparr>send_shard := shard\<rparr>))
                   | Inr (ip, shard) \<Rightarrow> send_loop ctx st sw (Suc n) ip (s\<lparr>send_shard := shard\<rparr>))))"

text \<open>\<open>random\<close> is the number that the probe's buffer is set up with.\<close>

definition send_task_run ::
  "xm_context \<Rightarrow> probe_static \<Rightarrow> send_world \<Rightarrow> u32 \<Rightarrow> validate_state \<Rightarrow> xm_shard \<Rightarrow> (send_error + send_state) option" where
  "send_task_run ctx st sw random vs shard =
     (let probe = the (the_probe ctx);
          buf = probe_thread_init probe random (\<lambda>i. 0) (hw_mac ctx) (gw_mac ctx) (target_port ctx);
          (current_ip, shard) = xm_shard_get_cur_ip shard;
          s = \<lparr>send_shard = shard, send_buf = buf, send_count = 0, send_idx = 0, send_calls = 0, send_log = [],
            send_validate = vs\<rparr>
      in Option.bind (to_listed ctx current_ip shard) (\<lambda>r.
           case r of Inl shard \<Rightarrow> Some (Inr (s\<lparr>send_shard := shard\<rparr>))
           | Inr (ip, shard) \<Rightarrow> send_loop ctx st sw 0 ip (s\<lparr>send_shard := shard\<rparr>)))"

section \<open>The shards of the tasks\<close>

text \<open>\<open>_create_shard\<close>: it draws a new cycle from the context's generator of random numbers, which is
  then another one; \<open>None\<close> when there is no group, no generator or no shard.\<close>

definition create_shard ::
  "(nat \<Rightarrow> nat \<Rightarrow> nat \<Rightarrow> nat) \<Rightarrow> shard_state \<Rightarrow> xm_context \<Rightarrow> u8 \<Rightarrow> (xm_context \<times> xm_shard) option" where
  "create_shard powm mem ctx thread_idx =
     (let wb = the (the_wblist ctx);
          num_addrs = xm_wblist_count_allowed wb
      in case xm_get_cyclic_group num_addrs of
           None \<Rightarrow> None
         | Some grp \<Rightarrow>
             (let ctx = ctx\<lparr>xsend_max_index := if num_addrs > 0x100000000 then 0xFFFFFFFF else ucast num_addrs\<rparr>
              in case xm_make_cycle powm grp (the (the_aes ctx)) of
                   (Some (Some cycle), aes) \<Rightarrow>
                     map_option (\<lambda>shard. (ctx\<lparr>the_aes := Some aes\<rparr>, shard))
                       (xm_shard_create powm mem (shard_num ctx) (total_shards ctx) thread_idx (senders ctx)
                         (xsend_max_targets ctx) (ucast (xsend_max_index ctx)) cycle wb)
                 | _ \<Rightarrow> None))"

section \<open>What a sender needs\<close>

text \<open>The context of a sender: one of the probes, the ports in order, a source address, the addresses
  of both ends, and at least one attempt.\<close>

definition send_ctx :: "xm_context \<Rightarrow> bool" where
  "send_ctx ctx \<longleftrightarrow> (\<exists>probe \<in> set probes. the_probe ctx = Some probe) \<and>
     source_port_first ctx \<le> source_port_last ctx \<and> number_source_ips ctx \<noteq> 0 \<and>
     length (hw_mac ctx) = 6 \<and> length (gw_mac ctx) = 6 \<and> 0 \<le> num_retries ctx"

text \<open>The fixed part of a probe's buffer, and what a packet made in it says.\<close>

definition probe_template :: "xm_context \<Rightarrow> packet \<Rightarrow> bool" where
  "probe_template ctx p \<longleftrightarrow>
     (let probe = the (the_probe ctx)
      in if port_args probe
         then tcp_template (if probe_name probe = ''tcp_synscan'' then 2 else 18) (hw_mac ctx) (gw_mac ctx) (target_port ctx) p
         else icmp_template (hw_mac ctx) (gw_mac ctx) p)"

definition probe_made :: "xm_context \<Rightarrow> u32 \<Rightarrow> u32 \<Rightarrow> u32 list \<Rightarrow> packet \<Rightarrow> bool" where
  "probe_made ctx src dst validation p \<longleftrightarrow>
     (if port_args (the (the_probe ctx))
      then \<exists>port \<ge> source_port_first ctx. port \<le> source_port_last ctx \<and>
        tcp_probe_ok src dst (probe_ttl ctx) port (validation ! 0) p
      else icmp_probe_ok src dst (probe_ttl ctx) validation p)"

lemma init_template:
  assumes "send_ctx ctx"
  shows "probe_template ctx (probe_thread_init (the (the_probe ctx)) random p (hw_mac ctx) (gw_mac ctx) (target_port ctx))"
proof -
  obtain probe where "probe \<in> set probes" "the_probe ctx = Some probe" using assms by (auto simp: send_ctx_def)
  moreover have "length (hw_mac ctx) = 6" "length (gw_mac ctx) = 6" using assms by (simp_all add: send_ctx_def)
  note synscan_thread_init [OF this] icmp_thread_init [OF this]
  ultimately show ?thesis
    by (auto simp: probes_def probe_template_def Let_def probe_tcp_synscan_def probe_tcp_synackscan_def
      probe_icmp_echo_def probe_icmp_echo_time_def icmp_time_thread_init)
qed

lemma make_probe:
  assumes "send_ctx ctx" "probe_template ctx p"
  shows "\<exists>p'. probe_make_packet (the (the_probe ctx)) (static_of ctx st) tv p src dst (probe_ttl ctx) validation i = Some p' \<and>
    probe_template ctx p' \<and> probe_made ctx src dst validation p'"
proof -
  let ?c = "probe_context.truncate ctx"
  obtain probe where probe: "probe \<in> set probes" "the_probe ctx = Some probe" using assms by (auto simp: send_ctx_def)
  have ports: "source_port_first ?c = source_port_first ctx" "source_port_last ?c = source_port_last ctx"
    by (simp_all add: probe_context.defs)
  have le: "source_port_first ctx \<le> source_port_last ctx" using assms(1) by (simp add: send_ctx_def)
  obtain port where port: "xm_get_src_port (port_count (source_port_first ctx) (source_port_last ctx)) i
      (source_port_first ctx) validation = Some port" "source_port_first ctx \<le> port" "port \<le> source_port_last ctx"
    by (rule get_src_port_window [OF le])
  then have "xm_get_src_port (num_ports (synscan_probe_context_init ?c st)) i
      (source_port_first (gcontext (synscan_probe_context_init ?c st))) validation = Some port"
    unfolding port_count_def synscan_probe_context_init_def by (simp add: ports)
  note tcp = synscan_make [OF _ this, of _ "hw_mac ctx" "gw_mac ctx" "target_port ctx" p tv src dst "probe_ttl ctx"]
  have same: "synackscan_probe_context_init ?c st = synscan_probe_context_init ?c st"
    by (simp add: synackscan_probe_context_init_def synscan_probe_context_init_def)
  show ?thesis
  proof (cases "port_args probe")
    case True
    then have "probe = probe_tcp_synscan \<or> probe = probe_tcp_synackscan"
      using probe(1) by (auto simp: probes_def probe_icmp_echo_def probe_icmp_echo_time_def)
    then show ?thesis
    proof
      assume "probe = probe_tcp_synscan"
      then show ?thesis using tcp [of 2] assms(2) port(2,3) probe(2)
        by (auto simp: probe_template_def probe_made_def static_of_def probe_tcp_synscan_def)
    next
      assume "probe = probe_tcp_synackscan"
      then show ?thesis using tcp [of 18] assms(2) port(2,3) probe(2)
        by (auto simp: probe_template_def probe_made_def static_of_def probe_tcp_synackscan_def same synackscan_make_packet)
    qed
  next
    case False
    then have "probe = probe_icmp_echo \<or> probe = probe_icmp_echo_time"
      using probe(1) by (auto simp: probes_def probe_tcp_synscan_def probe_tcp_synackscan_def)
    then show ?thesis
      using icmp_make [of "hw_mac ctx" "gw_mac ctx" p "static_of ctx st" tv src dst "probe_ttl ctx" validation i]
        icmp_time_make [of "hw_mac ctx" "gw_mac ctx" p "static_of ctx st" tv src dst "probe_ttl ctx" validation i]
        assms(2) probe(2)
      by (auto simp: probe_template_def probe_made_def probe_icmp_echo_def probe_icmp_echo_time_def)
  qed
qed

section \<open>Frames\<close>

text \<open>A frame for address \<open>dst\<close> in stream \<open>i\<close>: the bytes, from the first that the driver wants, of a
  packet the probe makes from the source address of the pair and its validation words.\<close>

definition frame_ok :: "xm_context \<Rightarrow> validate_state \<Rightarrow> u32 \<Rightarrow> int \<Rightarrow> u8 list \<Rightarrow> bool" where
  "frame_ok ctx vs dst i data \<longleftrightarrow>
     (\<exists>src p. get_src_ip ctx dst i = Some src \<and> probe_template ctx p \<and>
        probe_made ctx src dst (validation_words (fst (xm_validate_gen src dst vs))) p \<and>
        data = map p [(if send_ip_pkts ctx then sizeof_ether_header else 0)..<unat (packet_length (the (the_probe ctx)))])"

lemma frame_ok_norm: "norm vs = norm vs' \<Longrightarrow> frame_ok ctx vs dst i data = frame_ok ctx vs' dst i data"
  unfolding frame_ok_def using validate_gen_norm(1) [of _ _ vs] validate_gen_norm(1) [of _ _ vs'] by auto

lemma probe_fits: "send_ctx ctx \<Longrightarrow> unat (packet_length (the (the_probe ctx))) \<le> MAX_PACKET_SIZE_send"
  by (auto simp: send_ctx_def probes_def probe_tcp_synscan_def probe_tcp_synackscan_def probe_icmp_echo_def
    probe_icmp_echo_time_def MAX_PACKET_SIZE_send_def)

text \<open>The attempts on a frame: it is taken by the first call that succeeds, if one of them does.\<close>

lemma attempts_result:
  "send_attempts sw contents n s =
     (let k = (LEAST k. n \<le> k \<or> driver_takes sw (send_calls s + k) contents)
      in if k < n then (True, s\<lparr>send_calls := send_calls s + k + 1, send_log := send_log s @ [(send_idx s, contents)]\<rparr>)
         else (False, s\<lparr>send_calls := send_calls s + n\<rparr>))"
proof (induction n arbitrary: s)
  case (Suc n)
  let ?P = "\<lambda>c m k. m \<le> k \<or> driver_takes sw (c + k) contents"
  show ?case
  proof (cases "driver_takes sw (send_calls s) contents")
    case True
    then have "(LEAST k. ?P (send_calls s) (Suc n) k) = 0" by (intro Least_eq_0) simp
    then show ?thesis using True by (simp add: Let_def)
  next
    case False
    have "(LEAST k. ?P (send_calls s) (Suc n) k) = Suc (LEAST k. ?P (send_calls s) (Suc n) (Suc k))"
      by (rule Least_Suc [of _ "Suc n"]) (use False in simp_all)
    then show ?thesis using False Suc [of "s\<lparr>send_calls := send_calls s + 1\<rparr>"] by (simp add: Let_def)
  qed
qed simp

text \<open>A driver that takes every frame.\<close>

definition takes_all :: "send_world \<Rightarrow> bool" where
  "takes_all sw \<longleftrightarrow> (\<forall>n contents. driver_takes sw n contents)"

definition send_ready :: "xm_context \<Rightarrow> validate_state \<Rightarrow> send_state \<Rightarrow> bool" where
  "send_ready ctx vs s \<longleftrightarrow> probe_template ctx (send_buf s) \<and> norm (send_validate s) = norm vs"

lemma send_packet_logs:
  assumes "send_ctx ctx" "takes_all sw" "send_ready ctx vs s"
  shows "\<exists>s' data. send_packet ctx (static_of ctx st) sw dst i s = Inr (True, s') \<and> frame_ok ctx vs dst i data \<and>
    send_log s' = send_log s @ [(send_idx s, data)] \<and> send_ready ctx vs s' \<and> send_shard s' = send_shard s"
proof -
  obtain src where src: "get_src_ip ctx dst i = Some src" using assms(1)
    by (cases "number_source_ips ctx = 1") (auto simp: get_src_ip_def send_ctx_def)
  obtain bytes vs' where g: "xm_validate_gen src dst (send_validate s) = (bytes, vs')"
    by (cases "xm_validate_gen src dst (send_validate s)")
  have n: "norm (send_validate s) = norm vs" "norm vs' = norm vs"
    using assms(3) g validate_gen_norm(2) [of src dst "send_validate s"] by (simp_all add: send_ready_def)
  have b: "bytes = fst (xm_validate_gen src dst vs)"
    using g n(1) validate_gen_norm(1) [of src dst "send_validate s"] validate_gen_norm(1) [of src dst vs] by simp
  let ?s = "s\<lparr>send_count := send_count s + 1\<rparr>"
  obtain p where p: "probe_make_packet (the (the_probe ctx)) (static_of ctx st) (packet_time sw (send_count ?s)) (send_buf s)
      src dst (probe_ttl ctx) (validation_words bytes) (of_int i) = Some p" "probe_template ctx p"
    "probe_made ctx src dst (validation_words bytes) p"
    using make_probe [OF assms(1)] assms(3) by (fastforce simp: send_ready_def)
  let ?data = "map p [(if send_ip_pkts ctx then sizeof_ether_header else 0)..<unat (packet_length (the (the_probe ctx)))]"
  obtain k where k: "nat (num_retries ctx + 1) = Suc k" using assms(1) by (auto simp: send_ctx_def nat_add_distrib)
  have "frame_ok ctx vs dst i ?data" using src p b unfolding frame_ok_def by blast
  moreover have "send_packet ctx (static_of ctx st) sw dst i s = Inr (True, ?s\<lparr>send_validate := vs', send_buf := p,
      send_calls := send_calls s + 1, send_log := send_log s @ [(send_idx s, ?data)], send_idx := (send_idx s + 1) AND 0xFF\<rparr>)"
    using src g p(1) k probe_fits [OF assms(1)] assms(2) by (simp add: send_packet_def Let_def takes_all_def)
  ultimately show ?thesis using p(2) n(2) by (auto simp: send_ready_def)
qed

lemma send_streams_logs:
  assumes "send_ctx ctx" "takes_all sw"
  shows "send_ready ctx vs s \<Longrightarrow> \<exists>s' fs. send_streams ctx (static_of ctx st) sw dst is s = Inr s' \<and>
    list_all2 (\<lambda>i f. frame_ok ctx vs dst i (snd f)) is fs \<and> send_log s' = send_log s @ fs \<and>
    send_ready ctx vs s' \<and> send_shard s' = send_shard s"
proof (induction "is" arbitrary: s)
  case (Cons i "is")
  obtain s1 data where 1: "send_packet ctx (static_of ctx st) sw dst i s = Inr (True, s1)" "frame_ok ctx vs dst i data"
    "send_log s1 = send_log s @ [(send_idx s, data)]" "send_ready ctx vs s1" "send_shard s1 = send_shard s"
    using send_packet_logs [OF assms Cons.prems] by blast
  obtain s' fs where "send_streams ctx (static_of ctx st) sw dst is s1 = Inr s'"
    "list_all2 (\<lambda>i f. frame_ok ctx vs dst i (snd f)) is fs" "send_log s' = send_log s1 @ fs"
    "send_ready ctx vs s'" "send_shard s' = send_shard s1"
    using Cons.IH [OF 1(4)] by blast
  then show ?case using 1 by (intro exI [of _ s'] exI [of _ "(send_idx s, data) # fs"]) simp
qed simp

section \<open>The addresses of a shard\<close>

text \<open>The walk of a shard does not depend on its counters, which the sender changes in between.\<close>

definition same_walk :: "xm_shard \<Rightarrow> xm_shard \<Rightarrow> bool" where
  "same_walk s t \<longleftrightarrow> params s = params t \<and> current s = current t \<and> max_index s = max_index t \<and> wblist s = wblist t"

definition send_counts :: "xm_shard \<Rightarrow> u32 \<times> u32 \<times> u32" where
  "send_counts s = (sent (state s), tried_sent (state s), max_targets (state s))"

lemma loop_same:
  "get_next_ip_loop s = Some r \<Longrightarrow> same_walk s t \<Longrightarrow>
   \<exists>t'. get_next_ip_loop t = Some (fst r, t') \<and> same_walk (snd r) t' \<and> send_counts t' = send_counts t"
proof -
  assume r: "get_next_ip_loop s = Some r"
  have "\<forall>t. same_walk s t \<longrightarrow> (\<exists>t'. get_next_ip_loop t = Some (fst r, t') \<and> same_walk (snd r) t' \<and> send_counts t' = send_counts t)"
  proof (rule get_next_ip_loop.raw_induct [OF _ r, where P = "\<lambda>s r. \<forall>t. same_walk s t \<longrightarrow>
      (\<exists>t'. get_next_ip_loop t = Some (fst r, t') \<and> same_walk (snd r) t' \<and> send_counts t' = send_counts t)"], intro allI impI)
    fix loop s r t
    assume IH: "\<And>s r. loop s = Some r \<Longrightarrow> \<forall>t. same_walk s t \<longrightarrow>
        (\<exists>t'. get_next_ip_loop t = Some (fst r, t') \<and> same_walk (snd r) t' \<and> send_counts t' = send_counts t)"
      and b: "Option.bind (next_elem (factor (params s)) (modulus (params s)) (current s)) (\<lambda>c.
       let s = s\<lparr>current := c\<rparr>; candidate = (ucast c :: u32)
       in if ucast candidate = last_elem (params s)
          then Some (XM_SHARD_DONE, s\<lparr>current := ucast XM_SHARD_DONE\<rparr>)
          else if ucast (candidate - 1) < max_index s
          then Some (shard_lookup (s\<lparr>state := (state s)\<lparr>whitelisted := whitelisted (state s) + 1\<rparr>\<rparr>)
                 (ucast (candidate - 1)))
          else loop (s\<lparr>state := (state s)\<lparr>blacklisted := blacklisted (state s) + 1\<rparr>\<rparr>)) = Some r"
      and same: "same_walk s t"
    obtain c where c: "next_elem (factor (params s)) (modulus (params s)) (current s) = Some c"
      using b by (cases "next_elem (factor (params s)) (modulus (params s)) (current s)") simp_all
    have walk: "params t = params s" "current t = current s" "max_index t = max_index s" "wblist t = wblist s"
      using same by (simp_all add: same_walk_def)
    let ?fin = "ucast (ucast c :: u32) = last_elem (params s)" and ?hit = "ucast (ucast c - 1 :: u32) < max_index s"
    let ?stopped = "\<lambda>s. s\<lparr>current := ucast XM_SHARD_DONE\<rparr>"
    let ?found = "\<lambda>s. shard_lookup (s\<lparr>current := c, state := (state s)\<lparr>whitelisted := whitelisted (state s) + 1\<rparr>\<rparr>)
      (ucast (ucast c - 1 :: u32))"
    let ?b = "\<lambda>s. s\<lparr>current := c, state := (state s)\<lparr>blacklisted := blacklisted (state s) + 1\<rparr>\<rparr>"
    have t: "get_next_ip_loop t = (if ?fin then Some (XM_SHARD_DONE, ?stopped t) else if ?hit then Some (?found t)
        else get_next_ip_loop (?b t))"
      by (subst get_next_ip_loop.simps) (simp add: c walk Let_def)
    have s: "Some r = (if ?fin then Some (XM_SHARD_DONE, ?stopped s) else if ?hit then Some (?found s) else loop (?b s))"
      using b by (auto simp: c Let_def split: if_splits)
    have marks: "same_walk (?stopped s) (?stopped t)" "send_counts (?stopped t) = send_counts t"
      "fst (?found s) = fst (?found t)" "same_walk (snd (?found s)) (snd (?found t))" "send_counts (snd (?found t)) = send_counts t"
      "same_walk (?b s) (?b t)" "send_counts (?b t) = send_counts t"
      by (auto simp: same_walk_def send_counts_def shard_lookup_def walk split: prod.split)
    show "\<exists>t'. get_next_ip_loop t = Some (fst r, t') \<and> same_walk (snd r) t' \<and> send_counts t' = send_counts t"
    proof (cases "\<not> ?fin \<and> \<not> ?hit")
      case True
      then have "loop (?b s) = Some r" "get_next_ip_loop t = get_next_ip_loop (?b t)" using s t by simp_all
      then show ?thesis using IH marks(6,7) by metis
    next
      case False
      then show ?thesis using s t marks(1-5) by (cases ?fin) (auto simp: prod_eq_iff)
    qed
  qed
  then show "same_walk s t \<Longrightarrow> ?thesis" by blast
qed

lemma next_ip_same:
  assumes "xm_shard_get_next_ip s = Some (ip, s')" "same_walk s t"
  shows "\<exists>t'. xm_shard_get_next_ip t = Some (ip, t') \<and> same_walk s' t' \<and> send_counts t' = send_counts t"
proof (cases "current s = ucast XM_SHARD_DONE")
  case True
  then show ?thesis using assms by (auto simp: xm_shard_get_next_ip_def same_walk_def)
next
  case False
  then show ?thesis
    using loop_same [of s "(ip, s')" t] assms by (auto simp: xm_shard_get_next_ip_def same_walk_def)
qed

fun emits :: "xm_shard \<Rightarrow> u32 list \<Rightarrow> bool" where
  "emits s [] \<longleftrightarrow> (\<exists>s'. xm_shard_get_next_ip s = Some (XM_SHARD_DONE, s'))"
| "emits s (ip # ips) \<longleftrightarrow> ip \<noteq> XM_SHARD_DONE \<and> (\<exists>s'. xm_shard_get_next_ip s = Some (ip, s') \<and> emits s' ips)"

lemma emits_same: "emits s ips \<Longrightarrow> same_walk s t \<Longrightarrow> emits t ips"
proof (induction ips arbitrary: s t)
  case Nil
  then show ?case using next_ip_same by fastforce
next
  case (Cons ip ips)
  then obtain s' where "xm_shard_get_next_ip s = Some (ip, s')" "emits s' ips" "ip \<noteq> XM_SHARD_DONE" by auto
  then show ?case using next_ip_same [OF _ Cons.prems(2)] Cons.IH by fastforce
qed

lemma shard_ips_emits: "shard_ips n s = Some ips \<Longrightarrow> emits s ips"
proof (induction n arbitrary: s ips)
  case (Suc n)
  then show ?case by (auto split: option.splits if_splits)
qed simp

lemma same_walk_counts [simp]:
  "same_walk s (count_tried t) = same_walk s t" "same_walk s (count_sent t) = same_walk s t"
  "same_walk s (count_failure t) = same_walk s t"
  by (simp_all add: same_walk_def count_tried_def count_sent_def count_failure_def)

lemma same_walk_refl [simp]: "same_walk s s"
  by (simp add: same_walk_def)

section \<open>The run of a task\<close>

text \<open>The addresses a sender wants: all, or those on the list it was given.\<close>

definition wanted :: "xm_context \<Rightarrow> u32 \<Rightarrow> bool" where
  "wanted ctx x \<longleftrightarrow> list_of_ips_filename ctx = None \<or> xm_pbm_check (the (list_of_ips_pbm ctx)) x"

lemma next_ip_counts: "xm_shard_get_next_ip s = Some (ip, s') \<Longrightarrow> send_counts s' = send_counts s"
  using next_ip_same [of s ip s' s] by auto

lemma roll_listed_emits:
  "emits shard ips \<Longrightarrow>
   (case filter (xm_pbm_check lst) (ip # ips) of
      [] \<Rightarrow> \<exists>sh. roll_listed lst ip shard = Some (Inl sh) \<and> sent (state sh) = sent (state shard)
    | x # xs \<Rightarrow> \<exists>sh rest. roll_listed lst ip shard = Some (Inr (x, sh)) \<and> emits sh rest \<and>
        xs = filter (xm_pbm_check lst) rest \<and> length rest \<le> length ips \<and> x \<in> set (ip # ips) \<and>
        sent (state sh) = sent (state shard) \<and> max_targets (state sh) = max_targets (state shard))"
proof (induction ips arbitrary: ip shard)
  case Nil
  then obtain s' where n: "xm_shard_get_next_ip shard = Some (XM_SHARD_DONE, s')" by auto
  show ?case
  proof (cases "xm_pbm_check lst ip")
    case True
    then show ?thesis using Nil by (subst roll_listed.simps) (auto intro: exI [of _ "[]"])
  next
    case False
    then show ?thesis using next_ip_counts [OF n]
      by (subst roll_listed.simps) (simp add: n Let_def count_tried_def send_counts_def)
  qed
next
  case (Cons i ips)
  then obtain s' where n: "xm_shard_get_next_ip shard = Some (i, s')" "emits s' ips" "i \<noteq> XM_SHARD_DONE" by auto
  show ?case
  proof (cases "xm_pbm_check lst ip")
    case True
    then show ?thesis using Cons.prems by (subst roll_listed.simps) (auto intro!: exI [of _ "i # ips"])
  next
    case False
    have e: "emits (count_tried s') ips" using n(2) by (rule emits_same) simp
    have sent: "sent (state (count_tried s')) = sent (state shard)"
      "max_targets (state (count_tried s')) = max_targets (state shard)"
      using next_ip_counts [OF n(1)] by (simp_all add: count_tried_def send_counts_def)
    have "roll_listed lst ip shard = roll_listed lst i (count_tried s')"
      using False n by (subst roll_listed.simps) (simp add: Let_def)
    then show ?thesis using Cons.IH [OF e, of i] False sent by (fastforce split: list.splits if_splits)
  qed
qed

lemma to_listed_emits:
  assumes "emits shard ips"
  shows "case filter (wanted ctx) (ip # ips) of
      [] \<Rightarrow> \<exists>sh. to_listed ctx ip shard = Some (Inl sh) \<and> sent (state sh) = sent (state shard)
    | x # xs \<Rightarrow> \<exists>sh rest. to_listed ctx ip shard = Some (Inr (x, sh)) \<and> emits sh rest \<and>
        xs = filter (wanted ctx) rest \<and> length rest \<le> length ips \<and> x \<in> set (ip # ips) \<and>
        sent (state sh) = sent (state shard) \<and> max_targets (state sh) = max_targets (state shard) \<and>
        (list_of_ips_filename ctx = None \<longrightarrow> sh = shard)"
proof (cases "list_of_ips_filename ctx")
  case None
  then have "wanted ctx = (\<lambda>x. True)" by (simp add: wanted_def fun_eq_iff)
  then show ?thesis using assms None by (auto simp: to_listed_def intro!: exI [of _ ips])
next
  case (Some f)
  then have w: "wanted ctx = xm_pbm_check (the (list_of_ips_pbm ctx))"
    and t: "to_listed ctx ip shard = roll_listed (the (list_of_ips_pbm ctx)) ip shard"
    by (simp_all add: wanted_def fun_eq_iff to_listed_def)
  show ?thesis
    using roll_listed_emits [OF assms, of "the (list_of_ips_pbm ctx)" ip] Some unfolding w t
    by (auto split: list.splits simp del: filter.simps)
qed

text \<open>How many of the addresses the limit on targets leaves.\<close>

definition within_limit :: "xm_shard \<Rightarrow> u32 list \<Rightarrow> u32 list" where
  "within_limit shard xs =
     (if max_targets (state shard) = 0 then xs
      else take (unat (max_targets (state shard)) - unat (sent (state shard))) xs)"

definition frames_for :: "xm_context \<Rightarrow> validate_state \<Rightarrow> u32 list \<Rightarrow> (u32 \<times> u8 list) list list \<Rightarrow> bool" where
  "frames_for ctx vs ds fs \<longleftrightarrow>
     list_all2 (\<lambda>d f. list_all2 (\<lambda>i e. frame_ok ctx vs d i (snd e)) [0..packet_streams ctx - 1] f) ds fs"

definition limit_ok :: "xm_context \<Rightarrow> xm_shard \<Rightarrow> bool" where
  "limit_ok ctx shard \<longleftrightarrow> max_targets (state shard) = 0 \<or>
     list_of_ips_filename ctx = None \<and> tried_sent (state shard) = sent (state shard)"

lemma within_limit_cong:
  "max_targets (state sh) = max_targets (state sh') \<Longrightarrow> sent (state sh) = sent (state sh') \<Longrightarrow>
   within_limit sh xs = within_limit sh' xs"
  by (simp add: within_limit_def)

lemma not_reached:
  assumes "limit_ok ctx shard" "\<not> targets_reached (state shard)"
  shows "within_limit shard (ip # xs) = ip # within_limit (count_sent shard) xs" and "limit_ok ctx (count_sent shard)"
proof -
  have "unat (sent (state shard) + 1) = unat (sent (state shard)) + 1" if "max_targets (state shard) \<noteq> 0"
    using assms(2) that unat_lt_u32 [of "max_targets (state shard)"]
    by (subst unat_add_small) (auto simp: targets_reached_def word_le_nat_alt)
  moreover have "unat (sent (state shard)) < unat (max_targets (state shard))" if "max_targets (state shard) \<noteq> 0"
    using assms(2) that by (auto simp: targets_reached_def word_le_nat_alt not_le)
  ultimately show "within_limit shard (ip # xs) = ip # within_limit (count_sent shard) xs"
    by (cases "max_targets (state shard) = 0")
      (simp_all add: within_limit_def count_sent_def count_tried_def take_Cons' flip: diff_Suc_eq_diff_pred)
  show "limit_ok ctx (count_sent shard)" using assms(1) by (auto simp: limit_ok_def count_sent_def count_tried_def)
qed

lemma reached:
  assumes "limit_ok ctx shard" "targets_reached (state shard)"
  shows "within_limit shard xs = []"
  using assms by (auto simp: limit_ok_def targets_reached_def within_limit_def word_le_nat_alt)

lemma loop_done: "send_loop ctx st sw n XM_SHARD_DONE s = Some (Inr s)"
  by (subst send_loop.simps) simp

text \<open>One turn of the loop: the frames of an address, and what follows when the next one is found.\<close>

lemma loop_turns:
  assumes "send_ctx ctx" "takes_all sw" "\<forall>n. \<not> recv_completed sw n" "max_runtime ctx = 0"
    "ip \<noteq> XM_SHARD_DONE" "send_ready ctx vs s" "\<not> targets_reached (state (send_shard s))"
  shows "\<exists>s1 f. list_all2 (\<lambda>i e. frame_ok ctx vs ip i (snd e)) [0..packet_streams ctx - 1] f \<and>
    send_log s1 = send_log s @ f \<and> send_ready ctx vs s1 \<and> send_shard s1 = send_shard s \<and>
    send_loop ctx (static_of ctx st) sw n ip s =
      Option.bind (xm_shard_get_next_ip (count_sent (send_shard s))) (\<lambda>(ip, shard).
        if ip = XM_SHARD_DONE then send_loop ctx (static_of ctx st) sw (Suc n) ip (s1\<lparr>send_shard := shard\<rparr>)
        else Option.bind (to_listed ctx ip shard) (\<lambda>r.
          case r of Inl shard \<Rightarrow> Some (Inr (s1\<lparr>send_shard := shard\<rparr>))
          | Inr (ip, shard) \<Rightarrow> send_loop ctx (static_of ctx st) sw (Suc n) ip (s1\<lparr>send_shard := shard\<rparr>)))"
proof -
  obtain s1 f where 1: "send_streams ctx (static_of ctx st) sw ip [0..packet_streams ctx - 1] s = Inr s1"
    "list_all2 (\<lambda>i e. frame_ok ctx vs ip i (snd e)) [0..packet_streams ctx - 1] f"
    "send_log s1 = send_log s @ f" "send_ready ctx vs s1" "send_shard s1 = send_shard s"
    using send_streams_logs [OF assms(1,2,6)] by blast
  show ?thesis
    unfolding send_loop.simps [of ctx "static_of ctx st" sw n ip s]
    using assms(3-5,7) 1 by (intro exI [of _ s1] exI [of _ f]) simp
qed

lemma emits_not_done: "emits sh xs \<Longrightarrow> XM_SHARD_DONE \<notin> set xs"
  by (induction xs arbitrary: sh) auto

lemma sent_counted: "sent (state (count_sent sh)) = sent (state sh) + 1"
  by (simp add: count_sent_def count_tried_def)

lemma loop_targets:
  assumes "send_ctx ctx" "takes_all sw" "\<forall>n. \<not> recv_completed sw n" "max_runtime ctx = 0"
  shows "emits (send_shard s) ips \<Longrightarrow> ip \<noteq> XM_SHARD_DONE \<Longrightarrow> send_ready ctx vs s \<Longrightarrow> limit_ok ctx (send_shard s) \<Longrightarrow>
    \<exists>s' fs. send_loop ctx (static_of ctx st) sw n ip s = Some (Inr s') \<and> send_log s' = send_log s @ concat fs \<and>
      frames_for ctx vs (within_limit (send_shard s) (ip # filter (wanted ctx) ips)) fs \<and>
      sent (state (send_shard s')) = sent (state (send_shard s)) + of_nat (length fs)"
proof (induction "length ips" arbitrary: ips ip s n rule: less_induct)
  case less
  show ?case
  proof (cases "targets_reached (state (send_shard s))")
    case True
    then have "send_loop ctx (static_of ctx st) sw n ip s = Some (Inr s)" using assms(3) by (subst send_loop.simps) simp
    then show ?thesis
      using reached [OF less.prems(4) True] by (intro exI [of _ s] exI [of _ "[]"]) (simp add: frames_for_def)
  next
    case False
    note lim = not_reached [OF less.prems(4) False]
    obtain s1 f where 1: "list_all2 (\<lambda>i e. frame_ok ctx vs ip i (snd e)) [0..packet_streams ctx - 1] f"
      "send_log s1 = send_log s @ f" "send_ready ctx vs s1" "send_shard s1 = send_shard s"
      and step: "send_loop ctx (static_of ctx st) sw n ip s =
        Option.bind (xm_shard_get_next_ip (count_sent (send_shard s))) (\<lambda>(ip, shard).
          if ip = XM_SHARD_DONE then send_loop ctx (static_of ctx st) sw (Suc n) ip (s1\<lparr>send_shard := shard\<rparr>)
          else Option.bind (to_listed ctx ip shard) (\<lambda>r.
            case r of Inl shard \<Rightarrow> Some (Inr (s1\<lparr>send_shard := shard\<rparr>))
            | Inr (ip, shard) \<Rightarrow> send_loop ctx (static_of ctx st) sw (Suc n) ip (s1\<lparr>send_shard := shard\<rparr>)))"
      using loop_turns [OF assms less.prems(2,3) False] by blast
    have em: "emits (count_sent (send_shard s)) ips" using less.prems(1) by (rule emits_same) simp
    show ?thesis
    proof (cases ips)
      case Nil
      then obtain sh where n: "xm_shard_get_next_ip (count_sent (send_shard s)) = Some (XM_SHARD_DONE, sh)" using em by auto
      then have "send_loop ctx (static_of ctx st) sw n ip s = Some (Inr (s1\<lparr>send_shard := sh\<rparr>))"
        using step by (simp add: loop_done)
      moreover have "sent (state sh) = sent (state (send_shard s)) + 1"
        using next_ip_counts [OF n] by (simp add: send_counts_def sent_counted)
      ultimately show ?thesis using 1 lim(1) Nil
        by (intro exI [of _ "s1\<lparr>send_shard := sh\<rparr>"] exI [of _ "[f]"]) (simp add: frames_for_def within_limit_def)
    next
      case (Cons i ips')
      then obtain sh where n: "xm_shard_get_next_ip (count_sent (send_shard s)) = Some (i, sh)" "i \<noteq> XM_SHARD_DONE" "emits sh ips'"
        using em by auto
      have counts: "send_counts sh = send_counts (count_sent (send_shard s))" by (rule next_ip_counts [OF n(1)])
      note l = to_listed_emits [OF n(3), of ctx i]
      show ?thesis
      proof (cases "filter (wanted ctx) ips")
        case Nil
        then obtain sh' where t: "to_listed ctx i sh = Some (Inl sh')" "sent (state sh') = sent (state sh)"
          using l Cons by auto
        then have "send_loop ctx (static_of ctx st) sw n ip s = Some (Inr (s1\<lparr>send_shard := sh'\<rparr>))"
          using step n by simp
        moreover have "sent (state sh') = sent (state (send_shard s)) + 1" using counts t(2) by (simp add: send_counts_def sent_counted)
        ultimately show ?thesis using 1 lim(1) Nil
          by (intro exI [of _ "s1\<lparr>send_shard := sh'\<rparr>"] exI [of _ "[f]"]) (simp add: frames_for_def within_limit_def)
      next
        case w: (Cons x xs)
        then obtain sh' rest where t: "to_listed ctx i sh = Some (Inr (x, sh'))" "emits sh' rest"
          "xs = filter (wanted ctx) rest" "length rest \<le> length ips'" "x \<in> set ips" "sent (state sh') = sent (state sh)"
          "list_of_ips_filename ctx = None \<longrightarrow> sh' = sh" "max_targets (state sh') = max_targets (state sh)"
          using l Cons by auto
        let ?s = "s1\<lparr>send_shard := sh'\<rparr>"
        have x: "x \<noteq> XM_SHARD_DONE" using emits_not_done [OF em] t(5) by blast
        have same: "max_targets (state sh') = max_targets (state (count_sent (send_shard s)))"
          "sent (state sh') = sent (state (count_sent (send_shard s)))"
          using t(6,8) counts by (simp_all add: send_counts_def)
        have "limit_ok ctx sh'"
          using lim(2) same t(7) counts by (auto simp: limit_ok_def send_counts_def)
        moreover have "length rest < length ips" using t(4) Cons by simp
        moreover have "send_ready ctx vs ?s" using 1(3) by (simp add: send_ready_def)
        ultimately obtain s' fs where IH: "send_loop ctx (static_of ctx st) sw (Suc n) x ?s = Some (Inr s')"
          "send_log s' = send_log s1 @ concat fs" "frames_for ctx vs (within_limit sh' (x # filter (wanted ctx) rest)) fs"
          "sent (state (send_shard s')) = sent (state sh') + of_nat (length fs)"
          using less.hyps [of rest ?s x "Suc n"] t(2) x by auto
        have "send_loop ctx (static_of ctx st) sw n ip s = Some (Inr s')" using step n t(1) IH(1) by simp
        moreover have "within_limit (send_shard s) (ip # filter (wanted ctx) ips) = ip # within_limit sh' (x # filter (wanted ctx) rest)"
          using lim(1) within_limit_cong [OF same] w t(3) by simp
        ultimately show ?thesis using IH 1(1,2) same(2)
          by (intro exI [of _ s'] exI [of _ "f # fs"]) (simp add: frames_for_def sent_counted)
      qed
    qed
  qed
qed

end
