(* ===== verification/Corepool.thy ===== *)
theory Corepool
  imports Prelude
begin

text \<open>
  The pool of cores that runs the tasks, \<open>lib/thread/xm_core_pool.c\<close> and \<open>xm_task.c\<close>: the cores of
  the machine that the mask enables, the first of them for the master and the others for one
  task each, and the protocol by which the master starts the threads of the others and waits for
  them, as a step relation.  What the system knows of its processors is an argument.
\<close>

unbundle bit_operations_syntax

section \<open>State\<close>

datatype core_state = WAITING | RUNNING | FINISHED

text \<open>A task is its number.\<close>

record xm_core =
  core_id :: nat
  socket :: nat
  core_idx :: nat
  core_st :: core_state
  enabled :: bool
  core_tsk :: "nat option"

text \<open>The array of cores is the list of its first \<open>sys_core_count\<close> entries; the master is an index.\<close>

record xm_core_pool =
  cores :: "xm_core list"
  config_core_count :: nat
  master_core :: "nat option"

record machine =
  cpu_present :: "nat \<Rightarrow> bool"
  node_has_cpu :: "nat \<Rightarrow> nat \<Rightarrow> bool"
  thread_made :: "nat \<Rightarrow> bool"

definition XM_CORE_MAX :: nat where "XM_CORE_MAX = 256"
definition XM_MAX_NUMA_NODES :: nat where "XM_MAX_NUMA_NODES = 64"

abbreviation sys_core_count :: "xm_core_pool \<Rightarrow> nat" where
  "sys_core_count cp \<equiv> length (cores cp)"

section \<open>The cores\<close>

definition core_create :: "nat \<Rightarrow> nat \<Rightarrow> xm_core" where
  "core_create cid idx = \<lparr>core_id = cid, socket = 0, core_idx = idx, core_st = WAITING, enabled = False, core_tsk = None\<rparr>"

definition get_cpu_socket_id :: "machine \<Rightarrow> nat \<Rightarrow> nat" where
  "get_cpu_socket_id mach cid =
     (case List.find (\<lambda>s. node_has_cpu mach s cid) [0..<XM_MAX_NUMA_NODES] of Some s \<Rightarrow> s | None \<Rightarrow> 0)"

definition core_pool_init :: "machine \<Rightarrow> xm_core_pool option" where
  "core_pool_init mach =
     (let cs = fold (\<lambda>cid cs. if cpu_present mach cid
                then cs @ [(core_create cid (length cs))\<lparr>socket := get_cpu_socket_id mach cid\<rparr>] else cs)
              [0..<XM_CORE_MAX] []
      in if cs = [] then None else Some \<lparr>cores = cs, config_core_count = 0, master_core = None\<rparr>)"

text \<open>\<open>xm_next_core_get\<close>: the next enabled core behind \<open>idx\<close>.\<close>

definition xm_next_core_get :: "xm_core_pool \<Rightarrow> bool \<Rightarrow> int \<Rightarrow> nat option" where
  "xm_next_core_get cp skip_master idx =
     List.find (\<lambda>i. \<not> ((Some i = master_core cp \<and> skip_master) \<or> \<not> enabled (cores cp ! i)))
       [nat (idx + 1)..<sys_core_count cp]"

text \<open>The indexes that \<open>CPOOL_CORE_FOREACH_SLAVE\<close> goes through.\<close>

partial_function (option) foreach_slave :: "xm_core_pool \<Rightarrow> int \<Rightarrow> nat list option" where
  "foreach_slave cp idx =
     (case xm_next_core_get cp True idx of
        None \<Rightarrow> Some []
      | Some i \<Rightarrow> Option.bind (foreach_slave cp (int (core_idx (cores cp ! i)))) (\<lambda>is. Some (i # is)))"

section \<open>The mask\<close>

definition is_blank :: "char \<Rightarrow> bool" where
  "is_blank c \<longleftrightarrow> c = CHR '' '' \<or> c = CHR 0x09"

abbreviation code_of :: "char \<Rightarrow> nat" where "code_of c \<equiv> of_char c"

definition is_xdigit :: "char \<Rightarrow> bool" where
  "is_xdigit c \<longleftrightarrow> 48 \<le> code_of c \<and> code_of c \<le> 57 \<or> 65 \<le> code_of c \<and> code_of c \<le> 70 \<or> 97 \<le> code_of c \<and> code_of c \<le> 102"

definition xdigit2val :: "char \<Rightarrow> nat" where
  "xdigit2val c =
     (if 48 \<le> code_of c \<and> code_of c \<le> 57 then code_of c - 48
      else if 65 \<le> code_of c \<and> code_of c \<le> 90 then code_of c - 65 + 10
      else code_of c - 97 + 10)"

text \<open>The text without the blanks around it and the prefix.\<close>

definition trim_mask :: "string \<Rightarrow> string" where
  "trim_mask s =
     (let s = dropWhile is_blank s;
          s = (case s of c # d # r \<Rightarrow> if c = CHR ''0'' \<and> (d = CHR ''x'' \<or> d = CHR ''X'') then r else s | _ \<Rightarrow> s)
      in rev (dropWhile is_blank (rev s)))"

text \<open>The bits of a digit, as many as there are cores; the state is the index, the cores and the count.\<close>

fun mask_bits :: "nat \<Rightarrow> nat list \<Rightarrow> nat \<times> xm_core list \<times> nat \<Rightarrow> nat \<times> xm_core list \<times> nat" where
  "mask_bits val [] r = r"
| "mask_bits val (j # js) (idx, cs, count) =
     (if idx < length cs
      then mask_bits val js
        (idx + 1, cs[idx := (cs ! idx)\<lparr>enabled := bit val j\<rparr>], if bit val j then count + 1 else count)
      else (idx, cs, count))"

text \<open>The loop over the digits, the last one first; it leaves the digits beyond the last core.\<close>

fun mask_digits :: "string \<Rightarrow> nat \<times> xm_core list \<times> nat \<Rightarrow> (string \<times> nat \<times> xm_core list \<times> nat) option" where
  "mask_digits [] r = Some ([], r)"
| "mask_digits (c # ds) (idx, cs, count) =
     (if idx \<ge> length cs then Some (c # ds, idx, cs, count)
      else if \<not> is_xdigit c then None
      else mask_digits ds (mask_bits (xdigit2val c) [0..<4] (idx, cs, count)))"

definition parse_coremask :: "xm_core_pool \<Rightarrow> string \<Rightarrow> xm_core_pool option" where
  "parse_coremask cp coremask =
     (let ds = trim_mask coremask
      in if ds = [] then None
         else case mask_digits (rev ds) (0, cores cp, 0) of
                None \<Rightarrow> None
              | Some (rest, idx, cs, count) \<Rightarrow>
                  if \<exists>c \<in> set rest. c \<noteq> CHR ''0'' then None
                  else if count = 0 then None
                  else Some (cp\<lparr>cores := take idx cs @ map (\<lambda>c. c\<lparr>enabled := False\<rparr>) (drop idx cs),
                         config_core_count := count\<rparr>))"

section \<open>Creating the pool and binding tasks\<close>

definition master_thread_init :: "xm_core_pool \<Rightarrow> xm_core_pool option" where
  "master_thread_init cp =
     (case xm_next_core_get cp False (- 1) of
        None \<Rightarrow> None
      | Some i \<Rightarrow> Some (cp\<lparr>master_core := Some i, cores := (cores cp)[i := (cores cp ! i)\<lparr>core_tsk := None\<rparr>]\<rparr>))"

definition slave_threads_create :: "machine \<Rightarrow> xm_core_pool \<Rightarrow> xm_core_pool option" where
  "slave_threads_create mach cp =
     Option.bind (foreach_slave cp (- 1)) (\<lambda>is.
       if \<forall>i \<in> set is. thread_made mach i
       then Some (cp\<lparr>cores := fold (\<lambda>i cs. cs[i := (cs ! i)\<lparr>core_st := WAITING\<rparr>]) is (cores cp)\<rparr>)
       else None)"

definition xm_core_pool_create :: "machine \<Rightarrow> string option \<Rightarrow> xm_core_pool option" where
  "xm_core_pool_create mach core_mask =
     Option.bind (core_pool_init mach) (\<lambda>cp.
     Option.bind (Option.bind core_mask (parse_coremask cp)) (\<lambda>cp.
     Option.bind (master_thread_init cp) (\<lambda>cp.
     slave_threads_create mach cp)))"

definition alloc_core :: "xm_core_pool \<Rightarrow> nat option" where
  "alloc_core cp = Option.bind (foreach_slave cp (- 1)) (List.find (\<lambda>i. core_tsk (cores cp ! i) = None))"

definition xm_core_pool_bind_task :: "xm_core_pool \<Rightarrow> nat \<Rightarrow> xm_core_pool option" where
  "xm_core_pool_bind_task cp tsk =
     (case alloc_core cp of
        None \<Rightarrow> None
      | Some i \<Rightarrow> Some (cp\<lparr>cores := (cores cp)[i := (cores cp ! i)\<lparr>core_tsk := Some tsk\<rparr>]\<rparr>))"

section \<open>What the mask selects\<close>

fun put_bits :: "xm_core list \<Rightarrow> nat \<Rightarrow> bool list \<Rightarrow> xm_core list" where
  "put_bits cs idx [] = cs"
| "put_bits cs idx (b # bs) = put_bits (cs[idx := (cs ! idx)\<lparr>enabled := b\<rparr>]) (Suc idx) bs"

lemma put_bits_nth:
  "length (put_bits cs idx bs) = length cs"
  "i < length cs \<Longrightarrow> put_bits cs idx bs ! i =
     (if idx \<le> i \<and> i < idx + length bs then (cs ! i)\<lparr>enabled := bs ! (i - idx)\<rparr> else cs ! i)"
  by (induction cs idx bs rule: put_bits.induct) (auto simp: nth_list_update nth_Cons' Suc_le_eq dest: le_neq_implies_less split: if_splits)

lemma put_bits_append: "put_bits cs idx (as @ bs) = put_bits (put_bits cs idx as) (idx + length as) bs"
  by (induction cs idx as rule: put_bits.induct) simp_all

definition digit_bits :: "char \<Rightarrow> bool list" where
  "digit_bits c = map (bit (xdigit2val c)) [0..<4]"

lemma mask_bits_put:
  assumes "idx \<le> length cs"
  shows "mask_bits val js (idx, cs, count) =
    (let bs = take (length cs - idx) (map (bit val) js)
     in (idx + length bs, put_bits cs idx bs, count + length (filter id bs)))"
  using assms
proof (induction js arbitrary: idx cs count)
  case (Cons j js)
  show ?case
  proof (cases "idx < length cs")
    case True
    then have "length cs - idx = Suc (length cs - Suc idx)" by simp
    then show ?thesis using True Cons.IH [of "Suc idx" "cs[idx := (cs ! idx)\<lparr>enabled := bit val j\<rparr>]"]
      by (simp add: Let_def)
  qed (use Cons.prems in simp)
qed simp

text \<open>The number of digits the loop looks at.\<close>

definition digits_for :: "nat \<Rightarrow> nat" where
  "digits_for n = (n + 3) div 4"

lemma digits_for_Suc: "0 < n \<Longrightarrow> digits_for n = Suc (digits_for (n - 4))"
proof (cases "n < 4")
  case False
  then obtain m where "n = 4 + m" using le_Suc_ex by (metis not_less)
  then show ?thesis by (simp add: digits_for_def)
next
  case True
  moreover assume "0 < n"
  ultimately have "n = 1 \<or> n = 2 \<or> n = 3" by arith
  then show ?thesis by (auto simp: digits_for_def)
qed

lemma mask_digits_put:
  assumes "idx \<le> length cs"
  shows "mask_digits ds (idx, cs, count) =
    (let k = digits_for (length cs - idx); bs = take (length cs - idx) (concat (map digit_bits (take k ds)))
     in if \<forall>c \<in> set (take k ds). is_xdigit c
        then Some (drop k ds, idx + length bs, put_bits cs idx bs, count + length (filter id bs)) else None)"
  using assms
proof (induction ds arbitrary: idx cs count)
  case (Cons c ds)
  show ?case
  proof (cases "idx < length cs")
    case True
    let ?n = "length cs - idx"
    define bs where "bs = take ?n (digit_bits c)"
    have k: "digits_for ?n = Suc (digits_for (?n - 4))" using True by (intro digits_for_Suc) simp
    have len: "length bs = min ?n 4" by (simp add: bs_def digit_bits_def)
    have m: "mask_bits (xdigit2val c) [0..<4] (idx, cs, count) =
        (idx + length bs, put_bits cs idx bs, count + length (filter id bs))"
      using mask_bits_put [of idx cs "xdigit2val c" "[0..<4]" count] True
      by (simp add: Let_def digit_bits_def bs_def)
    have rest: "length cs - (idx + length bs) = ?n - 4" using len by simp
    have "idx + length bs \<le> length (put_bits cs idx bs)" using len True by (simp add: put_bits_nth)
    note IH = Cons.IH [OF this, unfolded put_bits_nth(1) rest]
    have take_bs: "take ?n (digit_bits c @ xs) = bs @ take (?n - 4) xs" for xs
      by (simp add: digit_bits_def bs_def)
    show ?thesis
      using True by (simp add: m IH k take_bs Let_def put_bits_append add.assoc del: take_append)
  qed (use Cons.prems in \<open>simp add: digits_for_def\<close>)
qed (simp add: digits_for_def Let_def)

text \<open>The number a mask stands for, from its digits with the last one first.\<close>

fun mask_value :: "string \<Rightarrow> nat" where
  "mask_value [] = 0"
| "mask_value (c # ds) = xdigit2val c + 16 * mask_value ds"

lemma xdigit2val_lt: "is_xdigit c \<Longrightarrow> xdigit2val c < 16"
  by (auto simp: is_xdigit_def xdigit2val_def)

lemma length_digit_bits [simp]: "length (concat (map digit_bits ds)) = 4 * length ds"
  by (induction ds) (simp_all add: digit_bits_def)

lemma bit_add_16: "d < 16 \<Longrightarrow> bit (d + 16 * v :: nat) i = (if i < 4 then bit d i else bit v (i - 4))"
proof -
  assume d: "d < 16"
  have e: "d = take_bit 4 (d + 16 * v)" "v = drop_bit 4 (d + 16 * v)"
    using d by (simp_all add: take_bit_eq_mod drop_bit_eq_div)
  have "bit d i = bit (d + 16 * v) i" if "i < 4" using that by (subst e(1)) (simp add: bit_take_bit_iff)
  moreover have "bit v (i - 4) = bit (d + 16 * v) i" if "\<not> i < 4" using that by (subst e(2)) (simp add: bit_drop_bit_eq)
  ultimately show ?thesis by simp
qed

lemma digit_bits_value:
  assumes "\<forall>c \<in> set (take k ds). is_xdigit c" "i < 4 * min k (length ds)"
  shows "concat (map digit_bits (take k ds)) ! i = bit (mask_value ds) i"
  using assms
proof (induction ds arbitrary: i k)
  case (Cons c ds)
  then obtain j where j: "k = Suc j" by (cases k) auto
  have "length (digit_bits c) = 4" by (simp add: digit_bits_def)
  moreover have "digit_bits c ! i = bit (xdigit2val c) i" if "i < 4" using that by (simp add: digit_bits_def)
  ultimately show ?case using Cons.IH [of j "i - 4"] Cons.prems xdigit2val_lt [of c]
    by (simp add: j nth_append bit_add_16)
qed simp

lemma mask_value_bound: "\<forall>c \<in> set ds. is_xdigit c \<Longrightarrow> mask_value ds < 16 ^ length ds"
proof (induction ds)
  case (Cons c ds)
  then show ?case using xdigit2val_lt [of c] by simp
qed simp

lemma bit_mask_value_high:
  assumes "\<forall>c \<in> set ds. is_xdigit c" "4 * length ds \<le> i"
  shows "\<not> bit (mask_value ds) i"
proof -
  have "mask_value ds < 16 ^ length ds" using mask_value_bound [OF assms(1)] .
  also have "(16 :: nat) ^ length ds = 2 ^ (4 * length ds)" by (simp add: power_mult)
  also have "\<dots> \<le> 2 ^ i" using assms(2) by (rule power_increasing) simp
  finally show ?thesis by (simp add: bit_iff_odd)
qed

text \<open>A mask that is accepted: hexadecimal as far as there are cores, zero beyond, with a core.\<close>

definition mask_ok :: "nat \<Rightarrow> string \<Rightarrow> bool" where
  "mask_ok n ds \<longleftrightarrow> ds \<noteq> [] \<and> (\<forall>c \<in> set (take (digits_for n) ds). is_xdigit c) \<and>
     (\<forall>c \<in> set (drop (digits_for n) ds). c = CHR ''0'') \<and> (\<exists>i < n. bit (mask_value ds) i)"

lemma parse_mask:
  fixes cp s
  defines "n \<equiv> sys_core_count cp" and "ds \<equiv> rev (trim_mask s)"
  shows "parse_coremask cp s =
    (if mask_ok n ds
     then Some (cp\<lparr>cores := map (\<lambda>i. (cores cp ! i)\<lparr>enabled := bit (mask_value ds) i\<rparr>) [0..<n],
       config_core_count := card {i. i < n \<and> bit (mask_value ds) i}\<rparr>)
     else None)"
proof (cases "\<forall>c \<in> set (take (digits_for n) ds). is_xdigit c")
  case valid: True
  let ?cs = "cores cp"
  define bs where "bs = take n (concat (map digit_bits (take (digits_for n) ds)))"
  have enough: "n \<le> 4 * digits_for n" by (simp add: digits_for_def)
  have len: "length bs = min n (4 * length ds)" using enough by (auto simp: bs_def min_def)
  have bits: "bit (mask_value ds) i = (i < length bs \<and> bs ! i)" if "i < n" for i
  proof (cases "i < length bs")
    case True
    then have "bs ! i = concat (map digit_bits (take (digits_for n) ds)) ! i" by (simp add: bs_def)
    moreover have "i < 4 * digits_for n" "i < 4 * length ds" using True enough that by (simp_all add: len)
    then have "i < 4 * min (digits_for n) (length ds)" by (simp add: min_def)
    ultimately show ?thesis using True digit_bits_value [OF valid, of i] by simp
  next
    case False
    then have "4 * length ds \<le> i" using that by (simp add: len)
    moreover have "\<forall>c \<in> set ds. is_xdigit c" using valid calculation that enough by simp
    ultimately show ?thesis using False bit_mask_value_high by blast
  qed
  have m: "mask_digits ds (0, ?cs, 0) = Some (drop (digits_for n) ds, length bs, put_bits ?cs 0 bs, length (filter id bs))"
    using mask_digits_put [of 0 ?cs ds 0] valid by (simp add: n_def bs_def Let_def)
  have cs: "take (length bs) (put_bits ?cs 0 bs) @ map (\<lambda>c. c\<lparr>enabled := False\<rparr>) (drop (length bs) (put_bits ?cs 0 bs)) =
      map (\<lambda>i. (?cs ! i)\<lparr>enabled := bit (mask_value ds) i\<rparr>) [0..<n]"
    by (rule nth_equalityI) (use len in \<open>auto simp: n_def nth_append put_bits_nth bits [unfolded n_def]\<close>)
  have "length (filter id bs) = card {i. i < length bs \<and> bs ! i}" by (simp add: length_filter_conv_card)
  also have "{i. i < length bs \<and> bs ! i} = {i. i < n \<and> bit (mask_value ds) i}" using bits len by auto
  finally have count: "length (filter id bs) = card {i. i < n \<and> bit (mask_value ds) i}" .
  have "card {i. i < n \<and> bit (mask_value ds) i} = 0 \<longleftrightarrow> \<not> (\<exists>i < n. bit (mask_value ds) i)" by auto
  have empty: "trim_mask s = [] \<longleftrightarrow> ds = []" by (simp add: ds_def)
  have "parse_coremask cp s =
      (if ds = [] then None
       else if \<exists>c \<in> set (drop (digits_for n) ds). c \<noteq> CHR ''0'' then None
       else if card {i. i < n \<and> bit (mask_value ds) i} = 0 then None
       else Some (cp\<lparr>cores := map (\<lambda>i. (?cs ! i)\<lparr>enabled := bit (mask_value ds) i\<rparr>) [0..<n],
         config_core_count := card {i. i < n \<and> bit (mask_value ds) i}\<rparr>))"
    unfolding parse_coremask_def Let_def empty ds_def [symmetric] m option.case prod.case cs count ..
  then show ?thesis using valid \<open>(card _ = 0) \<longleftrightarrow> _\<close> unfolding mask_ok_def by (metis (no_types, lifting))
next
  case False
  have "mask_digits ds (0, cores cp, 0) = None" using mask_digits_put [of 0 "cores cp" ds 0] False by (simp add: n_def Let_def)
  moreover have "trim_mask s = [] \<longleftrightarrow> ds = []" by (simp add: ds_def)
  moreover have "\<not> mask_ok n ds" using False by (simp add: mask_ok_def)
  ultimately show ?thesis by (simp add: parse_coremask_def Let_def ds_def [symmetric])
qed

section \<open>The slaves\<close>

text \<open>Every core knows its place in the array.\<close>

definition pool_ok :: "xm_core_pool \<Rightarrow> bool" where
  "pool_ok cp \<longleftrightarrow> (\<forall>i < sys_core_count cp. core_idx (cores cp ! i) = i)"

definition slaves_of :: "xm_core_pool \<Rightarrow> nat list" where
  "slaves_of cp = filter (\<lambda>i. enabled (cores cp ! i) \<and> Some i \<noteq> master_core cp) [0..<sys_core_count cp]"

lemma find_upt_split:
  assumes "List.find P [a..<n] = Some i"
  shows "a \<le> i" "i < n" "P i" "filter P [a..<n] = i # filter P [Suc i..<n]"
proof -
  obtain j where j: "j < n - a" "P (a + j)" "i = a + j" "\<forall>k < j. \<not> P (a + k)"
    using assms by (auto simp: find_Some_iff)
  then show "a \<le> i" "i < n" "P i" by auto
  have "[a..<n] = [a..<i] @ i # [Suc i..<n]"
    using j upt_add_eq_append [of a i "n - i"] by (simp add: upt_conv_Cons)
  moreover have "filter P [a..<i] = []"
  proof -
    have "\<not> P x" if "a \<le> x" "x < i" for x using j(3,4) that le_Suc_ex [OF that(1)] by auto
    then show ?thesis by (auto simp: filter_empty_conv)
  qed
  ultimately show "filter P [a..<n] = i # filter P [Suc i..<n]" using \<open>P i\<close> by simp
qed

lemma foreach_from:
  assumes "pool_ok cp" "- 1 \<le> idx"
  shows "foreach_slave cp idx =
    Some (filter (\<lambda>i. enabled (cores cp ! i) \<and> Some i \<noteq> master_core cp) [nat (idx + 1)..<sys_core_count cp])"
  using assms(2)
proof (induction "sys_core_count cp - nat (idx + 1)" arbitrary: idx rule: less_induct)
  case less
  let ?P = "\<lambda>i. enabled (cores cp ! i) \<and> Some i \<noteq> master_core cp"
  have next_core: "xm_next_core_get cp True idx = List.find ?P [nat (idx + 1)..<sys_core_count cp]"
    by (simp add: xm_next_core_get_def) (meson)
  show ?case
  proof (cases "List.find ?P [nat (idx + 1)..<sys_core_count cp]")
    case None
    then have "filter ?P [nat (idx + 1)..<sys_core_count cp] = []" by (auto simp: find_None_iff filter_empty_conv)
    then show ?thesis using None by (subst foreach_slave.simps) (simp add: next_core)
  next
    case (Some i)
    note i = find_upt_split [OF Some]
    have "foreach_slave cp (int i) = Some (filter ?P [nat (int i + 1)..<sys_core_count cp])"
      using i(1,2) less.prems by (intro less.hyps) auto
    moreover have "core_idx (cores cp ! i) = i" using assms(1) i(2) by (simp add: pool_ok_def)
    moreover have "nat (int i + 1) = Suc i" by simp
    ultimately show ?thesis using Some i(4) by (subst foreach_slave.simps) (simp add: next_core)
  qed
qed

lemma foreach_slaves: "pool_ok cp \<Longrightarrow> foreach_slave cp (- 1) = Some (slaves_of cp)"
  using foreach_from [of cp "- 1"] by (simp add: slaves_of_def)

lemma slaves_range: "i \<in> set (slaves_of cp) \<Longrightarrow> i < sys_core_count cp" "distinct (slaves_of cp)"
  by (auto simp: slaves_of_def)

section \<open>A created pool\<close>

text \<open>A core that nothing has been done with.\<close>

definition fresh :: "xm_core \<Rightarrow> bool" where
  "fresh c \<longleftrightarrow> core_st c = WAITING \<and> core_tsk c = None"

abbreviation add_cpu :: "machine \<Rightarrow> nat \<Rightarrow> xm_core list \<Rightarrow> xm_core list" where
  "add_cpu mach cid cs \<equiv> if cpu_present mach cid
     then cs @ [(core_create cid (length cs))\<lparr>socket := get_cpu_socket_id mach cid\<rparr>] else cs"

lemma fold_add_cpu:
  assumes "\<forall>i < length cs. core_idx (cs ! i) = i" "\<forall>c \<in> set cs. fresh c"
  shows "(\<forall>i < length (fold (add_cpu mach) ids cs). core_idx (fold (add_cpu mach) ids cs ! i) = i) \<and>
    (\<forall>c \<in> set (fold (add_cpu mach) ids cs). fresh c) \<and>
    map core_id (fold (add_cpu mach) ids cs) = map core_id cs @ filter (cpu_present mach) ids"
  using assms
proof (induction ids arbitrary: cs)
  case (Cons cid ids)
  show ?case
  proof (cases "cpu_present mach cid")
    case True
    let ?cs = "cs @ [(core_create cid (length cs))\<lparr>socket := get_cpu_socket_id mach cid\<rparr>]"
    have "\<forall>i < length ?cs. core_idx (?cs ! i) = i" "\<forall>c \<in> set ?cs. fresh c"
      using Cons.prems by (auto simp: core_create_def fresh_def nth_append less_Suc_eq)
    from Cons.IH [OF this] show ?thesis using True by (simp add: core_create_def)
  next
    case False
    then show ?thesis using Cons.IH [OF Cons.prems] by simp
  qed
qed simp

lemma core_pool_init_ok:
  assumes "core_pool_init mach = Some cp"
  shows "pool_ok cp" "\<forall>c \<in> set (cores cp). fresh c" "map core_id (cores cp) = filter (cpu_present mach) [0..<XM_CORE_MAX]"
    "master_core cp = None"
  using fold_add_cpu [of "[]" mach "[0..<XM_CORE_MAX]"] assms
  by (auto simp: core_pool_init_def pool_ok_def Let_def split: if_splits)

lemma core_pool_init_some:
  assumes "filter (cpu_present mach) [0..<XM_CORE_MAX] \<noteq> []"
  shows "core_pool_init mach \<noteq> None"
  using fold_add_cpu [of "[]" mach "[0..<XM_CORE_MAX]"] assms by (auto simp: core_pool_init_def Let_def)

text \<open>Updates of cores that keep what a loop over the slaves looks at.\<close>

lemma same_slaves:
  assumes "length cs = sys_core_count cp" "\<forall>i < sys_core_count cp. enabled (cs ! i) = enabled (cores cp ! i)"
  shows "slaves_of (cp\<lparr>cores := cs\<rparr>) = slaves_of cp"
  using assms by (auto simp: slaves_of_def intro: filter_cong)

lemma set_waiting_id:
  assumes "\<forall>c \<in> set cs. core_st c = WAITING" "set is \<subseteq> {..<length cs}"
  shows "fold (\<lambda>i cs. cs[i := (cs ! i)\<lparr>core_st := WAITING\<rparr>]) is cs = cs"
  using assms(2)
proof (induction "is")
  case (Cons i "is")
  have "(cs ! i)\<lparr>core_st := WAITING\<rparr> = cs ! i" using assms(1) Cons.prems by simp
  then show ?case using Cons by simp
qed simp

lemma created_pool:
  assumes "xm_core_pool_create mach (Some str) = Some cp"
  defines "on \<equiv> filter (bit (mask_value (rev (trim_mask str)))) [0..<sys_core_count cp]"
  shows "pool_ok cp" "map core_id (cores cp) = filter (cpu_present mach) [0..<XM_CORE_MAX]"
    "\<forall>i < sys_core_count cp. enabled (cores cp ! i) = bit (mask_value (rev (trim_mask str))) i"
    "\<forall>c \<in> set (cores cp). fresh c" "on \<noteq> []" "master_core cp = Some (hd on)" "slaves_of cp = tl on"
proof -
  let ?v = "mask_value (rev (trim_mask str))"
  obtain cp0 cp1 cp2 where steps: "core_pool_init mach = Some cp0" "parse_coremask cp0 str = Some cp1"
    "master_thread_init cp1 = Some cp2" "slave_threads_create mach cp2 = Some cp"
    using assms(1) by (auto simp: xm_core_pool_create_def bind_eq_Some_conv)
  note init = core_pool_init_ok [OF steps(1)]
  let ?n = "sys_core_count cp0"
  have cp1: "cp1 = cp0\<lparr>cores := map (\<lambda>i. (cores cp0 ! i)\<lparr>enabled := bit ?v i\<rparr>) [0..<?n],
      config_core_count := card {i. i < ?n \<and> bit ?v i}\<rparr>"
    using steps(2) parse_mask [of cp0 str] by (auto split: if_splits)
  have ok1: "pool_ok cp1" "sys_core_count cp1 = ?n" "\<forall>i < ?n. enabled (cores cp1 ! i) = bit ?v i"
    "\<forall>c \<in> set (cores cp1). fresh c" "master_core cp1 = None"
    using init(1,2,4) by (auto simp: cp1 pool_ok_def fresh_def)
  have ids: "map core_id (cores cp1) = map core_id (cores cp0)" by (rule nth_equalityI) (simp_all add: cp1)
  obtain i where i: "List.find (\<lambda>i. enabled (cores cp1 ! i)) [0..<?n] = Some i"
    and cp2: "cp2 = cp1\<lparr>master_core := Some i, cores := (cores cp1)[i := (cores cp1 ! i)\<lparr>core_tsk := None\<rparr>]\<rparr>"
    using steps(3) ok1(2) by (auto simp: master_thread_init_def xm_next_core_get_def split: option.splits)
  note found = find_upt_split [OF i]
  have "fresh (cores cp1 ! i)" using ok1(2,4) found(2) by simp
  then have "(cores cp1 ! i)\<lparr>core_tsk := None\<rparr> = cores cp1 ! i" by (simp add: fresh_def)
  then have cp2: "cp2 = cp1\<lparr>master_core := Some i\<rparr>" using cp2 by simp
  have ok2: "pool_ok cp2" using ok1(1) by (simp add: cp2 pool_ok_def)
  have "\<forall>c \<in> set (cores cp2). core_st c = WAITING" using ok1(4) by (simp add: cp2 fresh_def)
  moreover have "set (slaves_of cp2) \<subseteq> {..<length (cores cp2)}" using slaves_range(1) by blast
  ultimately have "fold (\<lambda>i cs. cs[i := (cs ! i)\<lparr>core_st := WAITING\<rparr>]) (slaves_of cp2) (cores cp2) = cores cp2"
    by (rule set_waiting_id)
  then have cp: "cp = cp2" using steps(4) foreach_slaves [OF ok2]
    by (auto simp: slave_threads_create_def split: if_splits)
  have e: "filter (\<lambda>i. enabled (cores cp1 ! i)) [a..<?n] = filter (bit ?v) [a..<?n]" for a
    using ok1(3) by (intro filter_cong) auto
  have on: "on = i # filter (bit ?v) [Suc i..<?n]" using found(4) ok1(2) by (simp add: on_def cp cp2 e)
  have "slaves_of cp = filter (\<lambda>j. j \<noteq> i) (filter (bit ?v) [0..<?n])"
    using ok1(2,3) by (auto simp: slaves_of_def cp cp2 intro!: filter_cong)
  also have "\<dots> = filter (\<lambda>j. j \<noteq> i) on" using ok1(2) by (simp add: on_def cp cp2)
  also have "\<dots> = tl on" by (simp add: on) (rule filter_cong, auto)
  finally show "slaves_of cp = tl on" .
  show "on \<noteq> []" "master_core cp = Some (hd on)" by (simp_all add: on cp cp2)
  show "pool_ok cp" "map core_id (cores cp) = filter (cpu_present mach) [0..<XM_CORE_MAX]"
    "\<forall>i < sys_core_count cp. enabled (cores cp ! i) = bit ?v i" "\<forall>c \<in> set (cores cp). fresh c"
    using ok2 ok1 init(3) ids by (simp_all add: cp cp2)
qed

section \<open>Binding tasks\<close>

fun bind_tasks :: "xm_core_pool \<Rightarrow> nat list \<Rightarrow> xm_core_pool option" where
  "bind_tasks cp [] = Some cp"
| "bind_tasks cp (t # ts) = Option.bind (xm_core_pool_bind_task cp t) (\<lambda>cp. bind_tasks cp ts)"

definition bound :: "xm_core_pool \<Rightarrow> nat option list" where
  "bound cp = map (\<lambda>i. core_tsk (cores cp ! i)) (slaves_of cp)"

text \<open>A task goes to the first slave that has none.\<close>

lemma bind_task:
  assumes "pool_ok cp" "bound cp = map Some ts @ replicate r None"
  shows "r = 0 \<Longrightarrow> xm_core_pool_bind_task cp t = None"
    and "r = Suc q \<Longrightarrow> \<exists>cp'. xm_core_pool_bind_task cp t = Some cp' \<and> pool_ok cp' \<and> slaves_of cp' = slaves_of cp \<and>
      sys_core_count cp' = sys_core_count cp \<and> bound cp' = map Some (ts @ [t]) @ replicate q None"
proof -
  let ?f = "\<lambda>i. core_tsk (cores cp ! i)"
  have alloc: "alloc_core cp = List.find (\<lambda>i. ?f i = None) (slaves_of cp)"
    using foreach_slaves [OF assms(1)] by (simp add: alloc_core_def)
  have len: "length (slaves_of cp) = length ts + r" using arg_cong [OF assms(2), of length] by (simp add: bound_def)
  have f: "?f (slaves_of cp ! j) = (if j < length ts then Some (ts ! j) else None)" if "j < length ts + r" for j
    using arg_cong [OF assms(2), of "\<lambda>xs. xs ! j"] that len by (auto simp: bound_def nth_append)
  {
    assume r: "r = 0"
    have "List.find (\<lambda>i. ?f i = None) (slaves_of cp) = None"
      using f len r by (auto simp: find_None_iff in_set_conv_nth)
    then show "xm_core_pool_bind_task cp t = None" by (simp add: xm_core_pool_bind_task_def alloc)
  }
  assume r: "r = Suc q"
  let ?i = "slaves_of cp ! length ts"
  have "List.find (\<lambda>i. ?f i = None) (slaves_of cp) = Some ?i"
    unfolding find_Some_iff using f len r by (intro exI [of _ "length ts"]) auto
  moreover define cp' where "cp' = cp\<lparr>cores := (cores cp)[?i := (cores cp ! ?i)\<lparr>core_tsk := Some t\<rparr>]\<rparr>"
  ultimately have bind: "xm_core_pool_bind_task cp t = Some cp'" by (simp add: xm_core_pool_bind_task_def alloc)
  have lt: "?i < sys_core_count cp" using slaves_range(1) [of ?i cp] len r by simp
  then have "\<forall>j < sys_core_count cp. enabled ((cores cp)[?i := (cores cp ! ?i)\<lparr>core_tsk := Some t\<rparr>] ! j) = enabled (cores cp ! j)"
    by (auto simp: nth_list_update)
  then have slaves: "slaves_of cp' = slaves_of cp" unfolding cp'_def by (intro same_slaves) simp_all
  have "core_tsk (cores cp' ! (slaves_of cp ! j)) = (if j = length ts then Some t else ?f (slaves_of cp ! j))"
    if "j < length ts + r" for j
    using lt that len r nth_eq_iff_index_eq [OF slaves_range(2) [of cp], of "length ts" j]
    by (auto simp: cp'_def nth_list_update)
  then have "bound cp' = map Some (ts @ [t]) @ replicate q None"
    by (intro nth_equalityI) (use len r f in \<open>auto simp: bound_def slaves nth_append less_Suc_eq\<close>)
  moreover have "pool_ok cp'" using assms(1) lt by (auto simp: pool_ok_def cp'_def nth_list_update)
  moreover have "sys_core_count cp' = sys_core_count cp" by (simp add: cp'_def)
  ultimately show "\<exists>cp'. xm_core_pool_bind_task cp t = Some cp' \<and> pool_ok cp' \<and> slaves_of cp' = slaves_of cp \<and>
      sys_core_count cp' = sys_core_count cp \<and> bound cp' = map Some (ts @ [t]) @ replicate q None"
    using bind slaves by blast
qed

lemma bind_tasks_bound:
  assumes "pool_ok cp" "bound cp = map Some ts0 @ replicate r None"
  shows "if length ts \<le> r
    then \<exists>cp'. bind_tasks cp ts = Some cp' \<and> pool_ok cp' \<and> slaves_of cp' = slaves_of cp \<and>
      bound cp' = map Some (ts0 @ ts) @ replicate (r - length ts) None
    else bind_tasks cp ts = None"
  using assms
proof (induction ts arbitrary: cp ts0 r)
  case (Cons t ts)
  show ?case
  proof (cases r)
    case 0
    then show ?thesis using bind_task(1) [OF Cons.prems] by simp
  next
    case (Suc q)
    then obtain cp' where cp': "xm_core_pool_bind_task cp t = Some cp'" "pool_ok cp'" "slaves_of cp' = slaves_of cp"
      "bound cp' = map Some (ts0 @ [t]) @ replicate q None"
      using bind_task(2) [OF Cons.prems] by blast
    show ?thesis using Cons.IH [OF cp'(2,4)] Suc cp'(1,3) by (auto split: if_splits)
  qed
qed auto

lemma created_bound:
  assumes "xm_core_pool_create mach (Some str) = Some cp"
  shows "bound cp = map Some [] @ replicate (length (slaves_of cp)) None"
proof -
  have "core_tsk (cores cp ! i) = None" if "i \<in> set (slaves_of cp)" for i
    using created_pool(4) [OF assms] slaves_range(1) [OF that] by (auto simp: fresh_def)
  then show ?thesis by (simp add: bound_def map_replicate_const [symmetric])
qed

text \<open>A pool can be created when the mask is a mask and the threads can be made.\<close>

lemma pool_creatable:
  assumes "core_pool_init mach = Some cp0" "mask_ok (sys_core_count cp0) (rev (trim_mask str))" "\<And>i. thread_made mach i"
  shows "\<exists>cp. xm_core_pool_create mach (Some str) = Some cp"
proof -
  let ?v = "mask_value (rev (trim_mask str))" and ?n = "sys_core_count cp0"
  let ?cp1 = "cp0\<lparr>cores := map (\<lambda>i. (cores cp0 ! i)\<lparr>enabled := bit ?v i\<rparr>) [0..<?n],
      config_core_count := card {i. i < ?n \<and> bit ?v i}\<rparr>"
  have parse: "parse_coremask cp0 str = Some ?cp1" using parse_mask [of cp0 str] assms(2) by simp
  obtain j where j: "j < ?n" "bit ?v j" using assms(2) by (auto simp: mask_ok_def)
  have "List.find (\<lambda>i. enabled (cores ?cp1 ! i)) [0..<?n] \<noteq> None" using j by (auto simp: find_None_iff)
  then obtain i where i: "List.find (\<lambda>i. enabled (cores ?cp1 ! i)) [0..<?n] = Some i" by blast
  define cp2 where "cp2 = ?cp1\<lparr>master_core := Some i, cores := (cores ?cp1)[i := (cores ?cp1 ! i)\<lparr>core_tsk := None\<rparr>]\<rparr>"
  have cp2: "master_thread_init ?cp1 = Some cp2"
    using i by (simp add: master_thread_init_def xm_next_core_get_def cp2_def)
  have "pool_ok cp2"
    using core_pool_init_ok(1) [OF assms(1)] find_upt_split(2) [OF i] by (auto simp: pool_ok_def cp2_def nth_list_update)
  then have "\<exists>cp. slave_threads_create mach cp2 = Some cp"
    using foreach_slaves [of cp2] assms(3) by (simp add: slave_threads_create_def)
  then show ?thesis using assms(1) parse cp2 by (auto simp: xm_core_pool_create_def)
qed

section \<open>Properties\<close>

text \<open>Property C25. The mask selects the cores of a pool: a core runs threads exactly if its place
  among the processors present is a bit of the hexadecimal number; the first of them is the
  master's and the others, in order, take the tasks.\<close>

theorem coremask_selects:
  assumes "xm_core_pool_create mach (Some str) = Some cp"
  shows "map core_id (cores cp) = filter (cpu_present mach) [0..<XM_CORE_MAX] \<and>
    (\<forall>i < sys_core_count cp. enabled (cores cp ! i) = bit (mask_value (rev (trim_mask str))) i) \<and>
    (\<exists>m. master_core cp = Some m \<and>
      m # slaves_of cp = filter (bit (mask_value (rev (trim_mask str)))) [0..<sys_core_count cp])"
  using created_pool [OF assms] by simp

text \<open>Binding the tasks of a scan to a new pool succeeds exactly if there are slaves for
  all of them, and then each task has the slave of its place, the others have none.\<close>

theorem tasks_bound:
  assumes "xm_core_pool_create mach (Some str) = Some cp"
  shows "(case bind_tasks cp ts of
      None \<Rightarrow> length (slaves_of cp) < length ts
    | Some cp' \<Rightarrow> length ts \<le> length (slaves_of cp) \<and> slaves_of cp' = slaves_of cp \<and>
        map (\<lambda>i. core_tsk (cores cp' ! i)) (slaves_of cp) = map Some ts @ replicate (length (slaves_of cp) - length ts) None)"
  using bind_tasks_bound [OF created_pool(1) [OF assms] created_bound [OF assms], of ts]
  by (auto simp: bound_def split: if_splits option.splits)

text \<open>A machine with five processors.\<close>

definition demo_machine :: machine where
  "demo_machine = \<lparr>cpu_present = (\<lambda>i. i < 5), node_has_cpu = (\<lambda>s i. s = 0), thread_made = (\<lambda>i. True)\<rparr>"

lemma demo_cpus: "filter (cpu_present demo_machine) [0..<XM_CORE_MAX] = [0, 1, 2, 3, 4]"
proof -
  have "[0..<XM_CORE_MAX] = [0..<5] @ [5..<XM_CORE_MAX]"
    unfolding XM_CORE_MAX_def using upt_add_eq_append [of 0 5 251] by simp
  moreover have "filter (cpu_present demo_machine) [0..<5] = [0, 1, 2, 3, 4]"
    by (simp add: demo_machine_def upt_rec)
  moreover have "filter (cpu_present demo_machine) [5..<XM_CORE_MAX] = []"
    by (auto simp: demo_machine_def filter_empty_conv)
  ultimately show ?thesis by (simp only: filter_append append_Nil2)
qed

lemma demo_pool:
  shows "mask_ok 5 (rev (trim_mask str)) \<Longrightarrow> \<exists>cp. xm_core_pool_create demo_machine (Some str) = Some cp"
    and "xm_core_pool_create demo_machine (Some str) = Some cp \<Longrightarrow>
      slaves_of cp = tl (filter (bit (mask_value (rev (trim_mask str)))) [0..<5])"
proof -
  have "core_pool_init demo_machine \<noteq> None" by (rule core_pool_init_some) (simp add: demo_cpus)
  then obtain cp0 where cp0: "core_pool_init demo_machine = Some cp0" by blast
  have n: "sys_core_count cp0 = 5"
    using arg_cong [OF core_pool_init_ok(3) [OF cp0], of length] by (simp add: demo_cpus)
  show "mask_ok 5 (rev (trim_mask str)) \<Longrightarrow> \<exists>cp. xm_core_pool_create demo_machine (Some str) = Some cp"
    using pool_creatable [OF cp0, of str] by (simp add: n demo_machine_def)
  assume c: "xm_core_pool_create demo_machine (Some str) = Some cp"
  have "sys_core_count cp = 5" using arg_cong [OF created_pool(2) [OF c], of length] by (simp add: demo_cpus)
  then show "slaves_of cp = tl (filter (bit (mask_value (rev (trim_mask str)))) [0..<5])"
    using created_pool(7) [OF c] by simp
qed

text \<open>Masks for four and for all five of its cores.\<close>

lemma demo_masks:
  "mask_ok 5 (rev (trim_mask ''f''))" "tl (filter (bit (mask_value (rev (trim_mask ''f'')))) [0..<5]) = [1, 2, 3]"
  "mask_ok 5 (rev (trim_mask '' 0x1f''))" "tl (filter (bit (mask_value (rev (trim_mask '' 0x1f'')))) [0..<5]) = [1, 2, 3, 4]"
proof -
  have v: "rev (trim_mask ''f'') = ''f''" "mask_value ''f'' = 15" "is_xdigit (CHR ''f'')"
    "rev (trim_mask '' 0x1f'') = ''f1''" "mask_value ''f1'' = 31" "is_xdigit (CHR ''1'')"
    by (simp_all add: trim_mask_def is_blank_def xdigit2val_def is_xdigit_def)
  have "\<exists>i < 5. bit (15 :: nat) i" "\<exists>i < 5. bit (31 :: nat) i" by (intro exI [of _ 0], simp)+
  then show "mask_ok 5 (rev (trim_mask ''f''))" "mask_ok 5 (rev (trim_mask '' 0x1f''))"
    unfolding v by (simp_all add: mask_ok_def digits_for_def v(2,3,5,6) del: mask_value.simps)
  have "filter (bit (15 :: nat)) [0..<5] = [0, 1, 2, 3]" "filter (bit (31 :: nat)) [0..<5] = [0, 1, 2, 3, 4]"
    by code_simp+
  then show "tl (filter (bit (mask_value (rev (trim_mask ''f'')))) [0..<5]) = [1, 2, 3]"
    "tl (filter (bit (mask_value (rev (trim_mask '' 0x1f'')))) [0..<5]) = [1, 2, 3, 4]"
    unfolding v by simp_all
qed

theorem coremask_selects_witness:
  "\<exists>cp. xm_core_pool_create demo_machine (Some ''f'') = Some cp \<and> map core_id (cores cp) = [0, 1, 2, 3, 4]"
  using demo_pool(1) [OF demo_masks(1)] coremask_selects by (fastforce simp: demo_cpus)

theorem tasks_bound_witness:
  "\<exists>cp cp'. xm_core_pool_create demo_machine (Some ''f'') = Some cp \<and> bind_tasks cp [5, 6, 8] = Some cp' \<and>
    core_tsk (cores cp' ! 1) = Some 5 \<and> core_tsk (cores cp' ! 3) = Some 8 \<and> bind_tasks cp [5, 6, 8, 9] = None"
proof -
  obtain cp where cp: "xm_core_pool_create demo_machine (Some ''f'') = Some cp" using demo_pool(1) [OF demo_masks(1)] by blast
  note b = tasks_bound [OF cp, unfolded demo_pool(2) [OF cp] demo_masks(2)]
  show ?thesis using cp b [of "[5, 6, 8]"] b [of "[5, 6, 8, 9]"] by (auto split: option.splits)
qed

end
