(* ===== verification/Launch.thy ===== *)
theory Launch
  imports Corepool
begin

text \<open>
  The threads of the pool of cores, \<open>lib/thread/xm_core_pool.c\<close>, as a step relation: the master
  sends every slave a command on its pipe and waits for the answer (\<open>xm_core_pool_slaves_setup\<close>),
  then it waits for each slave's task to end (\<open>xm_core_pool_wait_for_slaves\<close>); a slave runs the
  loop \<open>_thread_loop\<close>.  A step is one access to a pipe or to the state of a core, or the run of a
  task, so the relation has every interleaving of the threads.
\<close>

section \<open>Running a task\<close>

definition TASK_RETURN_EXIT :: int where "TASK_RETURN_EXIT = - 1"

text \<open>\<open>xm_task_run\<close>: the results of the task's \<open>init\<close> and of the calls of its \<open>run\<close> are given;
  \<open>None\<close> when it never returns.  The number is that of the calls made.\<close>

record xm_task =
  task_init :: int
  task_run :: "nat \<Rightarrow> int"

partial_function (option) task_loop :: "(nat \<Rightarrow> int) \<Rightarrow> nat \<Rightarrow> nat option" where
  "task_loop run n = (if run n = TASK_RETURN_EXIT then Some (n + 1) else task_loop run (n + 1))"

definition xm_task_run :: "xm_task \<Rightarrow> nat option" where
  "xm_task_run tsk = (if task_init tsk \<noteq> 0 then Some 0 else task_loop (task_run tsk) 0)"

section \<open>Steps\<close>

text \<open>Where the master is: before the check of the states, before the command for the next of the
  slaves, waiting for the answer of one, before the next to wait for, in the loop on the state of
  one, back from the wait, or out of the program after a failed setup.\<close>

datatype master_point =
  Checking | Launching "nat list" | AwaitingAck nat "nat list" | Waiting "nat list" | Spinning nat "nat list"
| Returned | SetupFailed

text \<open>Where a slave is in its loop; \<open>Broken\<close> is out of it.\<close>

datatype slave_point = Reading | Commanded | Acknowledging | Acknowledged | Working | Broken

record pool_system =
  m_point :: master_point
  s_point :: "nat \<Rightarrow> slave_point"
  s_state :: "nat \<Rightarrow> core_state"
  commands :: "nat \<Rightarrow> nat"
  acks :: "nat \<Rightarrow> nat"
  runs :: "nat \<Rightarrow> nat"

text \<open>The slaves, in order, and the task of each.\<close>

inductive pool_step :: "nat list \<Rightarrow> (nat \<Rightarrow> xm_task option) \<Rightarrow> pool_system \<Rightarrow> pool_system \<Rightarrow> bool"
  for slaves tsk where
  checked: "m_point s = Checking \<Longrightarrow>
    pool_step slaves tsk s (s\<lparr>m_point := if \<forall>i \<in> set slaves. s_state s i = WAITING then Launching slaves else SetupFailed\<rparr>)"
| launch: "m_point s = Launching (i # is) \<Longrightarrow> s_state s i = WAITING \<Longrightarrow>
    pool_step slaves tsk s (s\<lparr>m_point := AwaitingAck i is, commands := (commands s)(i := commands s i + 1)\<rparr>)"
| launch_fails: "m_point s = Launching (i # is) \<Longrightarrow> s_state s i \<noteq> WAITING \<Longrightarrow>
    pool_step slaves tsk s (s\<lparr>m_point := SetupFailed\<rparr>)"
| got_ack: "m_point s = AwaitingAck i is \<Longrightarrow> 0 < acks s i \<Longrightarrow>
    pool_step slaves tsk s (s\<lparr>m_point := Launching is, acks := (acks s)(i := acks s i - 1)\<rparr>)"
| launched: "m_point s = Launching [] \<Longrightarrow> pool_step slaves tsk s (s\<lparr>m_point := Waiting slaves\<rparr>)"
| no_wait: "m_point s = Waiting (i # is) \<Longrightarrow> s_state s i = WAITING \<Longrightarrow>
    pool_step slaves tsk s (s\<lparr>m_point := Waiting is\<rparr>)"
| wait_for: "m_point s = Waiting (i # is) \<Longrightarrow> s_state s i \<noteq> WAITING \<Longrightarrow>
    pool_step slaves tsk s (s\<lparr>m_point := Spinning i is\<rparr>)"
| waited: "m_point s = Spinning i is \<Longrightarrow> s_state s i = WAITING \<or> s_state s i = FINISHED \<Longrightarrow>
    pool_step slaves tsk s (s\<lparr>m_point := Waiting is, s_state := (s_state s)(i := WAITING)\<rparr>)"
| all_waited: "m_point s = Waiting [] \<Longrightarrow> pool_step slaves tsk s (s\<lparr>m_point := Returned\<rparr>)"
| read_command: "i \<in> set slaves \<Longrightarrow> s_point s i = Reading \<Longrightarrow> 0 < commands s i \<Longrightarrow>
    pool_step slaves tsk s (s\<lparr>s_point := (s_point s)(i := Commanded), commands := (commands s)(i := commands s i - 1)\<rparr>)"
| set_running: "i \<in> set slaves \<Longrightarrow> s_point s i = Commanded \<Longrightarrow>
    pool_step slaves tsk s (s\<lparr>s_point := (s_point s)(i := Acknowledging), s_state := (s_state s)(i := RUNNING)\<rparr>)"
| send_ack: "i \<in> set slaves \<Longrightarrow> s_point s i = Acknowledging \<Longrightarrow>
    pool_step slaves tsk s (s\<lparr>s_point := (s_point s)(i := Acknowledged), acks := (acks s)(i := acks s i + 1)\<rparr>)"
| no_task: "i \<in> set slaves \<Longrightarrow> s_point s i = Acknowledged \<Longrightarrow> tsk i = None \<Longrightarrow>
    pool_step slaves tsk s (s\<lparr>s_point := (s_point s)(i := Broken)\<rparr>)"
| begin_task: "i \<in> set slaves \<Longrightarrow> s_point s i = Acknowledged \<Longrightarrow> tsk i = Some t \<Longrightarrow>
    pool_step slaves tsk s (s\<lparr>s_point := (s_point s)(i := Working)\<rparr>)"
| end_task: "i \<in> set slaves \<Longrightarrow> s_point s i = Working \<Longrightarrow> tsk i = Some t \<Longrightarrow> xm_task_run t = Some n \<Longrightarrow>
    pool_step slaves tsk s (s\<lparr>s_point := (s_point s)(i := Reading), s_state := (s_state s)(i := FINISHED),
      runs := (runs s)(i := runs s i + 1)\<rparr>)"

inductive_cases pool_stepE: "pool_step slaves tsk s s'"

inductive pool_reachable :: "nat list \<Rightarrow> (nat \<Rightarrow> xm_task option) \<Rightarrow> pool_system \<Rightarrow> bool" for slaves tsk where
  start: "(\<forall>i. s_point s i = Reading \<and> s_state s i = WAITING \<and> commands s i = 0 \<and> acks s i = 0 \<and> runs s i = 0) \<Longrightarrow>
    m_point s = Checking \<Longrightarrow> pool_reachable slaves tsk s"
| step: "pool_reachable slaves tsk s \<Longrightarrow> pool_step slaves tsk s s' \<Longrightarrow> pool_reachable slaves tsk s'"

section \<open>The stages of a slave\<close>

datatype stage = Pending | Current | Started | Over

text \<open>The stage the master has brought a slave to.\<close>

fun stage_of :: "master_point \<Rightarrow> nat \<Rightarrow> stage" where
  "stage_of Checking i = Pending"
| "stage_of (Launching is) i = (if i \<in> set is then Pending else Started)"
| "stage_of (AwaitingAck j is) i = (if i = j then Current else if i \<in> set is then Pending else Started)"
| "stage_of (Waiting is) i = (if i \<in> set is then Started else Over)"
| "stage_of (Spinning j is) i = (if i = j \<or> i \<in> set is then Started else Over)"
| "stage_of Returned i = Over"
| "stage_of SetupFailed i = Over"

text \<open>A slave before its command is read, one that runs its task or has ended or broken off.\<close>

definition idle :: "pool_system \<Rightarrow> nat \<Rightarrow> bool" where
  "idle s i \<longleftrightarrow> s_point s i = Reading \<and> s_state s i = WAITING \<and> runs s i = 0"

definition started :: "(nat \<Rightarrow> xm_task option) \<Rightarrow> pool_system \<Rightarrow> nat \<Rightarrow> bool" where
  "started tsk s i \<longleftrightarrow> commands s i = 0 \<and>
     (s_point s i = Acknowledged \<and> s_state s i = RUNNING \<and> runs s i = 0 \<or>
      s_point s i = Working \<and> s_state s i = RUNNING \<and> runs s i = 0 \<and> tsk i \<noteq> None \<or>
      s_point s i = Broken \<and> s_state s i = RUNNING \<and> runs s i = 0 \<and> tsk i = None \<or>
      s_point s i = Reading \<and> s_state s i = FINISHED \<and> runs s i = 1 \<and> tsk i \<noteq> None)"

fun in_stage :: "(nat \<Rightarrow> xm_task option) \<Rightarrow> pool_system \<Rightarrow> nat \<Rightarrow> stage \<Rightarrow> bool" where
  "in_stage tsk s i Pending \<longleftrightarrow> idle s i \<and> commands s i = 0 \<and> acks s i = 0"
| "in_stage tsk s i Current \<longleftrightarrow>
     acks s i = 0 \<and> (idle s i \<and> commands s i = 1 \<or>
       commands s i = 0 \<and> runs s i = 0 \<and>
         (s_point s i = Commanded \<and> s_state s i = WAITING \<or> s_point s i = Acknowledging \<and> s_state s i = RUNNING)) \<or>
     acks s i = 1 \<and> started tsk s i"
| "in_stage tsk s i Started \<longleftrightarrow> acks s i = 0 \<and> started tsk s i"
| "in_stage tsk s i Over \<longleftrightarrow>
     acks s i = 0 \<and> commands s i = 0 \<and> s_point s i = Reading \<and> s_state s i = WAITING \<and> runs s i = 1 \<and> tsk i \<noteq> None"

text \<open>The slaves the master still has to deal with are a part of the list without repetition.\<close>

fun todo :: "master_point \<Rightarrow> nat list" where
  "todo (Launching is) = is"
| "todo (AwaitingAck j is) = j # is"
| "todo (Waiting is) = is"
| "todo (Spinning j is) = j # is"
| "todo _ = []"

definition pool_inv :: "nat list \<Rightarrow> (nat \<Rightarrow> xm_task option) \<Rightarrow> pool_system \<Rightarrow> bool" where
  "pool_inv slaves tsk s \<longleftrightarrow> m_point s \<noteq> SetupFailed \<and> distinct (todo (m_point s)) \<and>
     set (todo (m_point s)) \<subseteq> set slaves \<and> (\<forall>i \<in> set slaves. in_stage tsk s i (stage_of (m_point s) i))"

lemma in_stage_m_point [simp]: "in_stage tsk (s\<lparr>m_point := m\<rparr>) i st = in_stage tsk s i st"
  by (cases st) (simp_all add: idle_def started_def)

text \<open>What happens to one core leaves the others in their stage.\<close>

lemma in_stage_other:
  assumes "s_point s' i = s_point s i" "s_state s' i = s_state s i" "commands s' i = commands s i" "acks s' i = acks s i"
    "runs s' i = runs s i"
  shows "in_stage tsk s' i st = in_stage tsk s i st"
  using assms by (cases st) (simp_all add: idle_def started_def)

text \<open>A slave's own steps do not change its stage.\<close>

lemma slave_step:
  assumes "in_stage tsk s i st"
  shows "s_point s i = Reading \<Longrightarrow> 0 < commands s i \<Longrightarrow>
      in_stage tsk (s\<lparr>s_point := (s_point s)(i := Commanded), commands := (commands s)(i := commands s i - 1)\<rparr>) i st"
    and "s_point s i = Commanded \<Longrightarrow>
      in_stage tsk (s\<lparr>s_point := (s_point s)(i := Acknowledging), s_state := (s_state s)(i := RUNNING)\<rparr>) i st"
    and "s_point s i = Acknowledging \<Longrightarrow>
      in_stage tsk (s\<lparr>s_point := (s_point s)(i := Acknowledged), acks := (acks s)(i := acks s i + 1)\<rparr>) i st"
    and "s_point s i = Acknowledged \<Longrightarrow> tsk i = None \<Longrightarrow> in_stage tsk (s\<lparr>s_point := (s_point s)(i := Broken)\<rparr>) i st"
    and "s_point s i = Acknowledged \<Longrightarrow> tsk i \<noteq> None \<Longrightarrow> in_stage tsk (s\<lparr>s_point := (s_point s)(i := Working)\<rparr>) i st"
    and "s_point s i = Working \<Longrightarrow> in_stage tsk (s\<lparr>s_point := (s_point s)(i := Reading),
      s_state := (s_state s)(i := FINISHED), runs := (runs s)(i := runs s i + 1)\<rparr>) i st"
  using assms by (cases st; auto simp: idle_def started_def)+

lemma pool_inv_slave:
  assumes "pool_inv slaves tsk s" "m_point s' = m_point s" "\<forall>st. in_stage tsk s i st \<longrightarrow> in_stage tsk s' i st"
    "\<And>j. j \<noteq> i \<Longrightarrow> s_point s' j = s_point s j \<and> s_state s' j = s_state s j \<and> commands s' j = commands s j \<and>
      acks s' j = acks s j \<and> runs s' j = runs s j"
  shows "pool_inv slaves tsk s'"
proof -
  have "in_stage tsk s' j st" if "in_stage tsk s j st" for j st
    using that assms(3) in_stage_other [of s' j s tsk st] assms(4) [of j] by (cases "j = i") auto
  then show ?thesis using assms(1,2) by (simp add: pool_inv_def)
qed

text \<open>A step of the master that moves one slave to another stage.\<close>

lemma pool_inv_master:
  assumes "pool_inv slaves tsk s" "m_point s' \<noteq> SetupFailed" "distinct (todo (m_point s'))"
    "set (todo (m_point s')) \<subseteq> set slaves"
    "\<And>j. j \<in> set slaves \<Longrightarrow> in_stage tsk s j (stage_of (m_point s) j) \<Longrightarrow> in_stage tsk s' j (stage_of (m_point s') j)"
  shows "pool_inv slaves tsk s'"
  using assms by (simp add: pool_inv_def)

lemma pool_inv_master_one:
  assumes "pool_inv slaves tsk s" "m_point s' \<noteq> SetupFailed" "distinct (todo (m_point s'))"
    "set (todo (m_point s')) \<subseteq> set slaves"
    "in_stage tsk s i (stage_of (m_point s) i) \<Longrightarrow> in_stage tsk s' i (stage_of (m_point s') i)"
    "\<And>j. j \<noteq> i \<Longrightarrow> stage_of (m_point s') j = stage_of (m_point s) j"
    "\<And>j. j \<noteq> i \<Longrightarrow> s_point s' j = s_point s j \<and> s_state s' j = s_state s j \<and> commands s' j = commands s j \<and>
      acks s' j = acks s j \<and> runs s' j = runs s j"
  shows "pool_inv slaves tsk s'"
proof (rule pool_inv_master [OF assms(1-4)])
  fix j assume "in_stage tsk s j (stage_of (m_point s) j)"
  then show "in_stage tsk s' j (stage_of (m_point s') j)"
    using assms(5) assms(6,7) [of j] in_stage_other [of s' j s tsk] by (cases "j = i") auto
qed

lemma pool_inv_step:
  assumes "pool_step slaves tsk s s'" "pool_inv slaves tsk s" "distinct slaves"
  shows "pool_inv slaves tsk s'"
  using assms(1)
proof cases
  case checked
  then have "\<forall>i \<in> set slaves. s_state s i = WAITING" using assms(2) by (simp add: pool_inv_def idle_def)
  then show ?thesis using checked assms(3) by (intro pool_inv_master [OF assms(2)]) (simp_all add: idle_def)
next
  case (launch i js)
  then have "i \<in> set slaves" using assms(2) by (simp add: pool_inv_def)
  then have "in_stage tsk s i (stage_of (m_point s) i)" using assms(2) unfolding pool_inv_def by blast
  then show ?thesis using launch assms(2)
    by (intro pool_inv_master_one [OF assms(2), of _ i]) (auto simp: pool_inv_def idle_def)
next
  case (launch_fails i js)
  then show ?thesis using assms(2) by (auto simp: pool_inv_def idle_def)
next
  case (got_ack i js)
  then have "i \<in> set slaves" using assms(2) by (simp add: pool_inv_def)
  then have "in_stage tsk s i (stage_of (m_point s) i)" using assms(2) unfolding pool_inv_def by blast
  then show ?thesis using got_ack assms(2)
    by (intro pool_inv_master_one [OF assms(2), of _ i]) (auto simp: pool_inv_def started_def idle_def)
next
  case launched
  then show ?thesis using assms(2,3) by (intro pool_inv_master [OF assms(2)]) (simp_all add: started_def)
next
  case (no_wait i js)
  then have "i \<in> set slaves" using assms(2) by (simp add: pool_inv_def)
  then have "in_stage tsk s i (stage_of (m_point s) i)" using assms(2) unfolding pool_inv_def by blast
  then show ?thesis using no_wait assms(2)
    by (intro pool_inv_master_one [OF assms(2), of _ i]) (auto simp: pool_inv_def started_def)
next
  case (wait_for i js)
  then have "i \<in> set slaves" using assms(2) by (simp add: pool_inv_def)
  then have "in_stage tsk s i (stage_of (m_point s) i)" using assms(2) unfolding pool_inv_def by blast
  then show ?thesis using wait_for assms(2)
    by (intro pool_inv_master_one [OF assms(2), of _ i]) (auto simp: pool_inv_def started_def)
next
  case (waited i js)
  then have "i \<in> set slaves" using assms(2) by (simp add: pool_inv_def)
  then have "in_stage tsk s i (stage_of (m_point s) i)" using assms(2) unfolding pool_inv_def by blast
  then show ?thesis using waited assms(2)
    by (intro pool_inv_master_one [OF assms(2), of _ i]) (auto simp: pool_inv_def started_def)
next
  case all_waited
  then show ?thesis using assms(2) by (intro pool_inv_master [OF assms(2)]) (simp_all)
next
  case (read_command i)
  then show ?thesis using slave_step(1) by (intro pool_inv_slave [OF assms(2), of _ i]) auto
next
  case (set_running i)
  then show ?thesis using slave_step(2) by (intro pool_inv_slave [OF assms(2), of _ i]) auto
next
  case (send_ack i)
  then show ?thesis using slave_step(3) by (intro pool_inv_slave [OF assms(2), of _ i]) auto
next
  case (no_task i)
  then show ?thesis using slave_step(4) by (intro pool_inv_slave [OF assms(2), of _ i]) auto
next
  case (begin_task i t)
  then show ?thesis using slave_step(5) by (intro pool_inv_slave [OF assms(2), of _ i]) auto
next
  case (end_task i t n)
  then show ?thesis using slave_step(6) by (intro pool_inv_slave [OF assms(2), of _ i]) auto
qed

lemma pool_inv_reachable:
  assumes "pool_reachable slaves tsk s" "distinct slaves"
  shows "pool_inv slaves tsk s"
  using assms
proof induction
  case (start s)
  then show ?case by (simp add: pool_inv_def idle_def)
next
  case (step s s')
  then show ?case using pool_inv_step by blast
qed

section \<open>The threads get to the end\<close>

text \<open>How many steps the master and a slave have before them.\<close>

fun master_left :: "nat \<Rightarrow> master_point \<Rightarrow> nat" where
  "master_left n Checking = 10 * n + 3 * n + 3"
| "master_left n (Launching is) = 10 * length is + 3 * n + 2"
| "master_left n (AwaitingAck i is) = 10 * length is + 3 * n + 3"
| "master_left n (Waiting is) = 3 * length is + 1"
| "master_left n (Spinning i is) = 3 * length is + 2"
| "master_left n Returned = 0"
| "master_left n SetupFailed = 0"

fun point_left :: "slave_point \<Rightarrow> nat" where
  "point_left Commanded = 4"
| "point_left Acknowledging = 3"
| "point_left Acknowledged = 2"
| "point_left Working = 1"
| "point_left _ = 0"

definition slave_left :: "pool_system \<Rightarrow> nat \<Rightarrow> nat" where
  "slave_left s i = point_left (s_point s i) + 5 * commands s i"

definition steps_left :: "nat list \<Rightarrow> pool_system \<Rightarrow> nat" where
  "steps_left slaves s = master_left (length slaves) (m_point s) + (\<Sum>i \<in> set slaves. slave_left s i)"

lemma sum_change:
  assumes "finite A" "i \<in> A" "\<And>j. j \<noteq> i \<Longrightarrow> f j = (g j :: nat)"
  shows "sum f A + g i = sum g A + f i"
proof -
  have "sum f (A - {i}) = sum g (A - {i})" using assms(3) by (intro sum.cong) auto
  then show ?thesis using sum.remove [OF assms(1,2), of f] sum.remove [OF assms(1,2), of g] by simp
qed

lemma steps_left_slave:
  assumes "i \<in> set slaves" "m_point s' = m_point s" "\<And>j. j \<noteq> i \<Longrightarrow> slave_left s' j = slave_left s j" "slave_left s' i < slave_left s i"
  shows "steps_left slaves s' < steps_left slaves s"
  using sum_change [of "set slaves" i "slave_left s'" "slave_left s"] assms by (simp add: steps_left_def)

lemma steps_left_master:
  assumes "master_left (length slaves) (m_point s') < master_left (length slaves) (m_point s)" "slave_left s' = slave_left s"
  shows "steps_left slaves s' < steps_left slaves s"
  using assms by (simp add: steps_left_def)

lemma step_decreases:
  assumes "pool_step slaves tsk s s'" "pool_inv slaves tsk s"
  shows "steps_left slaves s' < steps_left slaves s"
  using assms(1)
proof cases
  case (launch i js)
  then have i: "i \<in> set slaves" using assms(2) by (simp add: pool_inv_def)
  have "sum (slave_left s') (set slaves) + slave_left s i = sum (slave_left s) (set slaves) + slave_left s' i"
    using i launch by (intro sum_change) (simp_all add: slave_left_def)
  then show ?thesis using launch by (simp add: steps_left_def slave_left_def)
next
  case (read_command i)
  then show ?thesis by (intro steps_left_slave [of i]) (auto simp: slave_left_def)
next
  case (set_running i)
  then show ?thesis by (intro steps_left_slave [of i]) (auto simp: slave_left_def)
next
  case (send_ack i)
  then show ?thesis by (intro steps_left_slave [of i]) (auto simp: slave_left_def)
next
  case (no_task i)
  then show ?thesis by (intro steps_left_slave [of i]) (auto simp: slave_left_def)
next
  case (begin_task i t)
  then show ?thesis by (intro steps_left_slave [of i]) (auto simp: slave_left_def)
next
  case (end_task i t n)
  then show ?thesis by (intro steps_left_slave [of i]) (auto simp: slave_left_def)
qed (auto intro!: steps_left_master simp: slave_left_def fun_eq_iff)

text \<open>Until the master is back some thread has a step, if every task ends.\<close>

lemma pool_progress:
  assumes "pool_inv slaves tsk s" "\<forall>i \<in> set slaves. \<exists>t n. tsk i = Some t \<and> xm_task_run t = Some n" "m_point s \<noteq> Returned"
  shows "\<exists>s'. pool_step slaves tsk s s'"
proof -
  have slave: "\<exists>s'. pool_step slaves tsk s s'"
    if "i \<in> set slaves" "started tsk s i" "s_state s i \<noteq> FINISHED" for i
    using that assms(2) begin_task [of i slaves s tsk] end_task [of i slaves s tsk] by (fastforce simp: started_def)
  show ?thesis
  proof (cases "m_point s")
    case Checking
    then show ?thesis using checked by blast
  next
    case (Launching "is")
    then show ?thesis using launch launch_fails launched by (cases "is") blast+
  next
    case (AwaitingAck i "is")
    then have "i \<in> set slaves" "in_stage tsk s i Current" using assms(1) by (auto simp: pool_inv_def)
    then show ?thesis
      using AwaitingAck got_ack [of s i "is"] read_command [of i slaves s] set_running [of i slaves s] send_ack [of i slaves s]
      by (fastforce simp: idle_def)
  next
    case (Waiting "is")
    then show ?thesis using no_wait wait_for all_waited by (cases "is") blast+
  next
    case (Spinning i "is")
    then have "i \<in> set slaves" "started tsk s i" using assms(1) by (auto simp: pool_inv_def)
    then show ?thesis using Spinning waited [of s i "is"] slave [of i] by blast
  next
    case SetupFailed
    then show ?thesis using assms(1) by (simp add: pool_inv_def)
  qed (use assms(3) in simp)
qed

section \<open>Properties\<close>

text \<open>The task of each core of a pool.\<close>

definition tasks_of :: "xm_core_pool \<Rightarrow> (nat \<Rightarrow> xm_task) \<Rightarrow> nat \<Rightarrow> xm_task option" where
  "tasks_of cp tasks i = map_option tasks (core_tsk (cores cp ! i))"

text \<open>Property C23. The master does not come back too early: the setup never fails, and when the wait
  is over every slave has had a task and has run it to its end exactly once, in every
  interleaving of the threads.\<close>

theorem wait_covers_runs:
  assumes "pool_reachable (slaves_of cp) (tasks_of cp tasks) s"
  shows "m_point s \<noteq> SetupFailed \<and>
    (m_point s = Returned \<longrightarrow> (\<forall>i \<in> set (slaves_of cp). runs s i = 1 \<and> core_tsk (cores cp ! i) \<noteq> None))"
  using pool_inv_reachable [OF assms slaves_range(2)] by (auto simp: pool_inv_def tasks_of_def)

text \<open>Property C22. With a task for every slave and tasks that end, the threads get to the end: no
  interleaving goes on for ever, and one that stops has brought the master back, each task run
  once.\<close>

theorem pool_run_ends:
  assumes "xm_core_pool_create mach (Some str) = Some cp0" "bind_tasks cp0 ts = Some cp"
    "length ts = length (slaves_of cp0)" "\<forall>t \<in> set ts. xm_task_run (tasks t) \<noteq> None"
    "pool_reachable (slaves_of cp) (tasks_of cp tasks) s"
  shows "\<not> (\<exists>f. f 0 = s \<and> (\<forall>n. pool_step (slaves_of cp) (tasks_of cp tasks) (f n) (f (Suc n)))) \<and>
    (\<not> (\<exists>s'. pool_step (slaves_of cp) (tasks_of cp tasks) s s') \<longrightarrow>
       m_point s = Returned \<and> (\<forall>i \<in> set (slaves_of cp). runs s i = 1))"
proof -
  let ?step = "pool_step (slaves_of cp) (tasks_of cp tasks)"
  have bound: "slaves_of cp = slaves_of cp0" "bound cp = map Some ts"
    using bind_tasks_bound [OF created_pool(1) [OF assms(1)] created_bound [OF assms(1)], of ts] assms(2,3) by auto
  have tasks: "\<forall>i \<in> set (slaves_of cp). \<exists>t n. tasks_of cp tasks i = Some t \<and> xm_task_run t = Some n"
  proof
    fix i assume "i \<in> set (slaves_of cp)"
    then have "core_tsk (cores cp ! i) \<in> set (bound cp)" by (auto simp: bound_def)
    then obtain t where "t \<in> set ts" "core_tsk (cores cp ! i) = Some t" by (auto simp: bound(2))
    then show "\<exists>t n. tasks_of cp tasks i = Some t \<and> xm_task_run t = Some n" using assms(4) by (auto simp: tasks_of_def)
  qed
  have inv: "pool_inv (slaves_of cp) (tasks_of cp tasks) s" by (rule pool_inv_reachable [OF assms(5) slaves_range(2)])
  have "\<not> (\<exists>f. f 0 = s \<and> (\<forall>n. ?step (f n) (f (Suc n))))"
  proof
    assume "\<exists>f. f 0 = s \<and> (\<forall>n. ?step (f n) (f (Suc n)))"
    then obtain f where f: "f 0 = s" "\<And>n. ?step (f n) (f (Suc n))" by blast
    have "pool_inv (slaves_of cp) (tasks_of cp tasks) (f n)" for n
    proof (induction n)
      case (Suc n)
      show ?case by (rule pool_inv_step [OF f(2) Suc slaves_range(2)])
    qed (use inv f(1) in simp)
    then have "steps_left (slaves_of cp) (f (Suc n)) < steps_left (slaves_of cp) (f n)" for n
      using step_decreases [OF f(2)] by blast
    then have "(f (Suc n), f n) \<in> measure (steps_left (slaves_of cp))" for n by simp
    then show False using wf_measure [of "steps_left (slaves_of cp)"] by (auto simp: wf_iff_no_infinite_down_chain)
  qed
  moreover have "m_point s = Returned \<and> (\<forall>i \<in> set (slaves_of cp). runs s i = 1)" if "\<not> (\<exists>s'. ?step s s')"
  proof -
    have "m_point s = Returned" using pool_progress [OF inv tasks] that by blast
    then show ?thesis using inv by (auto simp: pool_inv_def)
  qed
  ultimately show ?thesis by blast
qed

text \<open>The state before anything has happened.\<close>

definition pool_start :: pool_system where
  "pool_start = \<lparr>m_point = Checking, s_point = (\<lambda>i. Reading), s_state = (\<lambda>i. WAITING), commands = (\<lambda>i. 0),
     acks = (\<lambda>i. 0), runs = (\<lambda>i. 0)\<rparr>"

lemma pool_start_reachable: "pool_reachable slaves tsk pool_start"
  by (rule pool_reachable.start) (simp_all add: pool_start_def)

text \<open>A task whose first run is its last.\<close>

definition demo_task_ends :: xm_task where
  "demo_task_ends = \<lparr>task_init = 0, task_run = (\<lambda>n. - 1)\<rparr>"

lemma demo_task_run: "xm_task_run demo_task_ends = Some 1"
  by (simp add: xm_task_run_def demo_task_ends_def task_loop.simps TASK_RETURN_EXIT_def)

theorem wait_covers_runs_witness:
  "m_point pool_start \<noteq> SetupFailed"
  using wait_covers_runs [OF pool_start_reachable] by blast

theorem pool_run_ends_witness:
  "\<exists>cp0 cp. xm_core_pool_create demo_machine (Some ''f'') = Some cp0 \<and> bind_tasks cp0 [5, 6, 8] = Some cp \<and>
    \<not> (\<exists>f. f 0 = pool_start \<and> (\<forall>n. pool_step (slaves_of cp) (tasks_of cp (\<lambda>t. demo_task_ends)) (f n) (f (Suc n))))"
proof -
  obtain cp0 where cp0: "xm_core_pool_create demo_machine (Some ''f'') = Some cp0" using demo_pool(1) [OF demo_masks(1)] by blast
  have len: "length [5, 6, 8 :: nat] = length (slaves_of cp0)" using demo_pool(2) [OF cp0] demo_masks(2) by simp
  then obtain cp where cp: "bind_tasks cp0 [5, 6, 8] = Some cp"
    using bind_tasks_bound [OF created_pool(1) [OF cp0] created_bound [OF cp0], of "[5, 6, 8]"] by auto
  show ?thesis
    using cp0 cp pool_run_ends [OF cp0 cp len, of "\<lambda>t. demo_task_ends", OF _ pool_start_reachable]
    by (auto simp: demo_task_run)
qed

end
