(* ===== verification/Work.thy ===== *)
theory Work
  imports Send Launch Iterate "HOL-Library.Multiset"
begin

text \<open>
  Putting a scan together, \<open>src/xm_work.c\<close>: the sending tasks, numbered from one, each with a shard
  of its own, and the receiving task, each bound to a core of the pool.  What the machine has for
  cores, and whether the drivers give their queues, are arguments.
\<close>

unbundle bit_operations_syntax

section \<open>Creating the tasks\<close>

record work_world =
  work_machine :: machine
  tx_driver :: "nat \<Rightarrow> bool"
  rx_driver :: bool
  shard_mem :: "nat \<Rightarrow> shard_state"

datatype work_error = NoCorePool | NoSendTask nat | UnboundTask nat | NoRecvTask

text \<open>\<open>xm_send_task_create\<close>: what it adds to the shard is the driver's queue.\<close>

definition xm_send_task_create ::
  "(nat \<Rightarrow> nat \<Rightarrow> nat \<Rightarrow> nat) \<Rightarrow> work_world \<Rightarrow> xm_context \<Rightarrow> nat \<Rightarrow> (xm_context \<times> xm_shard) option" where
  "xm_send_task_create powm ww ctx thread_id =
     (case create_shard powm (shard_mem ww thread_id) ctx (of_nat thread_id) of
        None \<Rightarrow> None
      | Some (ctx, shard) \<Rightarrow> if tx_driver ww thread_id then Some (ctx, shard) else None)"

text \<open>For the pool the senders are the tasks \<open>1, 2, \<dots>\<close> and the receiver, which is bound last, is task 0.\<close>

fun create_send_tasks ::
  "(nat \<Rightarrow> nat \<Rightarrow> nat \<Rightarrow> nat) \<Rightarrow> work_world \<Rightarrow> xm_core_pool \<Rightarrow> xm_context \<Rightarrow> nat list
   \<Rightarrow> work_error + (xm_core_pool \<times> xm_context \<times> xm_shard list)" where
  "create_send_tasks powm ww cp ctx [] = Inr (cp, ctx, [])"
| "create_send_tasks powm ww cp ctx (i # is) =
     (case xm_send_task_create powm ww ctx (i + 1) of
        None \<Rightarrow> Inl (NoSendTask (i + 1))
      | Some (ctx, shard) \<Rightarrow>
          (case xm_core_pool_bind_task cp (i + 1) of
             None \<Rightarrow> Inl (UnboundTask (i + 1))
           | Some cp \<Rightarrow>
               (case create_send_tasks powm ww cp ctx is of
                  Inl e \<Rightarrow> Inl e
                | Inr (cp, ctx, shards) \<Rightarrow> Inr (cp, ctx, shard # shards))))"

definition xm_work_create ::
  "(nat \<Rightarrow> nat \<Rightarrow> nat \<Rightarrow> nat) \<Rightarrow> work_world \<Rightarrow> shm_system \<Rightarrow> xm_shm_header \<Rightarrow> u64 \<Rightarrow> mem \<Rightarrow> validate_state \<Rightarrow> xm_context
   \<Rightarrow> work_error + (xm_core_pool \<times> xm_context \<times> xm_shard list \<times> xm_recv_task)" where
  "xm_work_create powm ww sys mh timems m vs ctx =
     (case xm_core_pool_create (work_machine ww) (core_mask ctx) of
        None \<Rightarrow> Inl NoCorePool
      | Some cp \<Rightarrow>
          (case create_send_tasks powm ww cp ctx [0..<unat (senders ctx)] of
             Inl e \<Rightarrow> Inl e
           | Inr (cp, ctx, shards) \<Rightarrow>
               (case xm_recv_task_create sys mh timems (rx_driver ww) m vs ctx of
                  None \<Rightarrow> Inl NoRecvTask
                | Some task \<Rightarrow>
                    (case xm_core_pool_bind_task cp 0 of
                       None \<Rightarrow> Inl (UnboundTask 0)
                     | Some cp \<Rightarrow> Inr (cp, ctx, shards, task)))))"

section \<open>The ranges of the threads\<close>

text \<open>Threads count from one, so the last of them has the index \<open>S\<close> that no subshard of the division has:
  its range starts at what the division leaves over and goes on with the first subshard.\<close>

definition thread_len :: "xm_cycle \<Rightarrow> nat \<Rightarrow> nat \<Rightarrow> nat" where
  "thread_len cy S i =
     (if i = S then unat (order cy) mod S + unat (order cy) div S else shard_len cy S i)"

definition thread_elems :: "xm_cycle \<Rightarrow> nat \<Rightarrow> nat \<Rightarrow> u64 list" where
  "thread_elems cy S i =
     (let b = unat (offset cy) + unat (order cy) div S * i in map (elem cy) [b..<b + thread_len cy S i])"

definition thread_targets :: "xm_cycle \<Rightarrow> nat \<Rightarrow> u64 \<Rightarrow> nat \<Rightarrow> u64 list" where
  "thread_targets cy S mx i = filter (valid_elem mx) (thread_elems cy S i)"

lemma thread_shard: "i < S \<Longrightarrow> thread_elems cy S i = shard_elems cy S i"
  by (simp add: thread_elems_def shard_elems_def thread_len_def)

lemma thread_len_bounds:
  assumes "0 < S" "i \<le> S" "S \<le> unat (order cy)"
  shows "0 < thread_len cy S i" and "thread_len cy S i \<le> unat (order cy)"
proof -
  let ?Q = "unat (order cy)"
  have e: "0 < ?Q div S" using assms(1,3) by (simp add: div_greater_zero_iff)
  have "?Q div S * 1 \<le> ?Q div S * S" using assms(1) by (intro mult_le_mono2) simp
  then have le: "?Q mod S + ?Q div S \<le> ?Q" using div_mult_mod_eq [of ?Q S] by linarith
  show "0 < thread_len cy S i" "thread_len cy S i \<le> ?Q"
    using e le assms shard_len_pos [of i S cy] shard_bounds(2) [of i S cy] by (auto simp: thread_len_def)
qed

lemma thread_end:
  assumes "0 < S" "i \<le> S"
  shows "(unat (offset cy) + unat (order cy) div S * i + thread_len cy S i) mod unat (order cy) =
    (unat (offset cy) + unat (order cy) div S * (Suc i mod S)) mod unat (order cy)"
proof (cases "i = S")
  case True
  let ?Q = "unat (order cy)" and ?o = "unat (offset cy)"
  have "?o + ?Q div S * i + thread_len cy S i = ?o + ?Q div S + ?Q"
    using True div_mult_mod_eq [of ?Q S] by (simp add: thread_len_def algebra_simps)
  then have "(?o + ?Q div S * i + thread_len cy S i) mod ?Q = (?o + ?Q div S) mod ?Q" by (simp only: mod_add_self2)
  moreover have "(?o + ?Q div S) mod ?Q = (?o + ?Q div S * (Suc i mod S)) mod ?Q"
    using True assms(1) by (cases "S = 1") (simp_all add: mod_Suc)
  ultimately show ?thesis by simp
next
  case False
  then show ?thesis using shard_end [of i S cy] assms(2) by (simp add: thread_len_def)
qed

text \<open>The last thread: the rest of the division, then the first subshard.\<close>

lemma last_thread:
  assumes "cycle_ok cy" "0 < S"
  shows "thread_elems cy S S =
    map (elem cy) [unat (offset cy) + unat (order cy) div S * S..<unat (offset cy) + unat (order cy)] @ shard_elems cy S 0"
proof -
  let ?Q = "unat (order cy)" and ?o = "unat (offset cy)"
  have q: "?Q div S * S + ?Q mod S = ?Q" by (rule div_mult_mod_eq)
  have "[?o + ?Q div S * S..<?o + ?Q div S * S + (?Q mod S + ?Q div S)] =
      [?o + ?Q div S * S..<?o + ?Q] @ [?o + ?Q..<?o + ?Q + ?Q div S]"
    using upt_add_eq_append [of "?o + ?Q div S * S" "?o + ?Q" "?Q div S"] q by (simp add: algebra_simps)
  moreover have "[?o + ?Q..<?o + ?Q + n] = map (\<lambda>k. k + ?Q) [?o..<?o + n]" for n
    by (simp add: list_eq_iff_nth_eq)
  moreover have "elem cy (k + ?Q) = elem cy k" for k by (rule elem_cong [OF assms(1)]) simp
  moreover have "shard_len cy S 0 = ?Q div S" by (auto simp: shard_len_def)
  ultimately show ?thesis by (simp add: thread_elems_def shard_elems_def thread_len_def Let_def)
qed

text \<open>What the sender of a created shard starts from.\<close>

lemma created_counts:
  assumes "xm_shard_create powm mem sh ns th nt max_total mx cy wb = Some s"
  shows "send_counts s = (sent mem, tried_sent mem,
    if max_total > 0 then targets_of_shard max_total (ucast ns * ucast nt) (sub_index sh nt th) else max_targets mem)"
proof -
  obtain s0 where s0: "map_option snd (shard_roll_to_valid s0) = Some s"
    "state s0 = (if max_total > 0 then mem\<lparr>max_targets := targets_of_shard max_total (ucast ns * ucast nt) (sub_index sh nt th)\<rparr> else mem)"
    using assms by (auto simp: xm_shard_create_def Let_def split: if_splits)
  have "send_counts s = send_counts s0"
    using s0(1) next_ip_counts [of s0] by (auto simp: shard_roll_to_valid_def split: if_splits)
  then show ?thesis using s0(2) by (simp add: send_counts_def)
qed

lemma thread_emits:
  assumes "cycle_ok cy" "unat (order cy) < 2 ^ 33" "\<And>b e m. powm b e m = b ^ e mod m"
    "S = unat ns * unat nt" "i = unat (sub_index sh nt th)" "0 < S" "i \<le> S" "S \<le> unat (order cy)"
    "wblist_ready wb" "mx \<le> xm_wblist_count_allowed wb"
    "fits (elem cy (unat (offset cy) + unat (order cy) div S * (Suc i mod S)))"
  shows "\<exists>s. xm_shard_create powm mem sh ns th nt max_total mx cy wb = Some s \<and>
    (thread_targets cy S mx i = [] \<longrightarrow> current s = 0) \<and>
    (thread_targets cy S mx i \<noteq> [] \<longrightarrow>
       xm_shard_get_cur_ip s = (target_of wb (hd (thread_targets cy S mx i)), s) \<and>
       shard_ips (length (thread_targets cy S mx i)) s = Some (map (target_of wb) (tl (thread_targets cy S mx i))))"
proof -
  define b where "b = unat (offset cy) + unat (order cy) div S * i"
  note e = thread_end [OF assms(6,7), of cy, folded b_def]
  have ex: "unat (exponent_begin (order cy) (ucast ns * ucast nt) (sub_index sh nt th) (offset cy)) = b mod unat (order cy)"
    "unat (exponent_end (order cy) (ucast ns * ucast nt) (sub_index sh nt th) (offset cy)) =
      (b + thread_len cy S i) mod unat (order cy)"
    using unat_subshard_exponents [OF assms(2), of sh nt th ns] assms(4-7) e by (simp_all add: b_def)
  have fit: "fits (elem cy (b + thread_len cy S i))"
    using assms(11) elem_cong [OF assms(1) e] by simp
  have T: "thread_targets cy S mx i = filter (valid_elem mx) (map (elem cy) [b..<b + thread_len cy S i])"
    by (simp add: thread_targets_def thread_elems_def b_def Let_def)
  have nz: "unat ns * unat nt \<noteq> 0" using assms(4,6) by simp
  obtain s where s: "xm_shard_create powm mem sh ns th nt max_total mx cy wb = Some s" "wblist s = wb"
    "if thread_targets cy S mx i = [] then current s = 0
     else fst (xm_shard_get_cur_ip s) = target_of wb (hd (thread_targets cy S mx i)) \<and>
       shard_ips (length (thread_targets cy S mx i)) s = Some (map (target_of wb) (tl (thread_targets cy S mx i)))"
    using created_emits [OF assms(1,3) nz ex thread_len_bounds [OF assms(6-8)] assms(9,10) fit T] by blast
  moreover have "snd (xm_shard_get_cur_ip s) = s"
    using shard_lookup_ready [of s] assms(9) s(2) by (simp add: xm_shard_get_cur_ip_def)
  ultimately show ?thesis by (auto intro: prod_eqI)
qed

lemma target_in_thread:
  assumes "wblist_ready wb" "mx \<le> xm_wblist_count_allowed wb" "x \<in> set (thread_targets cy S mx i)"
  shows "target_of wb x \<noteq> XM_SHARD_DONE"
  using target_nonzero [OF assms(1) _ assms(2)] assms(3) by (auto simp: thread_targets_def XM_SHARD_DONE_def)

section \<open>The cycles of the tasks\<close>

definition index_bound :: "xm_wblist \<Rightarrow> u32" where
  "index_bound wb = (if xm_wblist_count_allowed wb > 0x100000000 then 0xFFFFFFFF else ucast (xm_wblist_count_allowed wb))"

text \<open>The shard of thread \<open>i\<close> is made of a cycle that the generator \<open>aes\<close> gives, which is then \<open>aes'\<close>.\<close>

definition task_made ::
  "(nat \<Rightarrow> nat \<Rightarrow> nat \<Rightarrow> nat) \<Rightarrow> work_world \<Rightarrow> xm_context \<Rightarrow> nat \<Rightarrow> xm_cycle \<Rightarrow> xm_aesrand \<Rightarrow> xm_aesrand \<Rightarrow> xm_shard \<Rightarrow> bool" where
  "task_made powm ww ctx i cycle aes aes' shard \<longleftrightarrow>
     (\<exists>grp. xm_get_cyclic_group (xm_wblist_count_allowed (the (the_wblist ctx))) = Some grp \<and>
        xm_make_cycle powm grp aes = (Some (Some cycle), aes') \<and>
        xm_shard_create powm (shard_mem ww i) (shard_num ctx) (total_shards ctx) (of_nat i) (senders ctx)
          (xsend_max_targets ctx) (ucast (index_bound (the (the_wblist ctx)))) cycle (the (the_wblist ctx)) = Some shard)"

lemma task_made_ctx:
  "task_made powm ww (ctx\<lparr>xsend_max_index := m, the_aes := a\<rparr>) i cycle aes aes' shard = task_made powm ww ctx i cycle aes aes' shard"
  by (simp add: task_made_def)

lemma create_shard_made:
  assumes "create_shard powm (shard_mem ww i) ctx (of_nat i) = Some (ctx', shard)"
  shows "\<exists>cycle aes m. task_made powm ww ctx i cycle (the (the_aes ctx)) aes shard \<and>
    ctx' = ctx\<lparr>xsend_max_index := m, the_aes := Some aes\<rparr>"
  using assms by (auto simp: create_shard_def task_made_def index_bound_def Let_def split: option.splits prod.splits)

lemma send_tasks_cycles:
  "create_send_tasks powm ww cp ctx is = Inr (cp', ctx', shards) \<Longrightarrow>
   \<exists>cycles aess. length cycles = length is \<and> length aess = Suc (length is) \<and> length shards = length is \<and>
     aess ! 0 = the (the_aes ctx) \<and>
     (\<forall>k < length is. task_made powm ww ctx (is ! k + 1) (cycles ! k) (aess ! k) (aess ! Suc k) (shards ! k))"
proof (induction "is" arbitrary: cp ctx shards)
  case Nil
  then show ?case by (intro exI [of _ "[]"] exI [of _ "[the (the_aes ctx)]"]) simp
next
  case (Cons i "is")
  obtain cp1 ctx1 shard shs where c: "create_shard powm (shard_mem ww (i + 1)) ctx (of_nat (i + 1)) = Some (ctx1, shard)"
    and shs: "create_send_tasks powm ww cp1 ctx1 is = Inr (cp', ctx', shs)" "shards = shard # shs"
    using Cons.prems by (auto simp: xm_send_task_create_def split: option.splits if_splits sum.splits prod.splits)
  obtain cycle aes m where t: "task_made powm ww ctx (i + 1) cycle (the (the_aes ctx)) aes shard"
    and ctx1: "ctx1 = ctx\<lparr>xsend_max_index := m, the_aes := Some aes\<rparr>"
    using create_shard_made [OF c] by blast
  obtain cycles aess where IH: "length cycles = length is" "length aess = Suc (length is)" "length shs = length is"
    "aess ! 0 = aes"
    "\<forall>k < length is. task_made powm ww ctx (is ! k + 1) (cycles ! k) (aess ! k) (aess ! Suc k) (shs ! k)"
    using Cons.IH [OF shs(1)] by (auto simp: ctx1 task_made_ctx)
  then show ?case
    using t shs(2)
    by (intro exI [of _ "cycle # cycles"] exI [of _ "the (the_aes ctx) # aess"]) (auto simp: less_Suc_eq_0_disj)
qed

text \<open>The pool of a work that is created: the senders and the receiver have the first slaves.\<close>

lemma bind_tasks_append: "bind_tasks cp (ts @ us) = Option.bind (bind_tasks cp ts) (\<lambda>cp. bind_tasks cp us)"
  by (induction ts arbitrary: cp) simp_all

lemma send_tasks_bound:
  "create_send_tasks powm ww cp ctx is = Inr (cp', ctx', shards) \<Longrightarrow> bind_tasks cp (map Suc is) = Some cp'"
proof (induction "is" arbitrary: cp ctx shards)
  case (Cons i "is")
  then show ?case by (auto split: option.splits sum.splits prod.splits)
qed simp

lemma work_bound:
  assumes "xm_work_create powm ww sys mh timems m vs ctx = Inr (cp, ctx', shards, task)"
  shows "\<exists>cp0. xm_core_pool_create (work_machine ww) (core_mask ctx) = Some cp0 \<and>
    bind_tasks cp0 (map Suc [0..<unat (senders ctx)] @ [0]) = Some cp"
proof -
  obtain cp0 cp1 where cp0: "xm_core_pool_create (work_machine ww) (core_mask ctx) = Some cp0"
    and send: "create_send_tasks powm ww cp0 ctx [0..<unat (senders ctx)] = Inr (cp1, ctx', shards)"
    and recv: "xm_core_pool_bind_task cp1 0 = Some cp"
    using assms by (auto simp: xm_work_create_def split: option.splits sum.splits prod.splits)
  show ?thesis using cp0 send_tasks_bound [OF send] recv by (simp add: bind_tasks_append)
qed

text \<open>A sending task whose shard gives the addresses \<open>ip # ips\<close> and has sent nothing.\<close>

lemma task_probes:
  assumes "xm_shard_get_cur_ip shard = (ip, shard)" "emits shard ips" "0 \<notin> set (ip # ips)"
    "sent (state shard) = 0" "tried_sent (state shard) = 0"
    "send_ctx ctx" "takes_all sw" "\<forall>n. \<not> recv_completed sw n" "max_runtime ctx = 0"
    "max_targets (state shard) = 0 \<or> list_of_ips_filename ctx = None"
  shows "\<exists>s fs. send_task_run ctx (static_of ctx st) sw random vs shard = Some (Inr s) \<and> send_log s = concat fs \<and>
    frames_for ctx vs
      ((if max_targets (state shard) = 0 then (\<lambda>xs. xs) else take (unat (max_targets (state shard))))
        (filter (wanted ctx) (ip # ips))) fs \<and>
    sent (state (send_shard s)) = of_nat (length fs)"
proof -
  define s0 where "s0 = \<lparr>send_shard = shard,
    send_buf = probe_thread_init (the (the_probe ctx)) random (\<lambda>i. 0) (hw_mac ctx) (gw_mac ctx) (target_port ctx),
    send_count = 0, send_idx = 0, send_calls = 0, send_log = [], send_validate = vs\<rparr>"
  have ready: "send_ready ctx vs (s0\<lparr>send_shard := sh\<rparr>)" for sh
    using init_template [OF assms(6)] by (simp add: send_ready_def s0_def)
  have run: "send_task_run ctx (static_of ctx st) sw random vs shard =
      Option.bind (to_listed ctx ip shard) (\<lambda>r. case r of Inl shard \<Rightarrow> Some (Inr (s0\<lparr>send_shard := shard\<rparr>))
        | Inr (ip, shard) \<Rightarrow> send_loop ctx (static_of ctx st) sw 0 ip (s0\<lparr>send_shard := shard\<rparr>))"
    unfolding send_task_run_def assms(1) Let_def prod.case
    by (intro arg_cong2 [where f = Option.bind] refl ext) (auto simp: s0_def split: sum.split)
  note l = to_listed_emits [OF assms(2), of ctx ip]
  have nz: "x \<noteq> XM_SHARD_DONE" if "x \<in> set (ip # ips)" for x
    using that assms(3) by (auto simp: XM_SHARD_DONE_def)
  show ?thesis
  proof (cases "filter (wanted ctx) (ip # ips)")
    case Nil
    then obtain sh where "to_listed ctx ip shard = Some (Inl sh)" "sent (state sh) = sent (state shard)" using l by auto
    then have "send_task_run ctx (static_of ctx st) sw random vs shard = Some (Inr (s0\<lparr>send_shard := sh\<rparr>))"
      "send_log (s0\<lparr>send_shard := sh\<rparr>) = concat []" "sent (state sh) = of_nat (length [])"
      using run assms(4) by (simp_all add: s0_def)
    then show ?thesis using Nil
      by (intro exI [of _ "s0\<lparr>send_shard := sh\<rparr>"] exI [of _ "[]"]) (simp add: frames_for_def)
  next
    case (Cons x xs)
    then obtain sh rest where t: "to_listed ctx ip shard = Some (Inr (x, sh))" "emits sh rest"
      "xs = filter (wanted ctx) rest" "x \<in> set (ip # ips)" "sent (state sh) = sent (state shard)"
      "max_targets (state sh) = max_targets (state shard)" "list_of_ips_filename ctx = None \<longrightarrow> sh = shard"
      using l by auto
    have "limit_ok ctx sh" using assms(4,5,10) t(5-7) by (auto simp: limit_ok_def)
    moreover have "emits (send_shard (s0\<lparr>send_shard := sh\<rparr>)) rest" using t(2) by simp
    ultimately obtain s fs where r: "send_loop ctx (static_of ctx st) sw 0 x (s0\<lparr>send_shard := sh\<rparr>) = Some (Inr s)"
      "send_log s = send_log s0 @ concat fs" "frames_for ctx vs (within_limit sh (x # filter (wanted ctx) rest)) fs"
      "sent (state (send_shard s)) = sent (state sh) + of_nat (length fs)"
      using loop_targets [OF assms(6-9) _ nz [OF t(4)] ready] by fastforce
    have "within_limit sh (x # filter (wanted ctx) rest) =
        (if max_targets (state shard) = 0 then (\<lambda>xs. xs) else take (unat (max_targets (state shard))))
          (filter (wanted ctx) (ip # ips))"
      unfolding Cons t(3) using t(5,6) assms(4) by (simp add: within_limit_def)
    then show ?thesis using r t(1,5) run assms(4) by (intro exI [of _ s] exI [of _ fs]) (simp add: s0_def)
  qed
qed

text \<open>The ranges of the threads cover the cycle: what is drawn twice are only elements of the rest of
  the division by \<open>S\<close>.\<close>

lemma threads_draw:
  assumes "cycle_ok cy" "0 < S"
  shows "set (concat (map (thread_targets cy S mx) [1..<Suc S])) = set (concat (map (shard_targets cy S mx) [0..<S]))"
    and "\<exists>rest. mset (concat (map (thread_targets cy S mx) [1..<Suc S])) =
      mset (concat (map (shard_targets cy S mx) [0..<S])) + mset rest \<and> length rest \<le> unat (order cy) mod S"
proof -
  let ?rest = "filter (valid_elem mx)
    (map (elem cy) [unat (offset cy) + unat (order cy) div S * S..<unat (offset cy) + unat (order cy)])"
  let ?t = "concat (map (thread_targets cy S mx) [1..<Suc S])" and ?s = "concat (map (shard_targets cy S mx) [0..<S])"
  have same: "map (thread_targets cy S mx) [1..<S] = map (shard_targets cy S mx) [1..<S]"
    by (simp add: thread_targets_def shard_targets_def thread_shard)
  have last: "thread_targets cy S mx S = ?rest @ shard_targets cy S mx 0"
    by (simp add: thread_targets_def shard_targets_def last_thread [OF assms])
  have t: "?t = concat (map (shard_targets cy S mx) [1..<S]) @ ?rest @ shard_targets cy S mx 0"
    using assms(2) by (simp add: same last del: One_nat_def)
  have s: "?s = shard_targets cy S mx 0 @ concat (map (shard_targets cy S mx) [1..<S])"
    using assms(2) by (simp add: upt_conv_Cons)
  have "mset ?t = mset ?s + mset ?rest" unfolding t s by (simp only: mset_append ac_simps)
  moreover have "length ?rest \<le> unat (order cy) mod S"
    by (rule order_trans [OF length_filter_le]) (simp add: minus_div_mult_eq_mod)
  ultimately show "\<exists>rest. mset ?t = mset ?s + mset rest \<and> length rest \<le> unat (order cy) mod S" by blast
  have "?s = filter (valid_elem mx) (map (elem cy) [unat (offset cy)..<unat (offset cy) + unat (order cy)])"
    unfolding shard_targets_def shard_elems_concat [OF assms(2), symmetric] by (simp add: filter_concat comp_def)
  then have "set ?rest \<subseteq> set ?s" by auto
  then show "set ?t = set ?s" unfolding t s by auto
qed

lemma index_bound_count: "wblist_ready wb \<Longrightarrow> ucast (index_bound wb) = xm_wblist_count_allowed wb"
  using wbl.count_bound [of wb] fits_ucast [of "xm_wblist_count_allowed wb"]
  by (auto simp: index_bound_def fits_def word_less_nat_alt)

text \<open>The one task of a work with a single sender.\<close>

lemma single_task:
  assumes "xm_work_create powm ww sys mh timems m vs ctx = Inr (cp, ctx', shards, task)" "senders ctx = 1"
  shows "\<exists>shard cycle aes'. shards = [shard] \<and> task_made powm ww ctx 1 cycle (the (the_aes ctx)) aes' shard"
proof -
  obtain cp0 cp1 where send: "create_send_tasks powm ww cp0 ctx [0..<unat (senders ctx)] = Inr (cp1, ctx', shards)"
    using assms(1) by (auto simp: xm_work_create_def split: option.splits sum.splits prod.splits)
  have one: "[0..<unat (senders ctx)] = [0]" by (simp add: assms(2))
  from send_tasks_cycles [OF send] obtain cycles aess where "length shards = 1" "aess ! 0 = the (the_aes ctx)"
    "task_made powm ww ctx 1 (cycles ! 0) (aess ! 0) (aess ! 1) (shards ! 0)"
    unfolding one by auto
  then show ?thesis by (cases shards) auto
qed

section \<open>Properties\<close>

text \<open>Property C1. A sender whose shard has a target, with a driver that takes every frame, sends for
  each target of its range that it wants, in order, the frames of all streams, each a correct
  probe from a source address of the scan, up to its limit of targets; then it ends.\<close>

theorem sender_probes_targets:
  assumes "cycle_ok cy" "unat (order cy) < 2 ^ 33" "\<And>b e m. powm b e m = b ^ e mod m"
    "S = unat ns * unat nt" "i = unat (sub_index sh nt th)" "0 < S" "i \<le> S" "S \<le> unat (order cy)"
    "wblist_ready wb" "mx \<le> xm_wblist_count_allowed wb"
    "fits (elem cy (unat (offset cy) + unat (order cy) div S * (Suc i mod S)))"
    "xm_shard_create powm mem sh ns th nt max_total mx cy wb = Some shard" "thread_targets cy S mx i \<noteq> []"
    "sent mem = 0" "tried_sent mem = 0" "max_targets mem = 0"
    "send_ctx ctx" "takes_all sw" "\<forall>n. \<not> recv_completed sw n" "max_runtime ctx = 0"
    "max_targets (state shard) = 0 \<or> list_of_ips_filename ctx = None"
  shows "\<exists>s fs. send_task_run ctx (static_of ctx st) sw random vs shard = Some (Inr s) \<and> send_log s = concat fs \<and>
    frames_for ctx vs
      ((if max_targets (state shard) = 0 then (\<lambda>xs. xs) else take (unat (max_targets (state shard))))
        (filter (wanted ctx) (map (target_of wb) (thread_targets cy S mx i)))) fs \<and>
    sent (state (send_shard s)) = of_nat (length fs)"
proof -
  let ?T = "thread_targets cy S mx i"
  define ips where "ips = map (target_of wb) (tl ?T)"
  have T: "map (target_of wb) ?T = target_of wb (hd ?T) # ips" using assms(13) by (cases ?T) (simp_all add: ips_def)
  have shard: "xm_shard_get_cur_ip shard = (target_of wb (hd ?T), shard)" "emits shard ips"
    using thread_emits [OF assms(1-11), of mem max_total] assms(12,13) shard_ips_emits by (auto simp: ips_def)
  have "0 \<notin> set (target_of wb (hd ?T) # ips)"
    using target_in_thread [OF assms(9,10)] unfolding T [symmetric] by (force simp: XM_SHARD_DONE_def)
  moreover have "send_counts shard = (0, 0, max_targets (state shard))"
    using created_counts [OF assms(12)] assms(14-16) by (simp add: send_counts_def)
  then have "sent (state shard) = 0" "tried_sent (state shard) = 0" by (simp_all add: send_counts_def)
  ultimately show ?thesis unfolding T by (rule task_probes [OF shard _ _ _ assms(17-21)])
qed

text \<open>A sender's context and an outside for the concrete runs.\<close>

definition demo_send_ctx :: "xm_probe \<Rightarrow> xm_context" where
  "demo_send_ctx probe = (demo_recv_ctx probe)\<lparr>source_ip_addresses := [0x0100000A], number_source_ips := 1,
     hw_mac := [1, 2, 3, 4, 5, 6], gw_mac := [6, 5, 4, 3, 2, 1], num_retries := 0, max_runtime := 0,
     list_of_ips_filename := None\<rparr>"

definition demo_send_world :: send_world where
  "demo_send_world = \<lparr>packet_time = (\<lambda>n. (0, 0)), driver_takes = (\<lambda>n d. True), recv_completed = (\<lambda>n. False),
     seconds_passed = (\<lambda>n s. False)\<rparr>"

lemma demo_send_ok: "probe \<in> set probes \<Longrightarrow> send_ctx (demo_send_ctx probe)"
  by (auto simp: send_ctx_def demo_send_ctx_def demo_recv_ctx_def)

lemma demo_thread_target: "thread_targets demo_cycle 1 1 1 \<noteq> []"
proof -
  have "elem demo_cycle 512 = elem demo_cycle 0" by (rule elem_cong [OF demo_cycle_ok(1)]) (simp add: demo_cycle_ok)
  also have "\<dots> = 1" by (simp add: elem_def demo_cycle_ok)
  finally have "1 \<in> set (thread_elems demo_cycle 1 1)"
    by (auto simp: thread_elems_def thread_len_def Let_def demo_cycle_ok image_iff intro!: bexI [of _ 512])
      (simp_all add: demo_cycle_def)
  moreover have "valid_elem 1 1" by (simp add: valid_elem_def fits_def)
  ultimately show ?thesis by (force simp: thread_targets_def filter_empty_conv)
qed

theorem sender_probes_targets_witness:
  "\<exists>wb shard s fs. xm_wblist_create demo_env None None (Some [''10.0.0.0/8'']) (Some [''10.1.0.0/16'']) = Inr wb \<and>
    xm_shard_create modpow \<lparr>sent = 0, tried_sent = 0, blacklisted = 0, whitelisted = 0, failures = 0,
      first_scanned = 0, max_targets = 0\<rparr> 0 1 1 1 0 1 demo_cycle wb = Some shard \<and>
    send_task_run (demo_send_ctx probe_tcp_synscan) (static_of (demo_send_ctx probe_tcp_synscan) demo_static)
      demo_send_world 7 \<lparr>aes_input = [0, 0, 0, 0], aes_sched = replicate 44 0\<rparr> shard = Some (Inr s) \<and> send_log s = concat fs"
proof -
  let ?ctx = "demo_send_ctx probe_tcp_synscan"
  let ?mem = "\<lparr>sent = 0, tried_sent = 0, blacklisted = 0, whitelisted = 0, failures = 0, first_scanned = 0, max_targets = 0\<rparr>"
  obtain wb where wb: "xm_wblist_create demo_env None None (Some [''10.0.0.0/8'']) (Some [''10.1.0.0/16'']) = Inr wb"
    using demo_created by blast
  then have ready: "wblist_ready wb" "1 \<le> xm_wblist_count_allowed wb"
    using wblist_create_ready [OF wb demo_zero] wblist_create_tree(2) [OF wb] word_less_1 [of "xm_wblist_count_allowed wb"]
    by (auto simp: word_le_nat_alt Suc_le_eq unat_gt_0 word_neq_0_conv)
  have fit: "fits (elem demo_cycle k)" for k
    using unat_elem_lt [OF demo_cycle_ok(1), of k] by (simp add: fits_def word_less_nat_alt demo_cycle_ok)
  have one: "1 = unat (1 :: u16) * unat (1 :: u8)" "1 = unat (sub_index 0 1 1)" by (simp_all add: unat_sub_index)
  have order: "unat (order demo_cycle) < 2 ^ 33" "1 \<le> unat (order demo_cycle)" by (simp_all add: demo_cycle_ok)
  obtain shard where s: "xm_shard_create modpow ?mem 0 1 1 1 0 1 demo_cycle wb = Some shard"
    using thread_emits [OF demo_cycle_ok(1) order(1) modpow_power one _ _ order(2) ready fit, of ?mem 0] by auto
  have ctx: "send_ctx ?ctx" by (rule demo_send_ok) (simp add: probes_def)
  have w: "takes_all demo_send_world" "\<forall>n. \<not> recv_completed demo_send_world n" "max_runtime ?ctx = 0"
    "list_of_ips_filename ?ctx = None"
    by (simp_all add: takes_all_def demo_send_world_def demo_send_ctx_def)
  show ?thesis
    using wb s sender_probes_targets [OF demo_cycle_ok(1) order(1) modpow_power one _ _ order(2) ready fit s
      demo_thread_target _ _ _ ctx w(1,2,3), of demo_static 7 "\<lparr>aes_input = [0, 0, 0, 0], aes_sched = replicate 44 0\<rparr>"] w(4)
    by auto
qed



text \<open>Property C33. Every sending task has a cycle of its own: the tasks of one scan are made of the
  cycles that the generator of random numbers gives one after the other, not of one cycle.\<close>

theorem tasks_own_cycles:
  assumes "xm_work_create powm ww sys mh timems m vs ctx = Inr (cp', ctx', shards, task)"
  shows "\<exists>cycles aess. length cycles = unat (senders ctx) \<and> length shards = unat (senders ctx) \<and>
    aess ! 0 = the (the_aes ctx) \<and>
    (\<forall>k < unat (senders ctx). task_made powm ww ctx (k + 1) (cycles ! k) (aess ! k) (aess ! Suc k) (shards ! k))"
proof -
  obtain cp cp1 where "create_send_tasks powm ww cp ctx [0..<unat (senders ctx)] = Inr (cp1, ctx', shards)"
    using assms by (auto simp: xm_work_create_def split: if_splits sum.splits option.splits prod.splits)
  from send_tasks_cycles [OF this] obtain cycles aess where "length cycles = unat (senders ctx)"
    "length shards = unat (senders ctx)" "aess ! 0 = the (the_aes ctx)"
    "\<forall>k < unat (senders ctx). task_made powm ww ctx ([0..<unat (senders ctx)] ! k + 1) (cycles ! k) (aess ! k) (aess ! Suc k) (shards ! k)"
    by auto
  then show ?thesis by (intro exI [of _ cycles] exI [of _ aess]) auto
qed

text \<open>A list that allows nothing, two threads, and an outside that gives all that is asked for.\<close>

definition demo_wblist :: xm_wblist where
  "demo_wblist = \<lparr>wb_iptree = xm_iptree_paint_value (xm_iptree_create ADDR_DISALLOWED) ADDR_ALLOWED\<rparr>"

definition demo_work_ctx :: xm_context where
  "demo_work_ctx = (demo_send_ctx probe_tcp_synscan)\<lparr>the_wblist := Some demo_wblist,
     the_aes := Some \<lparr>input = replicate 16 0, sched = replicate 44 0, aes_output = replicate 16 0\<rparr>,
     total_shards := 1, senders := 2, core_mask := Some '' 0x1f'', shm_fname := Some ''r'', shm_fsize := 0x10000, shm_fentry_size := 4096\<rparr>"

definition demo_work_world :: work_world where
  "demo_work_world = \<lparr>work_machine = demo_machine, tx_driver = (\<lambda>n. True), rx_driver = True,
     shard_mem = (\<lambda>n. \<lparr>sent = 0, tried_sent = 0, blacklisted = 0, whitelisted = 0, failures = 0,
       first_scanned = 0, max_targets = 0\<rparr>)\<rparr>"

lemma demo_wblist_ready: "wblist_ready demo_wblist" "xm_wblist_count_allowed demo_wblist = 0"
proof -
  let ?t = "xm_iptree_create ADDR_DISALLOWED"
  have inv: "iptree_inv ?t" by (rule iptree_inv_create)
  then have len: "length (radix ?t) = 2 ^ RADIX_LENGTH" by (simp add: iptree_inv_def)
  have leaf: "xm_iptree_lookup_ip ?t a = ADDR_DISALLOWED" for a
    by (simp add: xm_iptree_lookup_ip_def xm_iptree_create_def create_leaf_def)
  then have "indexed_addrs ?t ADDR_ALLOWED = {}"
    by (auto simp: indexed_addrs_def ADDR_ALLOWED_def ADDR_DISALLOWED_def)
  then have "unat (xm_wblist_count_allowed demo_wblist) = 0"
    using count_ips_card [OF iptree_inv_paint [OF inv]] inv
    by (simp add: xm_wblist_count_allowed_def demo_wblist_def)
  then show "xm_wblist_count_allowed demo_wblist = 0" by (metis unsigned_0 word_eqI_unat)
  show "wblist_ready demo_wblist"
    using paint_value_fields [OF len] leaf inv
    by (simp add: wblist_ready_def demo_wblist_def xm_wblist_is_allowed_def lookup_ip_paint_value
      ADDR_ALLOWED_def ADDR_DISALLOWED_def iptree_inv_paint)
qed

lemma demo_create_shard:
  assumes "the_wblist ctx = Some wb" "wblist_ready wb" "xm_get_cyclic_group (xm_wblist_count_allowed wb) = Some (groups ! 0)"
    "S = unat (total_shards ctx) * unat (senders ctx)" "0 < S" "S \<le> 256"
    "unat (sub_index (shard_num ctx) (senders ctx) th) \<le> S"
  shows "\<exists>m aes shard. create_shard modpow mem ctx th = Some (ctx\<lparr>xsend_max_index := m, the_aes := Some aes\<rparr>, shard)"
proof -
  have p: "unat (prime (groups ! 0)) = 257" by (simp add: groups_def)
  then have small: "unat (prime (groups ! 0)) < 2 ^ 32" by simp
  obtain cy aes where c: "xm_make_cycle modpow (groups ! 0) (the (the_aes ctx)) = (Some (Some cy), aes)"
    using make_cycle_returns by blast
  have g: "groups ! 0 \<in> set groups" by (simp add: groups_def)
  note parts = make_cycle_parts [OF g modpow_power c]
  have ok: "cycle_ok cy" by (rule small_cycle_ok [OF g small modpow_power c])
  have fit: "fits (elem cy k)" for k
    using unat_elem_lt [OF ok, of k] parts(1) by (simp add: fits_def word_less_nat_alt p)
  obtain shard where "xm_shard_create modpow mem (shard_num ctx) (total_shards ctx) th (senders ctx) (xsend_max_targets ctx)
      (ucast (index_bound wb)) cy wb = Some shard"
    using thread_emits [OF ok _ modpow_power assms(4) refl assms(5,7) _ assms(2) _ fit, of "xm_wblist_count_allowed wb"]
      assms(6) parts(2) by (auto simp: p index_bound_count [OF assms(2)])
  then have "create_shard modpow mem ctx th = Some (ctx\<lparr>xsend_max_index := index_bound wb, the_aes := Some aes\<rparr>, shard)"
    using assms(1,3) by (simp add: create_shard_def c Let_def index_bound_def)
  then show ?thesis by blast
qed

lemma demo_pool_bound: "length ts \<le> 4 \<Longrightarrow>
  \<exists>cp0 cp. xm_core_pool_create demo_machine (Some '' 0x1f'') = Some cp0 \<and> bind_tasks cp0 ts = Some cp"
proof -
  assume "length ts \<le> 4"
  moreover obtain cp0 where cp0: "xm_core_pool_create demo_machine (Some '' 0x1f'') = Some cp0"
    using demo_pool(1) [OF demo_masks(3)] by blast
  moreover have "length (slaves_of cp0) = 4" using cp0 demo_pool(2) demo_masks(4) by simp
  ultimately show ?thesis
    using bind_tasks_bound [OF created_pool(1) [OF cp0] created_bound [OF cp0], of ts] by auto
qed

lemma demo_receiver: "\<exists>task. xm_recv_task_create demo_system demo_header 0 True (\<lambda>a. 0)
  \<lparr>aes_input = [0, 0, 0, 0], aes_sched = replicate 44 0\<rparr> ctx = Some task"
proof -
  have "xm_shm_mmap_create demo_system mh f fs es 0 True \<noteq> None" for mh f fs es
    by (simp add: xm_shm_mmap_create_def demo_system_def mmap_file_open_for_write_def mmap_header_attach_def
      MAP_FAILED_def Let_def)
  then show ?thesis
    by (fastforce simp: xm_recv_task_create_def xm_store_create_def xm_shm_format_with_mmap_create_def split: option.splits)
qed

lemma demo_world: "tx_driver demo_work_world n" "rx_driver demo_work_world" "work_machine demo_work_world = demo_machine"
  by (simp_all add: demo_work_world_def)

lemma demo_work: "\<exists>cp ctx' shards task. xm_work_create modpow demo_work_world demo_system demo_header 0 (\<lambda>a. 0)
    \<lparr>aes_input = [0, 0, 0, 0], aes_sched = replicate 44 0\<rparr> demo_work_ctx = Inr (cp, ctx', shards, task)"
proof -
  have ctx: "the_wblist demo_work_ctx = Some demo_wblist" "shard_num demo_work_ctx = 0" "total_shards demo_work_ctx = 1"
    "senders demo_work_ctx = 2" "core_mask demo_work_ctx = Some '' 0x1f''"
    by (simp_all add: demo_work_ctx_def demo_send_ctx_def demo_recv_ctx_def context_init_def)
  have g: "xm_get_cyclic_group (xm_wblist_count_allowed demo_wblist) = Some (groups ! 0)"
    by (simp add: demo_wblist_ready(2) xm_get_cyclic_group_def groups_def)
  note create = demo_create_shard [OF _ demo_wblist_ready(1) g, of _ 2]
  obtain m1 aes1 sh1 where 1: "create_shard modpow (shard_mem demo_work_world 1) demo_work_ctx 1 =
      Some (demo_work_ctx\<lparr>xsend_max_index := m1, the_aes := Some aes1\<rparr>, sh1)"
    using create [of demo_work_ctx 1 "shard_mem demo_work_world 1"] by (auto simp: ctx unat_sub_index)
  let ?c1 = "demo_work_ctx\<lparr>xsend_max_index := m1, the_aes := Some aes1\<rparr>"
  obtain m2 aes2 sh2 where 2: "create_shard modpow (shard_mem demo_work_world 2) ?c1 2 =
      Some (demo_work_ctx\<lparr>xsend_max_index := m2, the_aes := Some aes2\<rparr>, sh2)"
    using create [of ?c1 2 "shard_mem demo_work_world 2"] by (auto simp: ctx unat_sub_index)
  have two: "[0..<2] = [0, 1]" by (simp add: upt_rec)
  obtain cp0 cp3 where cp0: "xm_core_pool_create demo_machine (Some '' 0x1f'') = Some cp0" "bind_tasks cp0 [1, 2, 0] = Some cp3"
    using demo_pool_bound [of "[1, 2, 0]"] by auto
  then obtain cp1 cp2 where cps: "xm_core_pool_bind_task cp0 1 = Some cp1" "xm_core_pool_bind_task cp1 2 = Some cp2"
    "xm_core_pool_bind_task cp2 0 = Some cp3"
    by (auto simp: bind_eq_Some_conv)
  have tasks: "create_send_tasks modpow demo_work_world cp0 demo_work_ctx [0..<unat (senders demo_work_ctx)] =
      Inr (cp2, demo_work_ctx\<lparr>xsend_max_index := m2, the_aes := Some aes2\<rparr>, [sh1, sh2])"
    using 1 2 cps by (simp add: ctx two xm_send_task_create_def demo_world numeral_2_eq_2 [symmetric])
  then show ?thesis
    using demo_receiver [of "demo_work_ctx\<lparr>xsend_max_index := m2, the_aes := Some aes2\<rparr>"] cp0 cps(3)
    by (auto simp: xm_work_create_def demo_world ctx)
qed

text \<open>One of two scans with a sender each, of the sixteen addresses of the runs of \<open>xiterate\<close>.\<close>

definition demo_scan_ctx :: xm_context where
  "demo_scan_ctx = demo_work_ctx\<lparr>the_wblist := Some demo_iter_wb, senders := 1, total_shards := 2\<rparr>"

lemma demo_iter_ready: "wblist_ready demo_iter_wb"
  using wblist_create_ready [OF demo_iter_list(1) [unfolded iter_list_def] demo_zero] .

lemma demo_scan: "k < 2 \<Longrightarrow> \<exists>cp ctx' shards task. xm_work_create modpow demo_work_world demo_system demo_header 0 (\<lambda>a. 0)
    \<lparr>aes_input = [0, 0, 0, 0], aes_sched = replicate 44 0\<rparr> (demo_scan_ctx\<lparr>shard_num := of_nat k\<rparr>) = Inr (cp, ctx', shards, task)"
proof -
  assume k: "k < 2"
  let ?c = "demo_scan_ctx\<lparr>shard_num := of_nat k\<rparr>"
  have ctx: "the_wblist ?c = Some demo_iter_wb" "total_shards ?c = 2" "senders ?c = 1" "core_mask ?c = Some '' 0x1f''"
    by (simp_all add: demo_scan_ctx_def demo_work_ctx_def)
  have "unat (sub_index (of_nat k) 1 1) \<le> 2" using k by (simp add: unat_sub_index unat_of_nat_small)
  then obtain m1 aes1 sh1 where 1: "create_shard modpow (shard_mem demo_work_world 1) ?c 1 =
      Some (?c\<lparr>xsend_max_index := m1, the_aes := Some aes1\<rparr>, sh1)"
    using demo_create_shard [OF ctx(1) demo_iter_ready demo_iter_list(3), of 2 1 "shard_mem demo_work_world 1"]
    by (auto simp: ctx)
  obtain cp0 cp2 where cp0: "xm_core_pool_create demo_machine (Some '' 0x1f'') = Some cp0" "bind_tasks cp0 [1, 0] = Some cp2"
    using demo_pool_bound [of "[1, 0]"] by auto
  then obtain cp1 where cps: "xm_core_pool_bind_task cp0 1 = Some cp1" "xm_core_pool_bind_task cp1 0 = Some cp2"
    by (auto simp: bind_eq_Some_conv)
  have "create_send_tasks modpow demo_work_world cp0 ?c [0..<unat (senders ?c)] =
      Inr (cp1, ?c\<lparr>xsend_max_index := m1, the_aes := Some aes1\<rparr>, [sh1])"
    using 1 cps(1) by (simp add: ctx xm_send_task_create_def demo_world)
  then show ?thesis
    using demo_receiver [of "?c\<lparr>xsend_max_index := m1, the_aes := Some aes1\<rparr>"] cp0(1) cps(2)
    by (auto simp: xm_work_create_def demo_world ctx)
qed


theorem tasks_own_cycles_witness:
  "\<exists>cycles aess shards. length shards = 2 \<and> (\<forall>k < 2. task_made modpow demo_work_world demo_work_ctx (k + 1) (cycles ! k) (aess ! k) (aess ! Suc k) (shards ! k))"
proof -
  obtain cp ctx' shards task where w: "xm_work_create modpow demo_work_world demo_system demo_header 0 (\<lambda>a. 0)
      \<lparr>aes_input = [0, 0, 0, 0], aes_sched = replicate 44 0\<rparr> demo_work_ctx = Inr (cp, ctx', shards, task)"
    using demo_work by blast
  have "unat (senders demo_work_ctx) = 2" by (simp add: demo_work_ctx_def)
  then show ?thesis using tasks_own_cycles [OF w] by auto
qed

text \<open>Property C24. A scan ends only if its mask enables no more cores than it has tasks: with one core
  more than the master, the senders and the receiver need, the master waits for ever, because
  the thread of a core without a task leaves its loop in the state of one that runs.\<close>

theorem idle_core_never_returns:
  assumes "xm_work_create powm ww sys mh timems m vs ctx = Inr (cp, ctx', shards, task)"
    "unat (senders ctx) + 1 < length (slaves_of cp)" "pool_reachable (slaves_of cp) (tasks_of cp tasks) s"
  shows "m_point s \<noteq> Returned"
proof
  assume returned: "m_point s = Returned"
  obtain cp0 where cp0: "xm_core_pool_create (work_machine ww) (core_mask ctx) = Some cp0"
    "bind_tasks cp0 (map Suc [0..<unat (senders ctx)] @ [0]) = Some cp" using work_bound [OF assms(1)] by blast
  then obtain str where str: "core_mask ctx = Some str" by (cases "core_mask ctx") (auto simp: xm_core_pool_create_def)
  note created = cp0(1) [unfolded str]
  have "None \<in> set (bound cp)"
    using bind_tasks_bound [OF created_pool(1) [OF created] created_bound [OF created],
        of "map Suc [0..<unat (senders ctx)] @ [0]"] cp0(2) assms(2)
    by (auto split: if_splits)
  then obtain i where "i \<in> set (slaves_of cp)" "core_tsk (cores cp ! i) = None" by (auto simp: bound_def)
  then show False using pool_inv_reachable [OF assms(3) slaves_range(2)] returned
    by (auto simp: pool_inv_def tasks_of_def)
qed

theorem idle_core_never_returns_witness:
  "\<exists>cp ctx' shards task. xm_work_create modpow demo_work_world demo_system demo_header 0 (\<lambda>a. 0)
      \<lparr>aes_input = [0, 0, 0, 0], aes_sched = replicate 44 0\<rparr> demo_work_ctx = Inr (cp, ctx', shards, task) \<and>
    (\<forall>s. pool_reachable (slaves_of cp) (tasks_of cp (\<lambda>t. demo_task_ends)) s \<longrightarrow> m_point s \<noteq> Returned)"
proof -
  obtain cp ctx' shards task where w: "xm_work_create modpow demo_work_world demo_system demo_header 0 (\<lambda>a. 0)
      \<lparr>aes_input = [0, 0, 0, 0], aes_sched = replicate 44 0\<rparr> demo_work_ctx = Inr (cp, ctx', shards, task)"
    using demo_work by blast
  have c: "work_machine demo_work_world = demo_machine" "core_mask demo_work_ctx = Some '' 0x1f''" "senders demo_work_ctx = 2"
    by (simp_all add: demo_work_ctx_def demo_work_world_def)
  obtain cp0 where cp0: "xm_core_pool_create demo_machine (Some '' 0x1f'') = Some cp0"
    "bind_tasks cp0 (map Suc [0..<unat (senders demo_work_ctx)] @ [0]) = Some cp"
    using work_bound [OF w] unfolding c(1,2) by blast
  have "length (slaves_of cp) = 4"
    using bind_tasks_bound [OF created_pool(1) [OF cp0(1)] created_bound [OF cp0(1)],
        of "map Suc [0..<unat (senders demo_work_ctx)] @ [0]"] cp0(2) demo_pool(2) [OF cp0(1)] demo_masks(4)
    by (auto split: if_splits)
  then have "unat (senders demo_work_ctx) + 1 < length (slaves_of cp)" by (simp add: c(3))
  from idle_core_never_returns [OF w this] show ?thesis using w by blast
qed

text \<open>With cycles of their own the threads no longer divide the targets: their shares have
  together just as many elements as there are, so whenever two threads draw the same element,
  some element is drawn by none of them and its address is never probed.\<close>

theorem repeated_means_missed:
  assumes "length cycles = S" "0 < S" "\<forall>cy \<in> set cycles. cycle_ok cy \<and> cgroup cy = g \<and> S dvd unat (order cy)"
    "i < j" "j < S" "x \<in> set (thread_elems (cycles ! i) S (i + 1))" "x \<in> set (thread_elems (cycles ! j) S (j + 1))"
  shows "\<exists>y. 0 < y \<and> y < prime g \<and> (\<forall>k < S. y \<notin> set (thread_elems (cycles ! k) S (k + 1)))"
proof -
  let ?Q = "unat (prime g) - 1" and ?E = "\<lambda>k. thread_elems (cycles ! k) S (k + 1)"
  have cy: "cycle_ok (cycles ! k)" "cgroup (cycles ! k) = g" "S dvd unat (order (cycles ! k))" if "k < S" for k
    using assms(1,3) that nth_mem [of k cycles] by blast+
  have Q: "unat (order (cycles ! k)) = ?Q" if "k < S" for k
    using cy(1,2) [OF that] by (simp add: cycle_ok_def)
  have len: "length (?E k) = ?Q div S" if "k < S" for k
  proof -
    have "unat (order (cycles ! k)) - unat (order (cycles ! k)) div S * (S - 1) = unat (order (cycles ! k)) div S"
      using cy(3) [OF that] assms(2) by (metis dvd_div_mult_self diff_mult_distrib2 diff_diff_cancel mult.right_neutral
        less_eq_Suc_le One_nat_def)
    then show ?thesis using that cy(3) [OF that] Q [OF that]
      by (auto simp: thread_elems_def thread_len_def shard_len_def Let_def)
  qed
  define all where "all = concat (map ?E [0..<S])"
  have "map length (map ?E [0..<S]) = map (\<lambda>_. ?Q div S) [0..<S]" using len by simp
  then have "length all = S * (?Q div S)" unfolding all_def length_concat by (simp add: map_replicate_const sum_list_replicate)
  also have "\<dots> = ?Q" using cy(3) [of 0] Q [of 0] assms(2) by simp
  finally have L: "length all = ?Q" .
  have "\<not> distinct all"
  proof
    assume "distinct all"
    moreover have "[0..<S] = [0..<i] @ i # [Suc i..<j] @ j # [Suc j..<S]"
      using assms(4,5) upt_add_eq_append [of 0 i "S - i"] upt_add_eq_append [of "Suc i" j "S - j"]
      by (simp add: upt_conv_Cons)
    ultimately show False using assms(6,7) by (auto simp: all_def simp del: upt_Suc)
  qed
  then have small: "card (set all) < ?Q" using L card_length [of all] card_distinct [of all] by fastforce
  let ?Y = "{y. 0 < y \<and> y < prime g}"
  have "bij_betw unat ?Y {1..<unat (prime g)}"
  proof (rule bij_betw_imageI)
    show "inj_on unat ?Y" by (auto simp: inj_on_def unsigned_word_eqI)
    have "n \<in> unat ` ?Y" if n: "n \<in> {1..<unat (prime g)}" for n
    proof -
      have "n < 2 ^ 64" using n unsigned_less [of "prime g", where ?'a = nat] by simp
      then have "unat (of_nat n :: u64) = n" by (simp add: unat_of_nat take_bit_eq_mod)
      then show ?thesis using n by (intro image_eqI [of _ _ "of_nat n"]) (auto simp: word_less_nat_alt)
    qed
    then show "unat ` ?Y = {1..<unat (prime g)}" by (auto simp: word_less_nat_alt)
  qed
  then have "card ?Y = ?Q" by (simp add: bij_betw_same_card)
  with small have "\<not> ?Y \<subseteq> set all" using card_mono [of "set all" ?Y] by auto
  then show ?thesis by (force simp: all_def)
qed

theorem repeated_means_missed_witness:
  "\<exists>y. 0 < y \<and> y < prime (cgroup demo_cycle) \<and>
    (\<forall>k < 2. y \<notin> set (thread_elems ([demo_cycle, demo_cycle\<lparr>offset := 8\<rparr>] ! k) 2 (k + 1)))"
proof -
  let ?c = "demo_cycle\<lparr>offset := 8\<rparr>"
  have ok: "\<forall>cy \<in> set [demo_cycle, ?c]. cycle_ok cy \<and> cgroup cy = cgroup demo_cycle \<and> 2 dvd unat (order cy)"
    using demo_cycle_ok by (simp add: cycle_ok_def)
  have "elem demo_cycle 391 = elem demo_cycle 135" by (rule elem_cong [OF demo_cycle_ok(1)]) (simp add: demo_cycle_ok)
  then have same: "elem ?c 391 = elem demo_cycle 135" by (simp add: elem_def)
  have "elem demo_cycle 135 \<in> set (thread_elems demo_cycle 2 1)"
    by (auto simp: thread_elems_def thread_len_def shard_len_def Let_def demo_cycle_ok) (simp_all add: demo_cycle_def)
  moreover have "elem ?c 391 \<in> set (thread_elems ?c 2 2)"
    by (auto simp: thread_elems_def thread_len_def Let_def demo_cycle_ok)
  ultimately show ?thesis
    using repeated_means_missed [of "[demo_cycle, ?c]" 2 "cgroup demo_cycle" 0 1 "elem demo_cycle 135", OF _ _ ok] same
    by (simp add: numeral_2_eq_2)
qed

end
