(* ===== verification/Spec2Isabelle.thy ===== *)
theory Spec2Isabelle
  imports Iterate Javaiter Reader Segments Threads Work
begin

text \<open>
  A verification library for xmap, a scanner of the IPv4 address space.

  \<^bold>\<open>The program.\<close>  A scan is configured by a context (\<open>src/xm_context.c\<close>).  Its targets are the
  addresses that a whitelist and a blacklist allow (\<open>src/xm_wblist.c\<close>, on the prefix tree of
  \<open>lib/common/xm_iptree.c\<close>), which the tree numbers from 0.  They are visited in the order of a
  random cyclic group modulo a prime (\<open>src/xm_cyclic.c\<close>, random words from AES in
  \<open>src/xm_aesrand.c\<close>), cut into shards (\<open>src/xm_shard.c\<close>), one for each sending task
  (\<open>src/xm_send_task.c\<close>).  A probe module (\<open>src/probe\<close>) makes the packets; numbers in them are the
  encrypted address pair (\<open>src/xm_validate.c\<close>), by which the receiving task
  (\<open>src/xm_recv_task.c\<close>) recognises the answers.  It marks the addresses that answered in a bitmap
  (\<open>lib/common/xm_pbm.c\<close>) and stores a record for each (\<open>src/xm_store.c\<close>) in a ring of blocks in
  shared memory (\<open>lib/shm\<close>), from which Java programs read (\<open>api/java/jni/xm_entry_reader.c\<close>).  The
  tasks are created by \<open>src/xm_work.c\<close> and run on the threads of a pool of cores (\<open>lib/thread\<close>).  The
  program \<open>xiterate\<close> (\<open>src/xiterate.c\<close>) and the Java iterator (\<open>api/java/jni/xm_ip_iterator.c\<close>) only
  list the addresses.

  \<^bold>\<open>Theories.\<close>
  \<^item> \<open>Prelude\<close>: types of machine words, the collections of word facts, lemmas on bytes, lists and
    bits.  \<open>Libc\<close>: what the code uses of the C library (\<open>strtol\<close>, \<open>fgets\<close>, \<open>sscanf\<close>, \<open>isspace\<close>).
    \<open>Memory\<close>: a byte memory with 64-bit addresses, reads and writes of segments.
  \<^item> \<open>Iptree\<close>: the nodes of the tree as a datatype, \<open>xm_iptree_add\<close>, lookup, counting, painting with
    the array of /20 prefixes, lookup by index.  The tree is related to the list of its leaves:
    the index lookup enumerates just the addresses whose lookup gives the painted value, and a
    sequence of additions gives each address the value of its last prefix.
  \<^item> \<open>Wblist\<close>: entries, list files and \<open>xm_wblist_create\<close>; a locale (\<open>target_list\<close>) states what the
    shards need of a list, and is interpreted on it.  The targets are the addresses that are
    \<open>numbered\<close>: allowed, with a leaf within 32 levels of the tree.  An allowed address that is not
    numbered is that of a whitelist entry without a slash, which the code takes for a prefix of
    256 bits, counts as nothing and never visits.
  \<^item> \<open>Rijndael\<close>, \<open>Rijndael_Tables\<close>, \<open>Rijndael_Correct\<close>: the cipher as in
    \<open>lib/common/rijndael-alg-fst.c\<close> with its tables, which are shown to be those of the field
    multiplications; decryption inverts encryption, and encryption computes the rounds of AES.
  \<^item> \<open>Aesrand\<close>: random words and validation bytes; different address pairs have different bytes.
    \<open>Threads\<close>: the same function called by several threads, as an interleaving of its statements.
  \<^item> \<open>Orders\<close>, \<open>Cyclic\<close>: orders of elements modulo a prime; the five groups of the code (their
    primes and factors are checked), the search for a generator, cycles.
  \<^item> \<open>Shard\<close>: exponent ranges of subshards, the walk through a range; the shards that are created on
    one cycle emit every target once.
  \<^item> \<open>Pbm\<close>: the paged bitmap refines a set of addresses.
  \<^item> \<open>Binformat\<close>, \<open>Shm\<close>, \<open>Shmformat\<close>: writers and readers of values in a block, the ring of blocks and
    its providers, blocks of records.  The ring refines a bounded queue (a locale interpreted on
    it), the log of records is what readers get.  \<open>Segments\<close>: the life of System V segments.
    \<open>Reader\<close>: the table of Java readers.
  \<^item> \<open>Store\<close>, \<open>Packet\<close>, \<open>Probes\<close>: results packed for the shared memory, packet headers and checksums
    over buffers of bytes, the four probe modules behind one record of functions.
  \<^item> \<open>Context\<close>: the stages of \<open>_context_set\<close> from options to context; every stage keeps or
    establishes what the tasks rely on.
  \<^item> \<open>Recv\<close>, \<open>Send\<close>, \<open>Work\<close>: the tasks and their creation; each address is reported once, each
    target of a task's range is probed, and the scans of all shard numbers cover the list.
  \<^item> \<open>Corepool\<close>, \<open>Launch\<close>: the mask of cores and the binding of tasks, and the protocol of master
    and slaves as a step relation with its invariant and a measure that bounds every run.
  \<^item> \<open>Iterate\<close>, \<open>Javaiter\<close>: the two listers of addresses.  \<open>Iterate\<close> also holds the lemmas on the cycle of
    a seed that \<open>Javaiter\<close> and \<open>Work\<close> use.

  \<^bold>\<open>Modelling.\<close>  Machine integers are words of their width.  C structures are records, packets are
  functions from offsets to bytes, the shared memory is a byte memory with the header beside it.
  Fallible functions return options or sums, whose error side names the exit of the code; a write
  past an array, a division by zero and the use of a null pointer are results of their own where
  the code can come to them.  Loops that may run for ever (the walk of a shard, the search for a
  generator, waiting for room in the ring, the loops of the tasks) are partial functions into
  options, with \<open>None\<close> for not returning; that they return is part of the theorems.  The number
  of batches, of turns and of calls is arbitrary everywhere: no fuel bounds a model.  The walk of a
  shard needs at most as many steps as its group has elements.  In the groups with primes below
  2^32, those of lists with at most 2^28 + 2 targets, every seed gives a cycle that is walked
  through.  In the largest group, with the prime 2^32 + 15, the code keeps the root in 32 bits,
  can overflow 64 bits when it multiplies, and misses the end of a shard that is an element of
  more than 32 bits; the theorems that cover a list ask there that the generator of random words
  gives none of these (\<open>aes_walks\<close> of \<open>Iterate\<close>), as it does for all but rare seeds.

  The busy waiting of the master for a slave is a step that is enabled when the state has
  changed: turns that find it unchanged are no steps, and the run of a task is one step.  The flag
  \<open>xsend.complete\<close>, which the receiver reads for each packet, is constant during one call of the
  driver; nothing sets it.  The counters of a new shard are those of memory that is not cleared:
  they are an argument, and what is said of a sender's counters and limits is for cleared memory.
  The shared memory of a writer is read as one block from a base address on: this is how System V
  memory is attached, while a file is mapped block by block, and there the address of a byte stands
  for its place in the file.  The System V calls are defined as documented; failures for lack of permission are left
  out.

  \<^bold>\<open>Parameters.\<close>  \<open>mpz_powm\<close> of GMP is an argument \<open>powm\<close>, with the hypothesis that it computes powers
  modulo a number; \<open>inet_aton\<close>, \<open>getaddrinfo\<close> and files are the record \<open>environment\<close>, the machine
  is \<open>host\<close>, the processors are \<open>machine\<close>; the bytes that msgpack appends are an argument \<open>pack\<close>,
  of which only lengths are assumed; drivers and clocks are functions from call numbers to results.

  \<^bold>\<open>Not modelled.\<close>  The drivers (PF_RING, pcap, sockets) and their configuration files are I/O; the
  option parsers are generated; the pacing of the senders only waits, by floating-point
  arithmetic; logging and printing; freeing of memory, and the unmapping of files; the affinity
  and names of threads and failing pipes; the tool that dumps a shared memory; the tests.  The
  greater part of \<open>lib/common\<close> is code of other projects (Apache's tables, files, strings,
  formatting and configuration, ring and locks of DPDK and Linux, BSD queues): the program uses
  its arrays as lists and its pools to allocate, and much of it not at all.  The main program
  of \<open>src/xmap.c\<close> only calls the functions above in their order.
\<close>

end
